(* ===== verification/Prelude.thy ===== *)
theory Prelude
  imports Main "HOL-Library.AList" "HOL-Library.Char_ord" "HOL-Library.List_Lexorder"
begin

text \<open>
  Shared vocabulary of the development: the state-and-error computations every operation of the
  launcher is written in, the rules that carry invariants through them, and generic facts on
  association lists (Go maps with a finite key set).

  A Go function that touches the outside world and returns \<open>(T, error)\<close> is a function from the
  world to a pair: \<open>Inl err\<close> or \<open>Inr value\<close>, and the world it leaves behind. An early
  \<open>return err\<close> keeps every effect made before it, as in the source.
\<close>

section \<open>Collections\<close>

named_theorems keeps_intros \<open>rules that show a computation keeps a predicate of the world\<close>
named_theorems text_simps \<open>evaluation rules of the byte-string operations\<close>
named_theorems wire_simps \<open>evaluation rules of the JSON encoders and decoders\<close>

section \<open>Computations that fail and change the world\<close>

type_synonym ('w, 'e, 'a) prog = "'w \<Rightarrow> ('e + 'a) \<times> 'w"

definition ret :: "'a \<Rightarrow> ('w, 'e, 'a) prog" where
  "ret x = (\<lambda>w. (Inr x, w))"

definition throw :: "'e \<Rightarrow> ('w, 'e, 'a) prog" where
  "throw e = (\<lambda>w. (Inl e, w))"

text \<open>Sequencing: \<open>x, err := m(); if err != nil { return err }; f(x)\<close>.\<close>

definition andThen :: "('w, 'e, 'a) prog \<Rightarrow> ('a \<Rightarrow> ('w, 'e, 'b) prog) \<Rightarrow> ('w, 'e, 'b) prog" where
  "andThen m f = (\<lambda>w. case m w of (Inl e, w') \<Rightarrow> (Inl e, w') | (Inr x, w') \<Rightarrow> f x w')"

text \<open>\<open>if err != nil { return fmt.Errorf("...: %w", err) }\<close>: the error is decorated.\<close>

definition onErr :: "('e \<Rightarrow> 'e) \<Rightarrow> ('w, 'e, 'a) prog \<Rightarrow> ('w, 'e, 'a) prog" where
  "onErr g m = (\<lambda>w. case m w of (Inl e, w') \<Rightarrow> (Inl (g e), w') | (Inr x, w') \<Rightarrow> (Inr x, w'))"

text \<open>The caller inspects the error value itself: both outcomes continue.\<close>

definition attempt :: "('w, 'e, 'a) prog \<Rightarrow> ('e + 'a \<Rightarrow> ('w, 'e, 'b) prog) \<Rightarrow> ('w, 'e, 'b) prog" where
  "attempt m f = (\<lambda>w. case m w of (r, w') \<Rightarrow> f r w')"

text \<open>\<open>defer cleanup()\<close>: runs after \<open>m\<close> on every path, its result dropped.\<close>

definition deferring :: "('w, 'e, 'a) prog \<Rightarrow> ('w, 'e, 'c) prog \<Rightarrow> ('w, 'e, 'a) prog" where
  "deferring m cleanup = (\<lambda>w. case m w of (r, w') \<Rightarrow> (r, snd (cleanup w')))"

text \<open>Reading and writing the state itself.\<close>

definition gets :: "('w \<Rightarrow> 'a) \<Rightarrow> ('w, 'e, 'a) prog" where
  "gets f = (\<lambda>w. (Inr (f w), w))"

definition modify :: "('w \<Rightarrow> 'w) \<Rightarrow> ('w, 'e, unit) prog" where
  "modify f = (\<lambda>w. (Inr (), f w))"

definition lift :: "'e + 'a \<Rightarrow> ('w, 'e, 'a) prog" where
  "lift r = (\<lambda>w. (r, w))"

lemmas prog_defs = ret_def throw_def andThen_def onErr_def attempt_def deferring_def gets_def
  modify_def lift_def

lemma andThen_lift_Inr: "andThen (lift (Inr x)) f = f x"
  and andThen_gets: "andThen (gets g) f w = f (g w) w"
  by (simp_all add: prog_defs)

lemma andThen_Inr: "m w = (Inr x, w') \<Longrightarrow> andThen m f w = f x w'"
  and andThen_Inl: "m w = (Inl e, w') \<Longrightarrow> andThen m f w = (Inl e, w')"
  and attempt_eq: "m w = (r, w') \<Longrightarrow> attempt m g w = g r w'"
  and onErr_lift_Inr: "onErr h (lift (Inr x)) = lift (Inr x)"
  by (auto simp: prog_defs)

lemma andThen_InrE:
  assumes "andThen m f w = (Inr x, w')"
  obtains y w1 where "m w = (Inr y, w1)" and "f y w1 = (Inr x, w')"
  using assms by (auto simp: andThen_def split: prod.splits sum.splits)

lemma andThen_InlE:
  assumes "andThen m f w = (Inl e, w')"
  obtains "m w = (Inl e, w')" | y w1 where "m w = (Inr y, w1)" and "f y w1 = (Inl e, w')"
  using assms by (auto simp: andThen_def split: prod.splits sum.splits)

lemma onErr_Inr [simp]: "onErr g m w = (Inr x, w') \<longleftrightarrow> m w = (Inr x, w')"
  by (auto simp: onErr_def split: prod.splits sum.splits)

lemma onErr_Inl: "onErr g m w = (Inl e, w') \<longleftrightarrow> (\<exists>e'. m w = (Inl e', w') \<and> e = g e')"
  by (auto simp: onErr_def split: prod.splits sum.splits)

text \<open>A \<open>range\<close> loop whose body may return early with an error.\<close>

fun forEach :: "'a list \<Rightarrow> ('a \<Rightarrow> ('w, 'e, unit) prog) \<Rightarrow> ('w, 'e, unit) prog" where
  "forEach [] f = ret ()"
| "forEach (x # xs) f = andThen (f x) (\<lambda>_. forEach xs f)"

section \<open>Carrying predicates through computations\<close>

text \<open>\<open>keeps R m\<close>: whatever \<open>m\<close> returns, the world before and after are related by \<open>R\<close>.
  With a reflexive and transitive \<open>R\<close> the rules below follow the shape of a program.\<close>

definition keeps :: "('w \<Rightarrow> 'w \<Rightarrow> bool) \<Rightarrow> ('w, 'e, 'a) prog \<Rightarrow> bool" where
  "keeps R m \<longleftrightarrow> (\<forall>w. R w (snd (m w)))"

lemma keepsD: "keeps R m \<Longrightarrow> R w (snd (m w))"
  by (simp add: keeps_def)

lemma keepsD_eq: "keeps R m \<Longrightarrow> m w = (r, w') \<Longrightarrow> R w w'"
  by (auto simp: keeps_def dest: spec [where x = w])

locale world_relation =
  fixes R :: "'w \<Rightarrow> 'w \<Rightarrow> bool"
  assumes R_refl: "R w w"
    and R_trans: "R w w' \<Longrightarrow> R w' w'' \<Longrightarrow> R w w''"
begin

lemma keeps_ret: "keeps R (ret x)"
  by (simp add: keeps_def ret_def R_refl)

lemma keeps_throw: "keeps R (throw e)"
  by (simp add: keeps_def throw_def R_refl)

lemma keeps_lift: "keeps R (lift r)"
  by (simp add: keeps_def lift_def R_refl)

lemma keeps_gets: "keeps R (gets f)"
  by (simp add: keeps_def gets_def R_refl)

lemma keeps_modify: "(\<And>w. R w (f w)) \<Longrightarrow> keeps R (modify f)"
  by (simp add: keeps_def modify_def)

lemma keeps_andThen: "keeps R m \<Longrightarrow> (\<And>x. keeps R (f x)) \<Longrightarrow> keeps R (andThen m f)"
  unfolding keeps_def andThen_def
  by (auto split: prod.split sum.split) (metis R_trans snd_conv)+

lemma keeps_onErr: "keeps R m \<Longrightarrow> keeps R (onErr g m)"
  unfolding keeps_def onErr_def by (auto split: prod.split sum.split) (metis snd_conv)+

lemma keeps_attempt: "keeps R m \<Longrightarrow> (\<And>r. keeps R (f r)) \<Longrightarrow> keeps R (attempt m f)"
  unfolding keeps_def attempt_def by (auto split: prod.split) (metis R_trans snd_conv)

lemma keeps_deferring: "keeps R m \<Longrightarrow> keeps R c \<Longrightarrow> keeps R (deferring m c)"
  unfolding keeps_def deferring_def by (auto split: prod.split) (metis R_trans snd_conv)

lemma keeps_forEach: "(\<And>x. keeps R (f x)) \<Longrightarrow> keeps R (forEach xs f)"
  by (induction xs) (auto intro: keeps_ret keeps_andThen)

lemmas keeps_rules = keeps_ret keeps_throw keeps_lift keeps_gets keeps_andThen keeps_onErr
  keeps_attempt keeps_deferring keeps_forEach

end

section \<open>Pre- and postconditions\<close>

text \<open>\<open>triple P m Q E\<close>: from a world with \<open>P\<close>, a normal return ends in \<open>Q\<close>, an error in \<open>E\<close>.\<close>

definition triple :: "('w \<Rightarrow> bool) \<Rightarrow> ('w, 'e, 'a) prog \<Rightarrow> ('a \<Rightarrow> 'w \<Rightarrow> bool) \<Rightarrow> ('e \<Rightarrow> 'w \<Rightarrow> bool) \<Rightarrow> bool" where
  "triple P m Q E \<longleftrightarrow> (\<forall>w. P w \<longrightarrow> (case m w of (Inr x, w') \<Rightarrow> Q x w' | (Inl e, w') \<Rightarrow> E e w'))"

lemma triple_Inr: "triple P m Q E \<Longrightarrow> P w \<Longrightarrow> m w = (Inr x, w') \<Longrightarrow> Q x w'"
  by (auto simp: triple_def dest: spec [where x = w])

lemma triple_Inl: "triple P m Q E \<Longrightarrow> P w \<Longrightarrow> m w = (Inl e, w') \<Longrightarrow> E e w'"
  by (auto simp: triple_def dest: spec [where x = w])

lemma tripleI:
  "(\<And>w x w'. P w \<Longrightarrow> m w = (Inr x, w') \<Longrightarrow> Q x w') \<Longrightarrow>
     (\<And>w e w'. P w \<Longrightarrow> m w = (Inl e, w') \<Longrightarrow> E e w') \<Longrightarrow> triple P m Q E"
  by (simp add: triple_def split: prod.split sum.split)

lemma triple_ret: "(\<And>w. P w \<Longrightarrow> Q x w) \<Longrightarrow> triple P (ret x) Q E"
  by (simp add: triple_def ret_def)

lemma triple_andThen:
  assumes m: "triple P m Q E" and f: "\<And>x. triple (Q x) (f x) Q' E"
  shows "triple P (andThen m f) Q' E"
proof (rule tripleI)
  fix w x w' assume P: "P w" and "andThen m f w = (Inr x, w')"
  then obtain y w1 where y: "m w = (Inr y, w1)" and x: "f y w1 = (Inr x, w')"
    by (auto simp: andThen_def split: prod.splits sum.splits)
  show "Q' x w'" by (rule triple_Inr [OF f triple_Inr [OF m P y] x])
next
  fix w e w' assume P: "P w" and "andThen m f w = (Inl e, w')"
  then consider (1) "m w = (Inl e, w')" | (2) y w1 where "m w = (Inr y, w1)" and "f y w1 = (Inl e, w')"
    by (auto simp: andThen_def split: prod.splits sum.splits)
  then show "E e w'"
  proof cases
    case 1
    then show ?thesis by (rule triple_Inl [OF m P])
  next
    case (2 y w1)
    show ?thesis by (rule triple_Inl [OF f triple_Inr [OF m P 2(1)] 2(2)])
  qed
qed

lemma triple_onErr:
  assumes m: "triple P m Q (\<lambda>e. E (g e))"
  shows "triple P (onErr g m) Q E"
proof (rule tripleI)
  fix w x w' assume "P w" and "onErr g m w = (Inr x, w')"
  then show "Q x w'" by (intro triple_Inr [OF m]) (auto simp: onErr_def split: prod.splits sum.splits)
next
  fix w e w' assume P: "P w" and "onErr g m w = (Inl e, w')"
  then obtain e' where "m w = (Inl e', w')" and "e = g e'"
    by (auto simp: onErr_def split: prod.splits sum.splits)
  then show "E e w'" using triple_Inl [OF m P] by simp
qed

lemma triple_deferring:
  assumes m: "triple P m Q E" and cQ: "\<And>x. triple (Q x) c (\<lambda>_. Q' x) (\<lambda>_. Q' x)"
    and cE: "\<And>e. triple (E e) c (\<lambda>_. E' e) (\<lambda>_. E' e)"
  shows "triple P (deferring m c) Q' E'"
proof -
  have after: "R' (snd (c w))" if R: "triple R c (\<lambda>_. R') (\<lambda>_. R')" and w: "R w" for R R' w
  proof (cases "c w")
    case (Pair r w')
    then show ?thesis using triple_Inr [OF R w, of _ w'] triple_Inl [OF R w, of _ w'] by (cases r) auto
  qed
  show ?thesis
  proof (rule tripleI)
    fix w x w' assume P: "P w" and "deferring m c w = (Inr x, w')"
    then obtain w1 where "m w = (Inr x, w1)" and "w' = snd (c w1)"
      by (auto simp: deferring_def split: prod.splits)
    then show "Q' x w'" using after [OF cQ triple_Inr [OF m P]] by simp
  next
    fix w e w' assume P: "P w" and "deferring m c w = (Inl e, w')"
    then obtain w1 where "m w = (Inl e, w1)" and "w' = snd (c w1)"
      by (auto simp: deferring_def split: prod.splits)
    then show "E' e w'" using after [OF cE triple_Inl [OF m P]] by simp
  qed
qed

lemma triple_conseq:
  assumes m: "triple P m Q E" and "\<And>w. P' w \<Longrightarrow> P w" and "\<And>x w. Q x w \<Longrightarrow> Q' x w"
    and "\<And>e w. E e w \<Longrightarrow> E' e w"
  shows "triple P' m Q' E'"
proof (rule tripleI)
  show "Q' x w'" if "P' w" "m w = (Inr x, w')" for w x w'
    by (rule assms(3), rule triple_Inr [OF m assms(2)]) (fact that)+
  show "E' e w'" if "P' w" "m w = (Inl e, w')" for w e w'
    by (rule assms(4), rule triple_Inl [OF m assms(2)]) (fact that)+
qed

text \<open>\<open>errs P m\<close>: every error \<open>m\<close> returns satisfies \<open>P\<close>.\<close>

definition errs :: "('e \<Rightarrow> bool) \<Rightarrow> ('w, 'e, 'a) prog \<Rightarrow> bool" where
  "errs P m \<longleftrightarrow> (\<forall>w e w'. m w = (Inl e, w') \<longrightarrow> P e)"

lemma errsD: "errs P m \<Longrightarrow> m w = (Inl e, w') \<Longrightarrow> P e"
  by (auto simp: errs_def)

lemma errs_ret: "errs P (ret x)" and errs_throw: "P e \<Longrightarrow> errs P (throw e)"
  and errs_gets: "errs P (gets f)" and errs_modify: "errs P (modify g)"
  by (auto simp: errs_def prog_defs)

lemma errs_lift: "(\<And>e. r = Inl e \<Longrightarrow> P e) \<Longrightarrow> errs P (lift r)"
  by (auto simp: errs_def lift_def)

lemma errs_andThen: "errs P m \<Longrightarrow> (\<And>x. errs P (f x)) \<Longrightarrow> errs P (andThen m f)"
  by (auto simp: errs_def andThen_def split: prod.splits sum.splits)

lemma errs_onErr: "errs (\<lambda>e. P (g e)) m \<Longrightarrow> errs P (onErr g m)"
  by (auto simp: errs_def onErr_def split: prod.splits sum.splits)

lemma errs_attempt: "(\<And>r. errs P (f r)) \<Longrightarrow> errs P (attempt m f)"
  by (auto simp: errs_def attempt_def split: prod.splits)

lemma errs_attempt_inl:
  "errs P m \<Longrightarrow> (\<And>e. P e \<Longrightarrow> errs P (f (Inl e))) \<Longrightarrow> (\<And>x. errs P (f (Inr x))) \<Longrightarrow> errs P (attempt m f)"
  unfolding errs_def attempt_def by (auto split: prod.splits) (metis sum.exhaust)

lemma errs_deferring: "errs P m \<Longrightarrow> errs P (deferring m c)"
  by (auto simp: errs_def deferring_def split: prod.splits)

lemmas errs_rules = errs_ret errs_throw errs_gets errs_modify errs_andThen errs_onErr errs_deferring

section \<open>Step relations\<close>

text \<open>The contract of an invariant of a step relation; of steps that make progress towards a goal; and of a
  step relation that refines another, where a step may change nothing the abstract side knows.\<close>

locale invariant =
  fixes step :: "'s \<Rightarrow> 's \<Rightarrow> bool"
    and inv :: "'s \<Rightarrow> bool"
  assumes step_inv: "step s s' \<Longrightarrow> inv s \<Longrightarrow> inv s'"
begin

lemma steps_inv: "step\<^sup>*\<^sup>* s s' \<Longrightarrow> inv s \<Longrightarrow> inv s'"
  by (induction rule: rtranclp_induct) (auto intro: step_inv)

end

locale progress = invariant +
  fixes goal :: "'s \<Rightarrow> bool"
    and work :: "'s \<Rightarrow> nat"
  assumes enabled: "inv s \<Longrightarrow> \<not> goal s \<Longrightarrow> \<exists>s'. step s s'"
    and work_less: "step s s' \<Longrightarrow> inv s \<Longrightarrow> work s' < work s"
begin

lemma reaches_goal: "inv s \<Longrightarrow> \<exists>s'. step\<^sup>*\<^sup>* s s' \<and> goal s'"
proof (induction "work s" arbitrary: s rule: less_induct)
  case less
  show ?case
  proof (cases "goal s")
    case False
    then obtain s1 where s1: "step s s1" using enabled less(2) by blast
    from less(1) [OF work_less [OF s1 less(2)] step_inv [OF s1 less(2)]] show ?thesis
      using s1 by (meson converse_rtranclp_into_rtranclp)
  qed blast
qed

lemma never_stuck: "step\<^sup>*\<^sup>* s s' \<Longrightarrow> inv s \<Longrightarrow> goal s' \<or> (\<exists>s''. step s' s'')"
  using steps_inv enabled by blast

lemma steps_bounded: "(step ^^ n) s s' \<Longrightarrow> inv s \<Longrightarrow> n \<le> work s"
proof -
  have "(step ^^ n) s s' \<Longrightarrow> inv s \<Longrightarrow> n + work s' \<le> work s"
  proof (induction n arbitrary: s')
    case (Suc n)
    from Suc.prems obtain s1 where s1: "(step ^^ n) s s1" "step s1 s'" by (auto elim: relcomppE)
    have "inv s1" by (rule steps_inv [OF relpowp_imp_rtranclp [OF s1(1)] Suc.prems(2)])
    with Suc.IH [OF s1(1) Suc.prems(2)] work_less [OF s1(2)] show ?case by fastforce
  qed simp
  then show "(step ^^ n) s s' \<Longrightarrow> inv s \<Longrightarrow> n \<le> work s" by simp
qed

end

locale simulation =
  fixes cstep :: "'c \<Rightarrow> 'c \<Rightarrow> bool"
    and astep :: "'a \<Rightarrow> 'a \<Rightarrow> bool"
    and abs :: "'c \<Rightarrow> 'a"
  assumes simulates: "cstep s s' \<Longrightarrow> astep\<^sup>=\<^sup>= (abs s) (abs s')"
begin

lemma simulates_steps: "cstep\<^sup>*\<^sup>* s s' \<Longrightarrow> astep\<^sup>*\<^sup>* (abs s) (abs s')"
  by (induction rule: rtranclp_induct) (auto dest: simulates)

end

section \<open>Encodings\<close>

text \<open>
  The contract between a printer and a parser that meet over a command line, a socket or a file:
  the parser reads back every well-formed value, and yields well-formed values only.
\<close>

locale codec =
  fixes enc :: "'a \<Rightarrow> 't"
    and dec :: "'t \<Rightarrow> 'e + 'a"
    and valid :: "'a \<Rightarrow> bool"
  assumes dec_enc: "valid x \<Longrightarrow> dec (enc x) = Inr x"
    and dec_valid: "dec t = Inr x \<Longrightarrow> valid x"
begin

lemma enc_eqD: "valid x \<Longrightarrow> valid y \<Longrightarrow> enc x = enc y \<Longrightarrow> x = y"
  by (metis dec_enc sum.inject(2))

lemma renormalise: "dec t = Inr x \<Longrightarrow> dec (enc x) = Inr x"
  by (rule dec_enc) (rule dec_valid)

lemma dec_image: "(\<exists>t. dec t = Inr x) \<longleftrightarrow> valid x"
  by (rule iffI) (elim exE, rule dec_valid, assumption, rule exI, rule dec_enc)

end

section \<open>Association lists as Go maps\<close>

lemma distinct_keys_update: "distinct (map fst m) \<Longrightarrow> distinct (map fst (AList.update k v m))"
  by (rule distinct_update)

lemma distinct_keys_delete: "distinct (map fst m) \<Longrightarrow> distinct (map fst (AList.delete k m))"
  by (rule distinct_delete)

lemma map_of_sort_key:
  assumes "distinct (map fst m)"
  shows "map_of (sort_key fst m) = map_of m"
proof (rule map_of_eqI)
  show "set (map fst (sort_key fst m)) = set (map fst m)" by simp
  show "\<forall>k \<in> set (map fst (sort_key fst m)). map_of (sort_key fst m) k = map_of m k"
  proof
    fix k assume "k \<in> set (map fst (sort_key fst m))"
    then obtain v where v: "(k, v) \<in> set m" by auto
    have "distinct (map fst (sort_key fst m))"
      using assms by (metis distinct_map distinct_sort set_sort)
    then have "map_of (sort_key fst m) k = Some v" using v by simp
    with v assms show "map_of (sort_key fst m) k = map_of m k" by simp
  qed
qed

lemma distinct_keys_sort_key: "distinct (map fst m) \<Longrightarrow> distinct (map fst (sort_key fst m))"
  by (metis distinct_map distinct_sort set_sort)

end
