(* ===== verification/Go_Error.thy ===== *)
theory Go_Error
  imports Prelude
begin

text \<open>
  Go error values. A Go error is a chain: \<open>fmt.Errorf("...: %w", err)\<close> wraps \<open>err\<close>, and
  \<open>errors.Is\<close> and \<open>errors.As\<close> search the chain. The launcher depends on the chain in two
  places: \<open>classifyDialErr\<close> reduces a dial error to a state, and \<open>main\<close> looks for the exit
  status of the guest command. The constructors are the error types of the standard library the
  launcher meets, with the text each prints.
\<close>

section \<open>Errors\<close>

datatype errno = ENOENT | EEXIST | EPERM | EACCES | EISDIR | ENOTDIR | ENOTEMPTY | ENOSPC | EIO
  | EINVAL | EFBIG | ESRCH | EAGAIN | EADDRINUSE | EADDRNOTAVAIL | ECONNREFUSED | EHOSTUNREACH
  | ENETUNREACH | ETIMEDOUT | EOther string

datatype num_error = ErrSyntax | ErrRange

datatype go_error =
    ErrorString string                \<comment> \<open>\<open>errors.New\<close>, \<open>fmt.Errorf\<close> without \<open>%w\<close>\<close>
  | Wrapped string go_error           \<comment> \<open>\<open>fmt.Errorf("prefix%w", err)\<close>\<close>
  | Errno errno                       \<comment> \<open>\<open>syscall.Errno\<close>\<close>
  | PathError string string errno     \<comment> \<open>\<open>*fs.PathError\<close>, \<open>*os.LinkError\<close>\<close>
  | SyscallError string errno         \<comment> \<open>\<open>*os.SyscallError\<close>\<close>
  | OpError string go_error           \<comment> \<open>\<open>*net.OpError\<close>\<close>
  | DNSError string bool              \<comment> \<open>\<open>*net.DNSError\<close> with its \<open>IsTimeout\<close>\<close>
  | DeadlineExceeded                  \<comment> \<open>\<open>context.DeadlineExceeded\<close>\<close>
  | Canceled                          \<comment> \<open>\<open>context.Canceled\<close>\<close>
  | IoTimeout                         \<comment> \<open>\<open>os.ErrDeadlineExceeded\<close>\<close>
  | NetErrClosed                      \<comment> \<open>\<open>net.ErrClosed\<close>\<close>
  | NumError string string num_error  \<comment> \<open>\<open>*strconv.NumError\<close>\<close>
  | ExitError int                     \<comment> \<open>\<open>*exec.ExitError\<close> with its \<open>ExitCode()\<close>\<close>
  | JsonError string                  \<comment> \<open>\<open>*json.SyntaxError\<close>, \<open>*json.UnmarshalTypeError\<close>\<close>
  | EndOfFile                         \<comment> \<open>\<open>io.EOF\<close>, \<open>io.ErrUnexpectedEOF\<close>\<close>

type_synonym 'a result = "go_error + 'a"

fun errno_text :: "errno \<Rightarrow> string" where
  "errno_text ENOENT = ''no such file or directory''"
| "errno_text EEXIST = ''file exists''"
| "errno_text EPERM = ''operation not permitted''"
| "errno_text EACCES = ''permission denied''"
| "errno_text EISDIR = ''is a directory''"
| "errno_text ENOTDIR = ''not a directory''"
| "errno_text ENOTEMPTY = ''directory not empty''"
| "errno_text ENOSPC = ''no space left on device''"
| "errno_text EIO = ''input/output error''"
| "errno_text EINVAL = ''invalid argument''"
| "errno_text EFBIG = ''file too large''"
| "errno_text ESRCH = ''no such process''"
| "errno_text EAGAIN = ''resource temporarily unavailable''"
| "errno_text EADDRINUSE = ''address already in use''"
| "errno_text EADDRNOTAVAIL = ''can't assign requested address''"
| "errno_text ECONNREFUSED = ''connection refused''"
| "errno_text EHOSTUNREACH = ''no route to host''"
| "errno_text ENETUNREACH = ''network is unreachable''"
| "errno_text ETIMEDOUT = ''operation timed out''"
| "errno_text (EOther s) = ''errno '' @ s"

fun num_error_text :: "num_error \<Rightarrow> string" where
  "num_error_text ErrSyntax = ''invalid syntax''"
| "num_error_text ErrRange = ''value out of range''"

section \<open>Chains\<close>

text \<open>The error itself and everything \<open>Unwrap\<close> reaches from it, outermost first.\<close>

primrec error_chain :: "go_error \<Rightarrow> go_error list" where
  "error_chain (ErrorString s) = [ErrorString s]"
| "error_chain (Wrapped s e) = Wrapped s e # error_chain e"
| "error_chain (Errno n) = [Errno n]"
| "error_chain (PathError op p n) = [PathError op p n, Errno n]"
| "error_chain (SyscallError c n) = [SyscallError c n, Errno n]"
| "error_chain (OpError op e) = OpError op e # error_chain e"
| "error_chain (DNSError s t) = [DNSError s t]"
| "error_chain DeadlineExceeded = [DeadlineExceeded]"
| "error_chain Canceled = [Canceled]"
| "error_chain IoTimeout = [IoTimeout]"
| "error_chain NetErrClosed = [NetErrClosed]"
| "error_chain (NumError f s k) = [NumError f s k, ErrorString (num_error_text k)]"
| "error_chain (ExitError c) = [ExitError c]"
| "error_chain (JsonError s) = [JsonError s]"
| "error_chain EndOfFile = [EndOfFile]"

definition errors_Is :: "go_error \<Rightarrow> go_error \<Rightarrow> bool" where
  "errors_Is e target \<longleftrightarrow> target \<in> set (error_chain e)"

text \<open>\<open>os.IsNotExist\<close> looks through \<open>*PathError\<close> and \<open>*LinkError\<close> only, not through \<open>%w\<close>.\<close>

fun os_IsNotExist :: "go_error \<Rightarrow> bool" where
  "os_IsNotExist (PathError op p n) = (n = ENOENT)"
| "os_IsNotExist (Errno n) = (n = ENOENT)"
| "os_IsNotExist (SyscallError c n) = (n = ENOENT)"
| "os_IsNotExist _ = False"

text \<open>\<open>Timeout()\<close> of a type that has the method; \<open>*net.OpError\<close> asks the error inside.\<close>

fun has_Timeout :: "go_error \<Rightarrow> bool" where
  "has_Timeout (Errno n) = (n = ETIMEDOUT \<or> n = EAGAIN)"
| "has_Timeout (PathError op p n) = (n = ETIMEDOUT \<or> n = EAGAIN)"
| "has_Timeout (SyscallError c n) = (n = ETIMEDOUT \<or> n = EAGAIN)"
| "has_Timeout (OpError op e) = has_Timeout e"
| "has_Timeout (DNSError s t) = t"
| "has_Timeout DeadlineExceeded = True"
| "has_Timeout IoTimeout = True"
| "has_Timeout _ = False"

text \<open>The types that implement \<open>net.Error\<close> (both \<open>Timeout()\<close> and \<open>Temporary()\<close>).\<close>

fun is_net_Error :: "go_error \<Rightarrow> bool" where
  "is_net_Error (Errno n) = True"
| "is_net_Error (OpError op e) = True"
| "is_net_Error (DNSError s t) = True"
| "is_net_Error DeadlineExceeded = True"
| "is_net_Error IoTimeout = True"
| "is_net_Error NetErrClosed = True"
| "is_net_Error _ = False"

text \<open>\<open>errors.As\<close> stores the first error of the chain that has the wanted type.\<close>

definition errors_As :: "(go_error \<Rightarrow> bool) \<Rightarrow> go_error \<Rightarrow> go_error option" where
  "errors_As is_type e = find is_type (error_chain e)"

fun is_ExitError :: "go_error \<Rightarrow> bool" where
  "is_ExitError (ExitError c) = True"
| "is_ExitError _ = False"

lemma error_chain_self [simp]: "e \<in> set (error_chain e)"
  by (cases e) simp_all

lemma errors_Is_refl [simp]: "errors_Is e e"
  by (simp add: errors_Is_def)

lemma errors_Is_Wrapped [simp]:
  "errors_Is (Wrapped s e) target \<longleftrightarrow> target = Wrapped s e \<or> errors_Is e target"
  by (simp add: errors_Is_def)

lemma errors_As_Wrapped [simp]:
  "\<not> is_type (Wrapped s e) \<Longrightarrow> errors_As is_type (Wrapped s e) = errors_As is_type e"
  by (simp add: errors_As_def)

end
