(* ===== verification/Go_Text.thy ===== *)
theory Go_Text
  imports Go_Error
begin

text \<open>
  Go strings are byte strings, here \<open>string = char list\<close> with one \<open>char\<close> per byte. This theory
  models the functions of \<open>strings\<close> and \<open>strconv\<close> the launcher uses, with the laws the parsers and
  printers of the other theories rest on: \<open>strconv.Atoi\<close> reads back what \<open>%d\<close> prints,
  \<open>strings.Split\<close> undoes \<open>strings.Join\<close>, \<open>strings.TrimSpace\<close> leaves text without surrounding
  white space alone.
\<close>

section \<open>Decimal numbers\<close>

definition is_digit :: "char \<Rightarrow> bool" where
  "is_digit c \<longleftrightarrow> (48 :: nat) \<le> of_char c \<and> of_char c \<le> (57 :: nat)"

definition digit_val :: "char \<Rightarrow> nat" where
  "digit_val c = of_char c - 48"

definition digit_char :: "nat \<Rightarrow> char" where
  "digit_char d = char_of (48 + d)"

fun nat_text :: "nat \<Rightarrow> string" where
  "nat_text n = (if n < 10 then [digit_char n] else nat_text (n div 10) @ [digit_char (n mod 10)])"

declare nat_text.simps [simp del]

text \<open>\<open>strconv.Itoa\<close>, \<open>fmt.Sprintf("%d", n)\<close>.\<close>

definition itoa :: "int \<Rightarrow> string" where
  "itoa n = (if n < 0 then CHR ''-'' # nat_text (nat (- n)) else nat_text (nat n))"

definition digits_val :: "string \<Rightarrow> nat" where
  "digits_val s = foldl (\<lambda>v c. 10 * v + digit_val c) 0 s"

definition int64_min :: int where "int64_min = - (2 ^ 63)"
definition int64_max :: int where "int64_max = 2 ^ 63 - 1"

fun split_sign :: "string \<Rightarrow> bool \<times> string" where
  "split_sign (c # s) = (if c = CHR ''-'' then (True, s) else if c = CHR ''+'' then (False, s)
     else (False, c # s))"
| "split_sign [] = (False, [])"

text \<open>\<open>strconv.ParseInt(s, 10, 64)\<close> and \<open>strconv.Atoi\<close> on a 64-bit platform.\<close>

definition parse_int :: "string \<Rightarrow> string \<Rightarrow> int result" where
  "parse_int fn s = (let (neg, ds) = split_sign s in
     if ds = [] \<or> \<not> list_all is_digit ds then Inl (NumError fn s ErrSyntax)
     else let v = int (digits_val ds); n = (if neg then - v else v) in
       if n < int64_min \<or> int64_max < n then Inl (NumError fn s ErrRange) else Inr n)"

definition atoi :: "string \<Rightarrow> int result" where
  "atoi s = parse_int ''Atoi'' s"

text \<open>\<open>strconv.ParseUint(s, 10, 64)\<close>: no sign is accepted.\<close>

definition parse_uint :: "string \<Rightarrow> nat result" where
  "parse_uint s = (if s = [] \<or> \<not> list_all is_digit s then Inl (NumError ''ParseUint'' s ErrSyntax)
     else if 2 ^ 64 \<le> digits_val s then Inl (NumError ''ParseUint'' s ErrRange)
     else Inr (digits_val s))"

lemma digit_char_simps [text_simps]:
  "digit_char 0 = CHR ''0''" "digit_char 1 = CHR ''1''" "digit_char 2 = CHR ''2''"
  "digit_char 3 = CHR ''3''" "digit_char 4 = CHR ''4''" "digit_char 5 = CHR ''5''"
  "digit_char 6 = CHR ''6''" "digit_char 7 = CHR ''7''" "digit_char 8 = CHR ''8''"
  "digit_char 9 = CHR ''9''" "digit_char (Suc 0) = CHR ''1''"
  by (simp_all add: digit_char_def char_of_def bit_0)

lemma of_char_digit_char: "d < 10 \<Longrightarrow> of_char (digit_char d) = 48 + d"
  by (simp add: digit_char_def)

lemma is_digit_digit_char [simp]: "d < 10 \<Longrightarrow> is_digit (digit_char d)"
  by (simp add: is_digit_def of_char_digit_char)

lemma digit_val_digit_char [simp]: "d < 10 \<Longrightarrow> digit_val (digit_char d) = d"
  by (simp add: digit_val_def of_char_digit_char)

lemma nat_text_digits: "list_all is_digit (nat_text n)"
  by (induction n rule: nat_text.induct) (subst nat_text.simps, simp)

lemma nat_text_nonempty [simp]: "nat_text n \<noteq> []"
  by (subst nat_text.simps) simp

lemma digits_val_append: "digits_val (s @ [c]) = 10 * digits_val s + digit_val c"
  by (simp add: digits_val_def)

lemma digits_val_nat_text [simp]: "digits_val (nat_text n) = n"
proof (induction n rule: nat_text.induct)
  case (1 n)
  show ?case
  proof (cases "n < 10")
    case True
    then show ?thesis by (subst nat_text.simps) (simp add: digits_val_def)
  next
    case False
    with 1 show ?thesis by (subst nat_text.simps) (simp add: digits_val_append)
  qed
qed

lemma is_digit_not_sign: "is_digit c \<Longrightarrow> c \<noteq> CHR ''-'' \<and> c \<noteq> CHR ''+''"
  by (auto simp: is_digit_def)

lemma split_sign_digits: "list_all is_digit s \<Longrightarrow> split_sign s = (False, s)"
  by (cases s) (auto dest: is_digit_not_sign)

lemma split_sign_itoa: "split_sign (itoa n) = (n < 0, nat_text (nat \<bar>n\<bar>))"
  by (auto simp: itoa_def split_sign_digits nat_text_digits)

declare nat_text.simps [text_simps] itoa_def [text_simps]

text \<open>Reading back what was printed.\<close>

lemma parse_int_itoa:
  "int64_min \<le> n \<Longrightarrow> n \<le> int64_max \<Longrightarrow> parse_int fn (itoa n) = Inr n"
  by (auto simp: parse_int_def Let_def split_sign_itoa nat_text_digits)

lemma atoi_itoa: "int64_min \<le> n \<Longrightarrow> n \<le> int64_max \<Longrightarrow> atoi (itoa n) = Inr n"
  by (simp add: atoi_def parse_int_itoa)

lemma atoi_range: "atoi s = Inr n \<Longrightarrow> int64_min \<le> n \<and> n \<le> int64_max"
  by (auto simp: atoi_def parse_int_def Let_def split: prod.splits if_splits)

lemma parse_uint_nat_text: "n < 2 ^ 64 \<Longrightarrow> parse_uint (nat_text n) = Inr n"
  by (simp add: parse_uint_def nat_text_digits)

lemma itoa_nonempty [simp]: "itoa n \<noteq> []"
  by (simp add: itoa_def)

lemma itoa_chars: "c \<in> set (itoa n) \<Longrightarrow> is_digit c \<or> c = CHR ''-''"
  using nat_text_digits by (auto simp: itoa_def list_all_iff split: if_splits)

section \<open>Splitting, joining, searching\<close>

text \<open>\<open>strings.Split(s, sep)\<close> for a one-byte separator.\<close>

fun split_on :: "char \<Rightarrow> string \<Rightarrow> string list" where
  "split_on d [] = [[]]"
| "split_on d (c # s) = (if c = d then [] # split_on d s
     else case split_on d s of [] \<Rightarrow> [[c]] | p # ps \<Rightarrow> (c # p) # ps)"

text \<open>\<open>strings.SplitN(s, sep, 2)\<close> for a one-byte separator.\<close>

fun split_at_first :: "char \<Rightarrow> string \<Rightarrow> string list" where
  "split_at_first d [] = [[]]"
| "split_at_first d (c # s) = (if c = d then [[], s]
     else case split_at_first d s of [] \<Rightarrow> [[c]] | p # ps \<Rightarrow> (c # p) # ps)"

text \<open>\<open>strings.Join(parts, sep)\<close>.\<close>

fun join :: "string \<Rightarrow> string list \<Rightarrow> string" where
  "join sep [] = []"
| "join sep [p] = p"
| "join sep (p # q # ps) = p @ sep @ join sep (q # ps)"

text \<open>\<open>strings.ReplaceAll(s, old, new)\<close> for a one-byte \<open>old\<close>.\<close>

definition replace_all :: "char \<Rightarrow> string \<Rightarrow> string \<Rightarrow> string" where
  "replace_all old new s = concat (map (\<lambda>c. if c = old then new else [c]) s)"

definition has_prefix :: "string \<Rightarrow> string \<Rightarrow> bool" where
  "has_prefix p s \<longleftrightarrow> take (length p) s = p"

text \<open>\<open>strings.Index(s, sub)\<close>, \<open>None\<close> for -1.\<close>

fun index_of :: "string \<Rightarrow> string \<Rightarrow> nat option" where
  "index_of sub [] = (if sub = [] then Some 0 else None)"
| "index_of sub (c # s) = (if has_prefix sub (c # s) then Some 0 else map_option Suc (index_of sub s))"

lemma split_on_nonempty [simp]: "split_on d s \<noteq> []"
  by (induction s) (auto split: list.splits)

lemma split_on_none: "d \<notin> set s \<Longrightarrow> split_on d s = [s]"
  by (induction s) auto

lemma split_on_append: "d \<notin> set p \<Longrightarrow> split_on d (p @ d # s) = p # split_on d s"
  by (induction p) auto

lemma split_on_join:
  "ps \<noteq> [] \<Longrightarrow> \<forall>p \<in> set ps. d \<notin> set p \<Longrightarrow> split_on d (join [d] ps) = ps"
  by (induction "[d]" ps rule: join.induct) (auto simp: split_on_none split_on_append)

lemma join_split_on: "join [d] (split_on d s) = s"
proof (induction s)
  case Nil
  then show ?case by simp
next
  case (Cons c s)
  obtain p ps where sp: "split_on d s = p # ps"
    using split_on_nonempty by (metis neq_Nil_conv)
  show ?case using Cons sp by (cases ps) auto
qed

lemma split_on_parts: "p \<in> set (split_on d s) \<Longrightarrow> d \<notin> set p"
  by (induction s arbitrary: p) (auto split: if_splits list.splits)

lemma split_on_length: "length (split_on d s) = Suc (count_list s d)"
  by (induction s) (auto split: list.split)

lemma has_prefix_iff: "has_prefix p s \<longleftrightarrow> (\<exists>t. s = p @ t)"
  unfolding has_prefix_def by (metis append_take_drop_id append_eq_conv_conj)

section \<open>White space\<close>

text \<open>
  \<open>strings.TrimSpace\<close> removes the code points of \<open>unicode.IsSpace\<close> from both ends. In a byte
  string these are the six ASCII characters and the UTF-8 encodings listed here.
\<close>

definition space_seqs :: "string list" where
  "space_seqs = [[CHR 0x09], [CHR 0x0A], [CHR 0x0B], [CHR 0x0C], [CHR 0x0D], [CHR 0x20],
     [CHR 0xC2, CHR 0x85], [CHR 0xC2, CHR 0xA0], [CHR 0xE1, CHR 0x9A, CHR 0x80],
     [CHR 0xE2, CHR 0x80, CHR 0x80], [CHR 0xE2, CHR 0x80, CHR 0x81],
     [CHR 0xE2, CHR 0x80, CHR 0x82], [CHR 0xE2, CHR 0x80, CHR 0x83],
     [CHR 0xE2, CHR 0x80, CHR 0x84], [CHR 0xE2, CHR 0x80, CHR 0x85],
     [CHR 0xE2, CHR 0x80, CHR 0x86], [CHR 0xE2, CHR 0x80, CHR 0x87],
     [CHR 0xE2, CHR 0x80, CHR 0x88], [CHR 0xE2, CHR 0x80, CHR 0x89],
     [CHR 0xE2, CHR 0x80, CHR 0x8A], [CHR 0xE2, CHR 0x80, CHR 0xA8],
     [CHR 0xE2, CHR 0x80, CHR 0xA9], [CHR 0xE2, CHR 0x80, CHR 0xAF],
     [CHR 0xE2, CHR 0x81, CHR 0x9F], [CHR 0xE3, CHR 0x80, CHR 0x80]]"

text \<open>Drop prefixes from the list of sequences as long as one matches.\<close>

function strip_seqs :: "string list \<Rightarrow> string \<Rightarrow> string" where
  "strip_seqs qs s = (case find (\<lambda>q. q \<noteq> [] \<and> has_prefix q s) qs of
     None \<Rightarrow> s | Some q \<Rightarrow> strip_seqs qs (drop (length q) s))"
  by pat_completeness auto
termination
proof (relation "measure (\<lambda>(qs, s). length s)")
  fix qs :: "string list" and s q :: string
  assume "find (\<lambda>q. q \<noteq> [] \<and> has_prefix q s) qs = Some q"
  then have "q \<noteq> []" and "has_prefix q s" by (auto simp: find_Some_iff)
  then show "((qs, drop (length q) s), (qs, s)) \<in> measure (\<lambda>(qs, s). length s)"
    by (auto simp: has_prefix_iff)
qed simp

declare strip_seqs.simps [simp del]

definition trim_space :: "string \<Rightarrow> string" where
  "trim_space s = (let t = strip_seqs space_seqs s in rev (strip_seqs (map rev space_seqs) (rev t)))"

text \<open>Bytes that begin or end no white space: every printable ASCII character.\<close>

definition is_graphic :: "char \<Rightarrow> bool" where
  "is_graphic c \<longleftrightarrow> (33 :: nat) \<le> of_char c \<and> of_char c \<le> (126 :: nat)"

lemma strip_seqs_graphic:
  assumes "is_graphic c" and "\<forall>q \<in> set qs. q \<noteq> [] \<longrightarrow> \<not> is_graphic (hd q)"
  shows "strip_seqs qs (c # s) = c # s"
proof -
  have "find (\<lambda>q. q \<noteq> [] \<and> has_prefix q (c # s)) qs = None"
    using assms by (auto simp: find_None_iff has_prefix_iff Cons_eq_append_conv)
  then show ?thesis by (subst strip_seqs.simps) simp
qed

lemma strip_seqs_Nil [simp]: "strip_seqs qs [] = []"
  by (subst strip_seqs.simps) (auto split: option.splits simp: find_Some_iff has_prefix_iff)

lemma space_seqs_hd: "\<forall>q \<in> set space_seqs. q \<noteq> [] \<longrightarrow> \<not> is_graphic (hd q)"
  by (simp add: space_seqs_def is_graphic_def)

lemma space_seqs_last: "\<forall>q \<in> set (map rev space_seqs). q \<noteq> [] \<longrightarrow> \<not> is_graphic (hd q)"
  by (simp add: space_seqs_def is_graphic_def)

lemma trim_space_graphic:
  assumes "s = [] \<or> is_graphic (hd s) \<and> is_graphic (last s)"
  shows "trim_space s = s"
proof (cases "s = []")
  case True
  then show ?thesis by (simp add: trim_space_def)
next
  case False
  with assms have h: "is_graphic (hd s)" and l: "is_graphic (last s)" by auto
  obtain c t where s: "s = c # t" using False by (cases s) auto
  have 1: "strip_seqs space_seqs s = s"
    using h strip_seqs_graphic [OF _ space_seqs_hd, of c t] by (simp add: s)
  obtain d u where r: "rev s = d # u" using False by (cases "rev s") auto
  then have "d = last s" using False by (metis hd_rev list.sel(1))
  then have 2: "strip_seqs (map rev space_seqs) (rev s) = rev s"
    using l strip_seqs_graphic [OF _ space_seqs_last, of d u] by (simp add: r)
  show ?thesis by (simp add: trim_space_def 1 2)
qed

lemma trim_space_all_graphic: "list_all is_graphic s \<Longrightarrow> trim_space s = s"
  by (rule trim_space_graphic) (auto simp: list_all_iff)

lemma is_digit_graphic: "is_digit c \<Longrightarrow> is_graphic c"
  by (simp add: is_digit_def is_graphic_def)

lemma is_graphic_minus: "is_graphic CHR ''-''"
  by (simp add: is_graphic_def)

lemma trim_space_itoa [simp]: "trim_space (itoa n) = itoa n"
  by (rule trim_space_all_graphic)
     (auto simp: list_all_iff dest!: itoa_chars intro: is_digit_graphic is_graphic_minus)

section \<open>Quoting and error text\<close>

definition hex_char :: "nat \<Rightarrow> char" where
  "hex_char d = (if d < 10 then char_of (48 + d) else char_of (87 + d))"

text \<open>
  \<open>strconv.Quote\<close>, \<open>%q\<close>. Exact on ASCII; a byte of 128 or more is written \<open>\xNN\<close>, as Go writes
  bytes that are no valid UTF-8 (Go keeps a printable code point as it is).
\<close>

definition quote_byte :: "char \<Rightarrow> string" where
  "quote_byte c = (let n = of_char c :: nat; bs = CHR 0x5C in
     if c = CHR 0x22 \<or> c = bs then [bs, c]
     else if n = 7 then [bs, CHR ''a''] else if n = 8 then [bs, CHR ''b'']
     else if n = 12 then [bs, CHR ''f''] else if n = 10 then [bs, CHR ''n'']
     else if n = 13 then [bs, CHR ''r''] else if n = 9 then [bs, CHR ''t'']
     else if n = 11 then [bs, CHR ''v'']
     else if 32 \<le> n \<and> n < 127 then [c]
     else [bs, CHR ''x'', hex_char (n div 16), hex_char (n mod 16)])"

definition go_quote :: "string \<Rightarrow> string" where
  "go_quote s = [CHR 0x22] @ concat (map quote_byte s) @ [CHR 0x22]"

text \<open>The text of \<open>err.Error()\<close>.\<close>

primrec error_text :: "go_error \<Rightarrow> string" where
  "error_text (ErrorString s) = s"
| "error_text (Wrapped s e) = s @ error_text e"
| "error_text (Errno n) = errno_text n"
| "error_text (PathError op p n) = op @ '' '' @ p @ '': '' @ errno_text n"
| "error_text (SyscallError c n) = c @ '': '' @ errno_text n"
| "error_text (OpError op e) = op @ '': '' @ error_text e"
| "error_text (DNSError s t) = ''lookup: '' @ s"
| "error_text DeadlineExceeded = ''context deadline exceeded''"
| "error_text Canceled = ''context canceled''"
| "error_text IoTimeout = ''i/o timeout''"
| "error_text NetErrClosed = ''use of closed network connection''"
| "error_text (NumError fn s k) = ''strconv.'' @ fn @ '': parsing '' @ go_quote s @ '': '' @ num_error_text k"
| "error_text (ExitError c) = ''exit status '' @ itoa c"
| "error_text (JsonError s) = ''json: '' @ s"
| "error_text EndOfFile = ''EOF''"

text \<open>Every error but an empty \<open>errors.New("")\<close> prints as a non-empty text.\<close>

fun has_text :: "go_error \<Rightarrow> bool" where
  "has_text (ErrorString s) = (s \<noteq> [])"
| "has_text (Wrapped s e) = (s \<noteq> [] \<or> has_text e)"
| "has_text _ = True"

lemma errno_text_nonempty [simp]: "errno_text n \<noteq> []"
  by (cases n) simp_all

lemma error_text_nonempty: "has_text e \<Longrightarrow> error_text e \<noteq> []"
  by (induction e) auto

end
