(* ===== verification/Os.thy ===== *)
theory Os
  imports Go_Text
begin

text \<open>
  The operating system as the launcher sees it: files below the working directory, TCP listeners,
  and the calls of \<open>os\<close> and \<open>net\<close> that change them. Every call may fail: \<open>faults\<close> says for each
  call, by its number, whether the system fails it, with which errno, and how many bytes a failing
  write leaves behind. The theorems quantify over the world, and so over every pattern of failures.
  \<open>history\<close> is a ghost: the file system after each call, newest first, which is what a
  concurrent reader can observe. Paths are cleaned paths relative to the working directory;
  symbolic links, and removing directories, are outside the model.
\<close>

section \<open>The world\<close>

type_synonym path = string

text \<open>A regular file holds its bytes up to the last one written; the rest, up to its size, are
  zeros (a sparse file).\<close>

datatype node = Dir | File string int nat

type_synonym file_map = "path \<Rightarrow> node option"

record world =
  files :: file_map
  faults :: "nat \<Rightarrow> (errno \<times> nat) option"
  rands :: "nat \<Rightarrow> nat \<Rightarrow> nat"
  ephemeral :: "nat \<Rightarrow> int"
  busy :: "string \<Rightarrow> int \<Rightarrow> bool"
  listeners :: "(string \<times> int) list"
  tick :: nat
  history :: "file_map list"

type_synonym ('z, 'a) os = "('z world_scheme, go_error, 'a) prog"

definition text_file :: "string \<Rightarrow> nat \<Rightarrow> node" where
  "text_file data mode = File data (int (length data)) mode"

definition file_content :: "string \<Rightarrow> int \<Rightarrow> string" where
  "file_content data sz = take (nat sz) data @ replicate (nat sz - length data) CHR 0x00"

lemma file_content_text [simp]: "file_content data (int (length data)) = data"
  by (simp add: file_content_def)

text \<open>End of a call: it is counted, and its effect becomes visible.\<close>

definition called :: "'z world_scheme \<Rightarrow> 'z world_scheme" where
  "called w = w\<lparr>tick := Suc (tick w), history := files w # history w\<rparr>"

definition put :: "path \<Rightarrow> node option \<Rightarrow> 'z world_scheme \<Rightarrow> 'z world_scheme" where
  "put p n w = w\<lparr>files := (files w)(p := n)\<rparr>"

section \<open>Paths\<close>

text \<open>\<open>filepath.Dir\<close> of a cleaned path.\<close>

definition path_dir :: "path \<Rightarrow> path" where
  "path_dir p = (case rev (split_on CHR ''/'' p) of
     [] \<Rightarrow> ''.'' | [_] \<Rightarrow> ''.'' | _ # ds \<Rightarrow> if ds = [[]] then ''/'' else join ''/'' (rev ds))"

definition dir_exists :: "'z world_scheme \<Rightarrow> path \<Rightarrow> bool" where
  "dir_exists w d \<longleftrightarrow> d = ''.'' \<or> d = ''/'' \<or> files w d = Some Dir"

section \<open>Files\<close>

definition os_ReadFile :: "path \<Rightarrow> ('z, string) os" where
  "os_ReadFile p = (\<lambda>w. (case faults w (tick w) of
       Some (e, _) \<Rightarrow> Inl (PathError ''open'' p e)
     | None \<Rightarrow> (case files w p of
         None \<Rightarrow> Inl (PathError ''open'' p ENOENT)
       | Some Dir \<Rightarrow> Inl (PathError ''read'' p EISDIR)
       | Some (File data sz mode) \<Rightarrow> Inr (file_content data sz)), called w))"

definition os_Stat :: "path \<Rightarrow> ('z, node) os" where
  "os_Stat p = (\<lambda>w. (case faults w (tick w) of
       Some (e, _) \<Rightarrow> Inl (PathError ''stat'' p e)
     | None \<Rightarrow> (case files w p of
         None \<Rightarrow> Inl (PathError ''stat'' p ENOENT) | Some n \<Rightarrow> Inr n), called w))"

definition os_Remove :: "path \<Rightarrow> ('z, unit) os" where
  "os_Remove p = (\<lambda>w. case faults w (tick w) of
     Some (e, _) \<Rightarrow> (Inl (PathError ''remove'' p e), called w)
   | None \<Rightarrow> (case files w p of
       None \<Rightarrow> (Inl (PathError ''remove'' p ENOENT), called w)
     | Some Dir \<Rightarrow> (Inl (PathError ''remove'' p ENOTEMPTY), called w)
     | Some (File data sz mode) \<Rightarrow> (Inr (), called (put p None w))))"

definition os_Rename :: "path \<Rightarrow> path \<Rightarrow> ('z, unit) os" where
  "os_Rename a b = (\<lambda>w. let err = \<lambda>e. PathError ''rename'' (a @ '' '' @ b) e in
     case faults w (tick w) of
       Some (e, _) \<Rightarrow> (Inl (err e), called w)
     | None \<Rightarrow> (case files w a of
         None \<Rightarrow> (Inl (err ENOENT), called w)
       | Some n \<Rightarrow> if files w b = Some Dir then (Inl (err EEXIST), called w)
           else (Inr (), called (put b (Some n) (put a None w)))))"

text \<open>\<open>os.OpenFile(p, O_WRONLY|O_CREATE|O_TRUNC, mode)\<close>; the mode of an existing file stays.\<close>

definition os_open_trunc :: "path \<Rightarrow> nat \<Rightarrow> ('z, unit) os" where
  "os_open_trunc p mode = (\<lambda>w. case faults w (tick w) of
     Some (e, _) \<Rightarrow> (Inl (PathError ''open'' p e), called w)
   | None \<Rightarrow> (case files w p of
       Some Dir \<Rightarrow> (Inl (PathError ''open'' p EISDIR), called w)
     | Some (File data sz m) \<Rightarrow> (Inr (), called (put p (Some (File [] 0 m)) w))
     | None \<Rightarrow> if dir_exists w (path_dir p)
         then (Inr (), called (put p (Some (File [] 0 mode)) w))
         else (Inl (PathError ''open'' p ENOENT), called w)))"

text \<open>\<open>file.Write(data)\<close> on a file just created or truncated: a failing write leaves a prefix.\<close>

definition file_Write :: "path \<Rightarrow> string \<Rightarrow> ('z, unit) os" where
  "file_Write p data = (\<lambda>w. case files w p of
     Some (File d s mode) \<Rightarrow> (case faults w (tick w) of
         Some (e, k) \<Rightarrow> (Inl (PathError ''write'' p e), called (put p (Some (text_file (take k data) mode)) w))
       | None \<Rightarrow> (Inr (), called (put p (Some (text_file data mode)) w)))
   | _ \<Rightarrow> (case faults w (tick w) of
         Some (e, k) \<Rightarrow> (Inl (PathError ''write'' p e), called w) | None \<Rightarrow> (Inr (), called w)))"

definition file_Chmod :: "path \<Rightarrow> nat \<Rightarrow> ('z, unit) os" where
  "file_Chmod p mode = (\<lambda>w. case faults w (tick w) of
     Some (e, _) \<Rightarrow> (Inl (PathError ''chmod'' p e), called w)
   | None \<Rightarrow> (case files w p of
       Some (File data sz m) \<Rightarrow> (Inr (), called (put p (Some (File data sz mode)) w))
     | _ \<Rightarrow> (Inr (), called w)))"

definition file_Close :: "path \<Rightarrow> ('z, unit) os" where
  "file_Close p = (\<lambda>w. (case faults w (tick w) of
     Some (e, _) \<Rightarrow> Inl (PathError ''close'' p e) | None \<Rightarrow> Inr (), called w))"

text \<open>\<open>file.Truncate(sz)\<close> cuts the file or extends it with zeros; a negative size is refused.\<close>

definition file_Truncate :: "path \<Rightarrow> int \<Rightarrow> ('z, unit) os" where
  "file_Truncate p sz = (\<lambda>w. case faults w (tick w) of
     Some (e, _) \<Rightarrow> (Inl (PathError ''truncate'' p e), called w)
   | None \<Rightarrow> if sz < 0 then (Inl (PathError ''truncate'' p EINVAL), called w)
       else (case files w p of
         Some (File data s mode) \<Rightarrow>
           (Inr (), called (put p (Some (File (take (nat sz) data) sz mode)) w))
       | _ \<Rightarrow> (Inr (), called w)))"

text \<open>\<open>os.OpenFile(p, O_WRONLY, ...)\<close>: an existing file, unchanged.\<close>

definition os_open_existing :: "path \<Rightarrow> ('z, unit) os" where
  "os_open_existing p = (\<lambda>w. (case faults w (tick w) of
       Some (e, _) \<Rightarrow> Inl (PathError ''open'' p e)
     | None \<Rightarrow> (case files w p of
         None \<Rightarrow> Inl (PathError ''open'' p ENOENT)
       | Some Dir \<Rightarrow> Inl (PathError ''open'' p EISDIR)
       | Some (File data sz mode) \<Rightarrow> Inr ()), called w))"

text \<open>\<open>os.WriteFile\<close>: open, write, close; the close error counts only after a good write.\<close>

definition os_WriteFile :: "path \<Rightarrow> string \<Rightarrow> nat \<Rightarrow> ('z, unit) os" where
  "os_WriteFile p data mode =
     andThen (os_open_trunc p mode) (\<lambda>_.
       attempt (file_Write p data) (\<lambda>r.
         attempt (file_Close p) (\<lambda>r1.
           lift (case r of Inl e \<Rightarrow> Inl e | Inr _ \<Rightarrow> r1))))"

text \<open>\<open>os.CreateTemp(".", prefix + "*")\<close>: a random suffix, tried again while the name exists, up to
  10000 times; the file is new, empty and private.\<close>

fun temp_name :: "'z world_scheme \<Rightarrow> string \<Rightarrow> nat \<Rightarrow> nat \<Rightarrow> path option" where
  "temp_name w prefix k n =
     (if n = 0 then None
      else let name = prefix @ nat_text (rands w (tick w) k) in
        if files w name = None then Some name else temp_name w prefix (Suc k) (n - 1))"

declare temp_name.simps [simp del]

definition os_CreateTemp :: "string \<Rightarrow> ('z, path) os" where
  "os_CreateTemp prefix = (\<lambda>w. case faults w (tick w) of
     Some (e, _) \<Rightarrow> (Inl (PathError ''open'' (prefix @ nat_text (rands w (tick w) 0)) e), called w)
   | None \<Rightarrow> (case temp_name w prefix 0 10000 of
       None \<Rightarrow> (Inl (PathError ''createtemp'' prefix EEXIST), called w)
     | Some name \<Rightarrow> (Inr name, called (put name (Some (File [] 0 384)) w))))"

section \<open>Listeners\<close>

text \<open>
  \<open>net.Listen\<close> on an address and a port; port 0 takes a free port the system picks. The port is
  returned. A requested port that this process or another one holds is refused.
\<close>

definition listen_error :: "string \<Rightarrow> string \<Rightarrow> errno \<Rightarrow> go_error" where
  "listen_error addr call e = OpError (''listen tcp '' @ addr) (SyscallError call e)"

definition port_free :: "'z world_scheme \<Rightarrow> string \<Rightarrow> int \<Rightarrow> bool" where
  "port_free w ip port \<longleftrightarrow> \<not> busy w ip port \<and> (ip, port) \<notin> set (listeners w)"

definition net_Listen :: "string \<Rightarrow> string \<Rightarrow> int \<Rightarrow> ('z, int) os" where
  "net_Listen addr ip port = (\<lambda>w. case faults w (tick w) of
     Some (e, _) \<Rightarrow> (Inl (listen_error addr ''listen'' e), called w)
   | None \<Rightarrow>
       let p = (if port = 0 then ephemeral w (tick w) else port) in
       if port = 0 \<and> (p < 1 \<or> 65535 < p \<or> \<not> port_free w ip p)
       then (Inl (listen_error addr ''bind'' EADDRNOTAVAIL), called w)
       else if \<not> port_free w ip p then (Inl (listen_error addr ''bind'' EADDRINUSE), called w)
       else (Inr p, called (w\<lparr>listeners := (ip, p) # listeners w\<rparr>)))"

text \<open>\<open>listener.Close()\<close> releases the port even when it reports an error.\<close>

definition net_CloseListener :: "string \<Rightarrow> int \<Rightarrow> ('z, unit) os" where
  "net_CloseListener ip port = (\<lambda>w. (case faults w (tick w) of
     Some (e, _) \<Rightarrow> Inl (OpError ''close tcp'' (SyscallError ''close'' e)) | None \<Rightarrow> Inr (),
     called (w\<lparr>listeners := removeAll (ip, port) (listeners w)\<rparr>)))"

section \<open>What the calls leave alone\<close>

lemma called_simps [simp]:
  "files (called w) = files w" "faults (called w) = faults w" "busy (called w) = busy w"
  "listeners (called w) = listeners w" "world.more (called w) = world.more w"
  "history (called w) = files w # history w" "tick (called w) = Suc (tick w)"
  "rands (called w) = rands w" "ephemeral (called w) = ephemeral w"
  by (simp_all add: called_def)

lemma put_simps [simp]:
  "files (put p n w) = (files w)(p := n)" "faults (put p n w) = faults w"
  "busy (put p n w) = busy w" "listeners (put p n w) = listeners w"
  "world.more (put p n w) = world.more w" "history (put p n w) = history w"
  "tick (put p n w) = tick w" "rands (put p n w) = rands w" "ephemeral (put p n w) = ephemeral w"
  by (simp_all add: put_def)

lemmas os_defs = os_ReadFile_def os_Stat_def os_Remove_def os_Rename_def os_open_trunc_def
  file_Write_def file_Chmod_def file_Close_def file_Truncate_def os_open_existing_def
  os_CreateTemp_def net_Listen_def net_CloseListener_def

text \<open>\<open>untouched A\<close>: no listener and no file outside \<open>A\<close> changes, nor does the rest of the
  process state.\<close>

definition untouched :: "path set \<Rightarrow> 'z world_scheme \<Rightarrow> 'z world_scheme \<Rightarrow> bool" where
  "untouched A w w' \<longleftrightarrow> listeners w' = listeners w \<and> world.more w' = world.more w \<and>
     busy w' = busy w \<and> (\<forall>p. p \<notin> A \<longrightarrow> files w' p = files w p) \<and>
     (\<exists>h. history w' = h @ history w \<and> (\<forall>f \<in> set h. \<forall>p. p \<notin> A \<longrightarrow> f p = files w p))"

interpretation untouched: world_relation "untouched A"
proof
  show "untouched A w w" for w :: "'z world_scheme" by (simp add: untouched_def)
next
  fix w w' w'' :: "'z world_scheme"
  assume 1: "untouched A w w'" and 2: "untouched A w' w''"
  then obtain h h' where "history w' = h @ history w" "history w'' = h' @ history w'"
    and "\<forall>f \<in> set h. \<forall>p. p \<notin> A \<longrightarrow> f p = files w p"
    and "\<forall>f \<in> set h'. \<forall>p. p \<notin> A \<longrightarrow> f p = files w' p"
    by (auto simp: untouched_def)
  with 1 2 show "untouched A w w''"
    by (auto simp: untouched_def intro!: exI [of _ "h' @ h"])
qed

lemma untouchedI:
  assumes "listeners w' = listeners w" "world.more w' = world.more w" "busy w' = busy w"
    and "\<And>p. p \<notin> A \<Longrightarrow> files w' p = files w p" and "history w' = h @ history w"
    and "\<And>f p. f \<in> set h \<Longrightarrow> p \<notin> A \<Longrightarrow> f p = files w p"
  shows "untouched A w w'"
  unfolding untouched_def using assms by blast

lemma untouched_mono:
  assumes "untouched A w w'" and "A \<subseteq> B"
  shows "untouched B w w'"
proof -
  from assms(1) obtain h where h: "history w' = h @ history w" "\<forall>f \<in> set h. \<forall>p. p \<notin> A \<longrightarrow> f p = files w p"
    by (auto simp: untouched_def)
  show ?thesis
    by (rule untouchedI [OF _ _ _ _ h(1)]) (use assms h(2) in \<open>auto simp: untouched_def subset_eq\<close>)
qed

lemma keeps_called:
  assumes "\<And>w. \<exists>w1 r. m w = (r, called w1) \<and> listeners w1 = listeners w \<and>
     world.more w1 = world.more w \<and> busy w1 = busy w \<and> history w1 = history w \<and>
     (\<forall>p. p \<notin> A \<longrightarrow> files w1 p = files w p)"
  shows "keeps (untouched A) m"
proof -
  have "untouched A w (snd (m w))" for w
  proof -
    obtain w1 r where "m w = (r, called w1)" and 1: "listeners w1 = listeners w"
      "world.more w1 = world.more w" "busy w1 = busy w" "history w1 = history w"
      "\<forall>p. p \<notin> A \<longrightarrow> files w1 p = files w p"
      using assms [of w] by blast
    then show ?thesis by (intro untouchedI [where h = "[files w1]"]) auto
  qed
  then show ?thesis by (simp add: keeps_def)
qed

lemma untouched_reads [keeps_intros]:
  "keeps (untouched A) (os_ReadFile p)" "keeps (untouched A) (os_Stat p)"
  "keeps (untouched A) (file_Close p)" "keeps (untouched A) (os_open_existing p)"
  by (rule keeps_called; auto simp: os_defs)+

lemma untouched_writes [keeps_intros]:
  assumes "p \<in> A"
  shows "keeps (untouched A) (os_Remove p)" "keeps (untouched A) (os_open_trunc p mode)"
    "keeps (untouched A) (file_Write p data)" "keeps (untouched A) (file_Chmod p mode)"
    "keeps (untouched A) (file_Truncate p sz)"
  by (rule keeps_called; insert assms; force simp: os_defs split: option.split node.split)+

lemma untouched_Rename [keeps_intros]:
  "p \<in> A \<Longrightarrow> q \<in> A \<Longrightarrow> keeps (untouched A) (os_Rename p q)"
  by (rule keeps_called) (force simp: os_defs Let_def split: option.split)

lemma untouched_WriteFile [keeps_intros]: "p \<in> A \<Longrightarrow> keeps (untouched A) (os_WriteFile p data mode)"
  unfolding os_WriteFile_def by (intro untouched.keeps_rules keeps_intros)

lemma temp_name_Some:
  "temp_name w prefix k n = Some name \<Longrightarrow> has_prefix prefix name \<and> files w name = None"
  by (induction w prefix k n rule: temp_name.induct)
     (subst (asm) (2) temp_name.simps, auto simp: Let_def has_prefix_iff split: if_splits)

text \<open>The pattern of failures is given once and for all: no call changes it.\<close>

definition same_faults :: "'z world_scheme \<Rightarrow> 'z world_scheme \<Rightarrow> bool" where
  "same_faults w w' \<longleftrightarrow> faults w' = faults w"

interpretation same_faults: world_relation same_faults
  by unfold_locales (auto simp: same_faults_def)

lemma faults_put [simp]: "faults (put p n w) = faults w"
  by (simp add: put_def)

lemma same_faults_calls [keeps_intros]:
  "keeps same_faults (os_ReadFile p)" "keeps same_faults (os_Stat p)" "keeps same_faults (file_Close p)"
  "keeps same_faults (os_open_existing p)" "keeps same_faults (os_Remove p)"
  "keeps same_faults (os_open_trunc p mode)" "keeps same_faults (file_Write p data)"
  "keeps same_faults (file_Chmod p mode)" "keeps same_faults (file_Truncate p sz)"
  "keeps same_faults (os_Rename p q)" "keeps same_faults (os_CreateTemp prefix)"
  "keeps same_faults (net_Listen addr ip port)" "keeps same_faults (net_CloseListener ip port)"
  by (auto simp: keeps_def same_faults_def os_defs Let_def split: option.split node.split)

lemma same_faults_WriteFile [keeps_intros]: "keeps same_faults (os_WriteFile p data mode)"
  unfolding os_WriteFile_def by (intro same_faults.keeps_rules keeps_intros)

end
