(* ===== verification/Json.thy ===== *)
theory Json
  imports Go_Text
begin

text \<open>
  The part of \<open>encoding/json\<close> the launcher uses for \<open>vm-state.json\<close>, \<open>vm-config.json\<close>,
  \<open>vm-runtime.json\<close>, the degraded-start marker, the init output and the control socket: values,
  the compact and the indented printer, and a parser. As in Go, the parser is a scanner that feeds
  a stack machine, so it runs by recursion on the text and needs no fuel; a number keeps its
  literal, as in a \<open>json.RawMessage\<close>. The main lemma says that the parser reads back both printed
  forms. Bytes of 128 and more are copied, and Go's nesting limit of 10000 is not modelled.
\<close>

section \<open>Values and tokens\<close>

datatype json = JNull | JBool bool | JNum string | JStr string | JArr "json list"
  | JObj "(string \<times> json) list"

datatype token = TLBrace | TRBrace | TLBrack | TRBrack | TColon | TComma
  | TStr string | TNum string | TNull | TBool bool | TBad

section \<open>Strings\<close>

definition json_escape_byte :: "char \<Rightarrow> string" where
  "json_escape_byte c = (let n = of_char c :: nat; bs = CHR 0x5C in
     if c = CHR 0x22 \<or> c = bs then [bs, c]
     else if c = CHR 0x08 then [bs, CHR ''b''] else if c = CHR 0x0C then [bs, CHR ''f'']
     else if c = CHR 0x0A then [bs, CHR ''n''] else if c = CHR 0x0D then [bs, CHR ''r'']
     else if c = CHR 0x09 then [bs, CHR ''t'']
     else if n < 32 \<or> c = CHR ''<'' \<or> c = CHR ''>'' \<or> c = CHR ''&''
     then [bs, CHR ''u'', CHR ''0'', CHR ''0'', hex_char (n div 16), hex_char (n mod 16)]
     else [c])"

definition json_escape :: "string \<Rightarrow> string" where
  "json_escape s = concat (map json_escape_byte s)"

definition hex_val :: "char \<Rightarrow> nat option" where
  "hex_val c = (let n = of_char c :: nat in
     if 48 \<le> n \<and> n \<le> 57 then Some (n - 48)
     else if 97 \<le> n \<and> n \<le> 102 then Some (n - 87)
     else if 65 \<le> n \<and> n \<le> 70 then Some (n - 55) else None)"

definition hex4 :: "char \<Rightarrow> char \<Rightarrow> char \<Rightarrow> char \<Rightarrow> nat option" where
  "hex4 a b c d = (case (hex_val a, hex_val b, hex_val c, hex_val d) of
     (Some w, Some x, Some y, Some z) \<Rightarrow> Some (4096 * w + 256 * x + 16 * y + z) | _ \<Rightarrow> None)"

definition utf8 :: "nat \<Rightarrow> string" where
  "utf8 v = (if v < 128 then [char_of v]
     else if v < 2048 then [char_of (192 + v div 64), char_of (128 + v mod 64)]
     else if v < 65536
     then [char_of (224 + v div 4096), char_of (128 + v div 64 mod 64), char_of (128 + v mod 64)]
     else [char_of (240 + v div 262144), char_of (128 + v div 4096 mod 64),
           char_of (128 + v div 64 mod 64), char_of (128 + v mod 64)])"

text \<open>A leading surrogate joins the trailing surrogate that follows; a lone one is U+FFFD.\<close>

fun trailing_surrogate :: "string \<Rightarrow> nat option" where
  "trailing_surrogate (e # u # a # b # c # d # s) =
     (if e = CHR 0x5C \<and> u = CHR ''u'' then
        (case hex4 a b c d of
           Some v \<Rightarrow> if 56320 \<le> v \<and> v < 57344 then Some v else None | None \<Rightarrow> None)
      else None)"
| "trailing_surrogate _ = None"

definition simple_escape :: "char \<Rightarrow> char option" where
  "simple_escape e = (if e = CHR 0x22 \<or> e = CHR 0x5C \<or> e = CHR ''/'' then Some e
     else if e = CHR ''b'' then Some CHR 0x08 else if e = CHR ''f'' then Some CHR 0x0C
     else if e = CHR ''n'' then Some CHR 0x0A else if e = CHR ''r'' then Some CHR 0x0D
     else if e = CHR ''t'' then Some CHR 0x09 else None)"

function unquote :: "string \<Rightarrow> string option" where
  "unquote [] = Some []"
| "unquote (c # s) =
     (if c \<noteq> CHR 0x5C then map_option ((#) c) (unquote s)
      else case s of
        [] \<Rightarrow> None
      | e # s1 \<Rightarrow>
          if e = CHR ''u'' then
            (case s1 of
               a # b # c # d # t \<Rightarrow>
                 (case hex4 a b c d of
                    None \<Rightarrow> None
                  | Some v \<Rightarrow>
                      if 55296 \<le> v \<and> v < 57344 then
                        (case (if v < 56320 then trailing_surrogate t else None) of
                           Some v1 \<Rightarrow> map_option ((@) (utf8 ((v - 55296) * 1024 + (v1 - 56320) + 65536)))
                                       (unquote (drop 6 t))
                         | None \<Rightarrow> map_option ((@) (utf8 65533)) (unquote t))
                      else map_option ((@) (utf8 v)) (unquote t))
             | _ \<Rightarrow> None)
          else (case simple_escape e of
                  None \<Rightarrow> None
                | Some x \<Rightarrow> map_option ((#) x) (unquote s1)))"
  by pat_completeness auto
termination by (relation "measure length") auto

lemma hex_val_hex_char: "d < 16 \<Longrightarrow> hex_val (hex_char d) = Some d"
  by (auto simp: hex_val_def hex_char_def Let_def)

lemma hex4_byte:
  "n < 256 \<Longrightarrow> hex4 CHR ''0'' CHR ''0'' (hex_char (n div 16)) (hex_char (n mod 16)) = Some n"
  by (simp add: hex4_def hex_val_hex_char less_mult_imp_div_less)
     (simp add: hex_val_def)

lemma utf8_ascii: "(of_char c :: nat) < 128 \<Longrightarrow> utf8 (of_char c) = [c]"
  by (simp add: utf8_def)

lemma unquote_plain: "c \<noteq> CHR 0x5C \<Longrightarrow> unquote (c # t) = map_option ((#) c) (unquote t)"
  by simp

lemma unquote_simple:
  "e \<noteq> CHR ''u'' \<Longrightarrow> simple_escape e = Some x \<Longrightarrow>
     unquote (CHR 0x5C # e # t) = map_option ((#) x) (unquote t)"
  by simp

lemma unquote_unicode:
  assumes "(of_char c :: nat) < 128"
  shows "unquote (CHR 0x5C # CHR ''u'' # CHR ''0'' # CHR ''0'' # hex_char (of_char c div 16) #
     hex_char (of_char c mod 16) # t) = map_option ((#) c) (unquote t)"
  using assms hex4_byte [of "of_char c"] utf8_ascii [OF assms] by (cases "unquote t") simp_all

declare unquote.simps [simp del]

lemma unquote_Nil [simp]: "unquote [] = Some []"
  by (simp add: unquote.simps)

lemma unquote_escape_byte: "unquote (json_escape_byte c @ t) = map_option ((#) c) (unquote t)"
proof -
  consider (same) "c = CHR 0x22 \<or> c = CHR 0x5C"
    | (short) "c \<in> {CHR 0x08, CHR 0x0C, CHR 0x0A, CHR 0x0D, CHR 0x09}"
    | (other) "c \<noteq> CHR 0x22" "c \<noteq> CHR 0x5C" "c \<notin> {CHR 0x08, CHR 0x0C, CHR 0x0A, CHR 0x0D, CHR 0x09}"
    by blast
  then show ?thesis
  proof cases
    case same
    then show ?thesis
      by (auto simp: json_escape_byte_def Let_def unquote_simple simple_escape_def)
  next
    case short
    then show ?thesis
      by (auto simp: json_escape_byte_def Let_def unquote_simple simple_escape_def)
  next
    case other
    show ?thesis
    proof (cases "(of_char c :: nat) < 32 \<or> c = CHR ''<'' \<or> c = CHR ''>'' \<or> c = CHR ''&''")
      case True
      then have "(of_char c :: nat) < 128" by auto
      with True other show ?thesis
        unfolding json_escape_byte_def Let_def by (simp add: unquote_unicode)
    next
      case False
      with other show ?thesis
        unfolding json_escape_byte_def Let_def by (simp add: unquote_plain)
    qed
  qed
qed

lemma unquote_json_escape: "unquote (json_escape s) = Some s"
  by (induction s) (simp_all add: json_escape_def unquote_escape_byte)

section \<open>The scanner\<close>

datatype lexer = LStart | LStr string | LEsc string | LNum string | LWord string

definition is_ws :: "char \<Rightarrow> bool" where
  "is_ws c \<longleftrightarrow> c = CHR 0x20 \<or> c = CHR 0x09 \<or> c = CHR 0x0A \<or> c = CHR 0x0D"

definition is_lower :: "char \<Rightarrow> bool" where
  "is_lower c \<longleftrightarrow> (97 :: nat) \<le> of_char c \<and> of_char c \<le> (122 :: nat)"

definition is_num_char :: "char \<Rightarrow> bool" where
  "is_num_char c \<longleftrightarrow> is_digit c \<or> c = CHR ''-'' \<or> c = CHR ''+'' \<or> c = CHR ''.'' \<or>
     c = CHR ''e'' \<or> c = CHR ''E''"

text \<open>\<open>-?(0|[1-9][0-9]*)(\.[0-9]+)?([eE][+-]?[0-9]+)?\<close>\<close>

definition drop_exp :: "string \<Rightarrow> bool" where
  "drop_exp s = (case s of [] \<Rightarrow> True
     | e # t \<Rightarrow> (e = CHR ''e'' \<or> e = CHR ''E'') \<and>
         (let ds = (case t of [] \<Rightarrow> [] | c # u \<Rightarrow> if c = CHR ''+'' \<or> c = CHR ''-'' then u else t)
          in ds \<noteq> [] \<and> list_all is_digit ds))"

definition drop_frac :: "string \<Rightarrow> bool" where
  "drop_frac s = (case s of c # t \<Rightarrow>
       if c = CHR ''.'' then takeWhile is_digit t \<noteq> [] \<and> drop_exp (dropWhile is_digit t)
       else drop_exp s
     | [] \<Rightarrow> True)"

definition is_number :: "string \<Rightarrow> bool" where
  "is_number s = (let u = (case s of [] \<Rightarrow> [] | c # t \<Rightarrow> if c = CHR ''-'' then t else s) in
     case u of [] \<Rightarrow> False
     | c # t \<Rightarrow> if c = CHR ''0'' then drop_frac t
         else is_digit c \<and> drop_frac (dropWhile is_digit t))"

definition end_num :: "string \<Rightarrow> token" where
  "end_num acc = (if is_number (rev acc) then TNum (rev acc) else TBad)"

definition end_word :: "string \<Rightarrow> token" where
  "end_word acc = (if rev acc = ''null'' then TNull else if rev acc = ''true'' then TBool True
     else if rev acc = ''false'' then TBool False else TBad)"

definition end_str :: "string \<Rightarrow> token" where
  "end_str acc = (case unquote (rev acc) of None \<Rightarrow> TBad | Some s \<Rightarrow> TStr s)"

text \<open>What one byte does between tokens: the tokens it completes and the next scanner state
  (\<open>None\<close> when the byte starts no token).\<close>

definition lex_start :: "char \<Rightarrow> (token list \<times> lexer) option" where
  "lex_start c = (if is_ws c then Some ([], LStart)
     else if c = CHR ''{'' then Some ([TLBrace], LStart)
     else if c = CHR ''}'' then Some ([TRBrace], LStart)
     else if c = CHR ''['' then Some ([TLBrack], LStart)
     else if c = CHR '']'' then Some ([TRBrack], LStart)
     else if c = CHR '':'' then Some ([TColon], LStart)
     else if c = CHR '','' then Some ([TComma], LStart)
     else if c = CHR 0x22 then Some ([], LStr [])
     else if is_digit c \<or> c = CHR ''-'' then Some ([], LNum [c])
     else if is_lower c then Some ([], LWord [c])
     else None)"

definition prepend :: "token list \<Rightarrow> (token list \<times> lexer) option \<Rightarrow> (token list \<times> lexer) option" where
  "prepend ts r = map_option (\<lambda>(us, l). (ts @ us, l)) r"

fun lex_byte :: "lexer \<Rightarrow> char \<Rightarrow> (token list \<times> lexer) option" where
  "lex_byte LStart c = lex_start c"
| "lex_byte (LStr acc) c = (if c = CHR 0x22 then Some ([end_str acc], LStart)
     else if c = CHR 0x5C then Some ([], LEsc (c # acc))
     else if (of_char c :: nat) < 32 then None else Some ([], LStr (c # acc)))"
| "lex_byte (LEsc acc) c = Some ([], LStr (c # acc))"
| "lex_byte (LNum acc) c = (if is_num_char c then Some ([], LNum (c # acc))
     else prepend [end_num acc] (lex_start c))"
| "lex_byte (LWord acc) c = (if is_lower c then Some ([], LWord (c # acc))
     else prepend [end_word acc] (lex_start c))"

fun lex_end :: "lexer \<Rightarrow> token list" where
  "lex_end LStart = []"
| "lex_end (LStr acc) = []"
| "lex_end (LEsc acc) = []"
| "lex_end (LNum acc) = [end_num acc]"
| "lex_end (LWord acc) = [end_word acc]"

fun json_lex :: "lexer \<Rightarrow> string \<Rightarrow> token list" where
  "json_lex l [] = lex_end l"
| "json_lex l (c # s) = (case lex_byte l c of None \<Rightarrow> [TBad] | Some (ts, l') \<Rightarrow> ts @ json_lex l' s)"

section \<open>The parser\<close>

datatype frame = ArrF "json list" | ObjF "(string \<times> json) list" string

datatype pstate = PValue | PFirst | PKeyFirst | PKey | PColon | PNext | PDone json

fun deliver :: "json \<Rightarrow> frame list \<Rightarrow> pstate \<times> frame list" where
  "deliver v [] = (PDone v, [])"
| "deliver v (ArrF xs # stk) = (PNext, ArrF (v # xs) # stk)"
| "deliver v (ObjF fs k # stk) = (PNext, ObjF ((k, v) # fs) k # stk)"

fun start_value :: "token \<Rightarrow> frame list \<Rightarrow> (pstate \<times> frame list) option" where
  "start_value TNull stk = Some (deliver JNull stk)"
| "start_value (TBool b) stk = Some (deliver (JBool b) stk)"
| "start_value (TNum s) stk = Some (deliver (JNum s) stk)"
| "start_value (TStr s) stk = Some (deliver (JStr s) stk)"
| "start_value TLBrack stk = Some (PFirst, ArrF [] # stk)"
| "start_value TLBrace stk = Some (PKeyFirst, ObjF [] [] # stk)"
| "start_value _ stk = None"

definition pstep :: "pstate \<Rightarrow> frame list \<Rightarrow> token \<Rightarrow> (pstate \<times> frame list) option" where
  "pstep st stk t = (case st of
     PValue \<Rightarrow> start_value t stk
   | PFirst \<Rightarrow> (case stk of
       ArrF xs # rest \<Rightarrow> if t = TRBrack then Some (deliver (JArr (rev xs)) rest)
         else start_value t stk
     | _ \<Rightarrow> None)
   | PKeyFirst \<Rightarrow> (case stk of
       ObjF fs k # rest \<Rightarrow> (case t of TRBrace \<Rightarrow> Some (deliver (JObj (rev fs)) rest)
         | TStr s \<Rightarrow> Some (PColon, ObjF fs s # rest) | _ \<Rightarrow> None)
     | _ \<Rightarrow> None)
   | PKey \<Rightarrow> (case stk of
       ObjF fs k # rest \<Rightarrow> (case t of TStr s \<Rightarrow> Some (PColon, ObjF fs s # rest) | _ \<Rightarrow> None)
     | _ \<Rightarrow> None)
   | PColon \<Rightarrow> if t = TColon then Some (PValue, stk) else None
   | PNext \<Rightarrow> (case stk of
       ArrF xs # rest \<Rightarrow> (case t of TComma \<Rightarrow> Some (PValue, stk)
         | TRBrack \<Rightarrow> Some (deliver (JArr (rev xs)) rest) | _ \<Rightarrow> None)
     | ObjF fs k # rest \<Rightarrow> (case t of TComma \<Rightarrow> Some (PKey, stk)
         | TRBrace \<Rightarrow> Some (deliver (JObj (rev fs)) rest) | _ \<Rightarrow> None)
     | [] \<Rightarrow> None)
   | PDone v \<Rightarrow> None)"

fun prun :: "pstate \<Rightarrow> frame list \<Rightarrow> token list \<Rightarrow> (json \<times> token list) result" where
  "prun st stk [] = (case st of PDone v \<Rightarrow> Inr (v, []) | _ \<Rightarrow> Inl EndOfFile)"
| "prun st stk (t # ts) = (case st of PDone v \<Rightarrow> Inr (v, t # ts)
     | _ \<Rightarrow> (case pstep st stk t of
         None \<Rightarrow> Inl (JsonError ''invalid character'')
       | Some (st', stk') \<Rightarrow> prun st' stk' ts))"

text \<open>\<open>json.NewDecoder(r).Decode\<close> takes the first value of the stream and leaves what follows;
  \<open>json.Unmarshal\<close> wants exactly one value.\<close>

definition json_first :: "string \<Rightarrow> json result" where
  "json_first s = map_sum id fst (prun PValue [] (json_lex LStart s))"

definition json_parse :: "string \<Rightarrow> json result" where
  "json_parse s = (case prun PValue [] (json_lex LStart s) of Inl e \<Rightarrow> Inl e
     | Inr (v, ts) \<Rightarrow> if ts = [] then Inr v
         else Inl (JsonError ''invalid character after top-level value''))"

section \<open>Printing\<close>

datatype piece = Tok token | Ws string

fun token_text :: "token \<Rightarrow> string" where
  "token_text TLBrace = ''{''"
| "token_text TRBrace = ''}''"
| "token_text TLBrack = ''[''"
| "token_text TRBrack = '']''"
| "token_text TColon = '':''"
| "token_text TComma = '',''"
| "token_text (TStr s) = CHR 0x22 # json_escape s @ [CHR 0x22]"
| "token_text (TNum s) = s"
| "token_text TNull = ''null''"
| "token_text (TBool b) = (if b then ''true'' else ''false'')"
| "token_text TBad = []"

fun piece_text :: "piece \<Rightarrow> string" where
  "piece_text (Tok t) = token_text t"
| "piece_text (Ws s) = s"

definition pieces_text :: "piece list \<Rightarrow> string" where
  "pieces_text ps = concat (map piece_text ps)"

text \<open>\<open>i\<close> selects the form of \<open>json.MarshalIndent(v, "", "  ")\<close>, \<open>d\<close> is the nesting depth.\<close>

definition newline :: "bool \<Rightarrow> nat \<Rightarrow> piece list" where
  "newline i d = (if i then [Ws (CHR 0x0A # replicate (2 * d) CHR 0x20)] else [])"

definition colon :: "bool \<Rightarrow> piece list" where
  "colon i = Tok TColon # (if i then [Ws [CHR 0x20]] else [])"

fun pieces :: "bool \<Rightarrow> nat \<Rightarrow> json \<Rightarrow> piece list"
  and elem_pieces :: "bool \<Rightarrow> nat \<Rightarrow> json list \<Rightarrow> piece list"
  and field_pieces :: "bool \<Rightarrow> nat \<Rightarrow> (string \<times> json) list \<Rightarrow> piece list" where
  "pieces i d JNull = [Tok TNull]"
| "pieces i d (JBool b) = [Tok (TBool b)]"
| "pieces i d (JNum s) = [Tok (TNum s)]"
| "pieces i d (JStr s) = [Tok (TStr s)]"
| "pieces i d (JArr []) = [Tok TLBrack, Tok TRBrack]"
| "pieces i d (JArr (x # xs)) = Tok TLBrack # newline i (Suc d) @ pieces i (Suc d) x @
     elem_pieces i (Suc d) xs @ newline i d @ [Tok TRBrack]"
| "pieces i d (JObj []) = [Tok TLBrace, Tok TRBrace]"
| "pieces i d (JObj ((k, v) # fs)) = Tok TLBrace # newline i (Suc d) @ Tok (TStr k) # colon i @
     pieces i (Suc d) v @ field_pieces i (Suc d) fs @ newline i d @ [Tok TRBrace]"
| "elem_pieces i d [] = []"
| "elem_pieces i d (x # xs) = Tok TComma # newline i d @ pieces i d x @ elem_pieces i d xs"
| "field_pieces i d [] = []"
| "field_pieces i d ((k, v) # fs) = Tok TComma # newline i d @ Tok (TStr k) # colon i @
     pieces i d v @ field_pieces i d fs"

definition json_text :: "json \<Rightarrow> string" where
  "json_text j = pieces_text (pieces False 0 j)"

definition json_indent :: "json \<Rightarrow> string" where
  "json_indent j = pieces_text (pieces True 0 j)"

section \<open>The parser reads back what the printer wrote\<close>

fun valid_json :: "json \<Rightarrow> bool" where
  "valid_json (JNum s) = is_number s"
| "valid_json (JArr xs) = (\<forall>x \<in> set xs. valid_json x)"
| "valid_json (JObj fs) = (\<forall>(k, v) \<in> set fs. valid_json v)"
| "valid_json _ = True"

definition ptoks :: "piece list \<Rightarrow> token list" where
  "ptoks ps = concat (map (\<lambda>p. case p of Tok t \<Rightarrow> [t] | Ws s \<Rightarrow> []) ps)"

lemma ptoks_simps [simp]:
  "ptoks [] = []" "ptoks (Tok t # ps) = t # ptoks ps" "ptoks (Ws s # ps) = ptoks ps"
  "ptoks (ps @ qs) = ptoks ps @ ptoks qs" "ptoks (newline i d) = []" "ptoks (colon i) = [TColon]"
  by (simp_all add: ptoks_def newline_def colon_def)

lemma pieces_text_simps [simp]:
  "pieces_text [] = []" "pieces_text (p # ps) = piece_text p @ pieces_text ps"
  "pieces_text (ps @ qs) = pieces_text ps @ pieces_text qs"
  by (simp_all add: pieces_text_def)

text \<open>A text before which a number or a word may end.\<close>

definition delimited :: "string \<Rightarrow> bool" where
  "delimited s \<longleftrightarrow> s = [] \<or> lex_start (hd s) \<noteq> None \<and> \<not> is_num_char (hd s) \<and> \<not> is_lower (hd s)"

lemma delimited_punct [simp]:
  "delimited []" "delimited (CHR ''}'' # s)" "delimited (CHR '']'' # s)" "delimited (CHR '','' # s)"
  "delimited (CHR 0x0A # s)"
  by (simp_all add: delimited_def lex_start_def is_ws_def is_num_char_def is_lower_def is_digit_def)

lemma lex_num:
  "list_all is_num_char u \<Longrightarrow> delimited s \<Longrightarrow>
     json_lex (LNum acc) (u @ s) = end_num (rev u @ acc) # json_lex LStart s"
proof (induction u arbitrary: acc)
  case Nil
  then show ?case by (cases s) (auto simp: delimited_def prepend_def split: option.split)
qed simp

lemma lex_word:
  "list_all is_lower u \<Longrightarrow> delimited s \<Longrightarrow>
     json_lex (LWord acc) (u @ s) = end_word (rev u @ acc) # json_lex LStart s"
proof (induction u arbitrary: acc)
  case Nil
  then show ?case by (cases s) (auto simp: delimited_def prepend_def split: option.split)
qed simp

lemma digits_num_chars: "list_all is_digit s \<Longrightarrow> list_all is_num_char s"
  by (auto simp: list_all_iff is_num_char_def)

lemma num_chars_dropWhile: "list_all is_num_char (dropWhile is_digit s) \<Longrightarrow> list_all is_num_char s"
  by (induction s) (auto simp: is_num_char_def split: if_splits)

lemma drop_exp_chars: "drop_exp s \<Longrightarrow> list_all is_num_char s"
  by (auto simp: drop_exp_def Let_def is_num_char_def split: list.splits if_splits
      dest!: digits_num_chars)

lemma drop_frac_chars: "drop_frac s \<Longrightarrow> list_all is_num_char s"
  by (auto simp: drop_frac_def split: list.splits if_splits
      dest!: drop_exp_chars num_chars_dropWhile) (simp add: is_num_char_def)

lemma is_number_chars:
  assumes "is_number s"
  shows "list_all is_num_char s \<and> s \<noteq> [] \<and> (is_digit (hd s) \<or> hd s = CHR ''-'')"
proof (cases s)
  case Nil
  with assms show ?thesis by (simp add: is_number_def)
next
  case (Cons c t)
  have d: "is_num_char x" if "is_digit x" for x using that by (simp add: is_num_char_def)
  have z: "is_digit CHR ''0''" by (simp add: is_digit_def)
  have m: "is_num_char CHR ''-''" by (simp add: is_num_char_def)
  from assms Cons show ?thesis
    by (auto simp: is_number_def Let_def d z m split: list.splits if_splits
        dest!: drop_frac_chars num_chars_dropWhile)
qed

lemma lex_number:
  assumes "is_number n" and "delimited s"
  shows "json_lex LStart (n @ s) = TNum n # json_lex LStart s"
proof -
  obtain c u where n: "n = c # u" using is_number_chars [OF assms(1)] by (cases n) auto
  have c: "is_digit c \<or> c = CHR ''-''" and u: "list_all is_num_char u"
    using is_number_chars [OF assms(1)] n by auto
  have "c \<notin> {CHR 0x20, CHR 0x09, CHR 0x0A, CHR 0x0D, CHR ''{'', CHR ''}'', CHR ''['', CHR '']'',
      CHR '':'', CHR '','', CHR 0x22}"
    using c by (auto simp: is_digit_def)
  then have "lex_start c = Some ([], LNum [c])"
    using c unfolding lex_start_def is_ws_def by simp
  then show ?thesis using lex_num [OF u assms(2), of "[c]"] assms(1) by (simp add: n end_num_def)
qed

lemma lex_escape_byte:
  "json_lex (LStr acc) (json_escape_byte c @ t) = json_lex (LStr (rev (json_escape_byte c) @ acc)) t"
proof -
  have hex: "hex_char d \<noteq> CHR 0x22 \<and> hex_char d \<noteq> CHR 0x5C \<and> \<not> of_char (hex_char d) < (32 :: nat)"
    if "d < 16" for d
    using that by (auto simp: hex_char_def dest: arg_cong [where f = "of_char :: char \<Rightarrow> nat"])
  have "(of_char c :: nat) div 16 < 16" using nat_of_char_less_256 [of c] by (simp add: less_mult_imp_div_less)
  then show ?thesis
    using hex [of "of_char c div 16"] hex [of "of_char c mod 16"]
    by (simp add: json_escape_byte_def Let_def)
qed

lemma lex_escape:
  "json_lex (LStr acc) (json_escape s @ t) = json_lex (LStr (rev (json_escape s) @ acc)) t"
  by (induction s arbitrary: acc) (simp_all add: json_escape_def lex_escape_byte)

lemma lex_string: "json_lex LStart (CHR 0x22 # json_escape k @ CHR 0x22 # s) = TStr k # json_lex LStart s"
  using lex_escape [of "[]" k "CHR 0x22 # s"] unquote_json_escape [of k]
  by (simp add: lex_start_def is_ws_def is_digit_def end_str_def)

declare json_lex.simps(2) [simp del]

lemma lex_punct [simp]:
  "json_lex LStart (CHR ''{'' # s) = TLBrace # json_lex LStart s"
  "json_lex LStart (CHR ''}'' # s) = TRBrace # json_lex LStart s"
  "json_lex LStart (CHR ''['' # s) = TLBrack # json_lex LStart s"
  "json_lex LStart (CHR '']'' # s) = TRBrack # json_lex LStart s"
  "json_lex LStart (CHR '':'' # s) = TColon # json_lex LStart s"
  "json_lex LStart (CHR '','' # s) = TComma # json_lex LStart s"
  "json_lex LStart (CHR 0x20 # s) = json_lex LStart s"
  "json_lex LStart (CHR 0x0A # s) = json_lex LStart s"
  by (simp_all add: json_lex.simps(2) lex_start_def is_ws_def)

lemma lex_spaces [simp]: "json_lex LStart (replicate n CHR 0x20 @ s) = json_lex LStart s"
  by (induction n) simp_all

lemma lex_newline [simp]: "json_lex LStart (pieces_text (newline i d) @ s) = json_lex LStart s"
  by (simp add: newline_def)

lemma lex_colon [simp]: "json_lex LStart (pieces_text (colon i) @ s) = TColon # json_lex LStart s"
  by (simp add: colon_def)

lemma delimited_newline [simp]: "delimited s \<Longrightarrow> delimited (pieces_text (newline i d) @ s)"
  by (simp add: newline_def)

lemma lex_literal:
  assumes "delimited s"
  shows "json_lex LStart (''null'' @ s) = TNull # json_lex LStart s"
    and "json_lex LStart (''true'' @ s) = TBool True # json_lex LStart s"
    and "json_lex LStart (''false'' @ s) = TBool False # json_lex LStart s"
  using lex_word [OF _ assms, of "''ull''" "''n''"] lex_word [OF _ assms, of "''rue''" "''t''"]
    lex_word [OF _ assms, of "''alse''" "''f''"]
  by (simp_all add: json_lex.simps(2) lex_start_def is_ws_def is_digit_def is_lower_def end_word_def)

lemma delimited_elems [simp]: "delimited s \<Longrightarrow> delimited (pieces_text (elem_pieces i d xs) @ s)"
  by (cases xs) simp_all

lemma delimited_fields [simp]: "delimited s \<Longrightarrow> delimited (pieces_text (field_pieces i d fs) @ s)"
  by (cases fs) auto

lemma lex_string' [simp]:
  "json_lex LStart (CHR 0x22 # json_escape k @ CHR 0x22 # s) = TStr k # json_lex LStart s"
  by (rule lex_string)

lemma lex_pieces:
  "valid_json j \<Longrightarrow> delimited s \<Longrightarrow>
     json_lex LStart (pieces_text (pieces i d j) @ s) = ptoks (pieces i d j) @ json_lex LStart s"
  and lex_elems: "\<forall>x \<in> set xs. valid_json x \<Longrightarrow> delimited s \<Longrightarrow>
     json_lex LStart (pieces_text (elem_pieces i d xs) @ s) = ptoks (elem_pieces i d xs) @ json_lex LStart s"
  and lex_fields: "\<forall>(k, v) \<in> set fs. valid_json v \<Longrightarrow> delimited s \<Longrightarrow>
     json_lex LStart (pieces_text (field_pieces i d fs) @ s) = ptoks (field_pieces i d fs) @ json_lex LStart s"
proof (induction i d j and i d xs and i d fs arbitrary: s and s and s
    rule: pieces_elem_pieces_field_pieces.induct)
  case (1 i d)
  then show ?case using lex_literal(1) by simp
next
  case (2 i d b)
  then show ?case using lex_literal(2,3) by (cases b) simp_all
next
  case (3 i d n)
  then show ?case using lex_number by simp
qed simp_all

section \<open>The stack machine on printed tokens\<close>

definition continue :: "pstate \<times> frame list \<Rightarrow> token list \<Rightarrow> (json \<times> token list) result" where
  "continue c ts = prun (fst c) (snd c) ts"

lemma prun_PValue: "prun PValue stk (t # ts) = (case start_value t stk of
    None \<Rightarrow> Inl (JsonError ''invalid character'') | Some c \<Rightarrow> continue c ts)"
  by (auto simp: pstep_def continue_def split: option.split)

lemma prun_PFirst: "prun PFirst (ArrF xs # stk) (t # ts) = (if t = TRBrack
    then continue (deliver (JArr (rev xs)) stk) ts else prun PValue (ArrF xs # stk) (t # ts))"
  by (auto simp: pstep_def continue_def split_beta split: option.split)

lemma prun_PKeyFirst:
  "prun PKeyFirst (ObjF fs k # stk) (TRBrace # ts) = continue (deliver (JObj (rev fs)) stk) ts"
  "prun PKeyFirst (ObjF fs k # stk) (TStr s # ts) = prun PColon (ObjF fs s # stk) ts"
  by (simp_all add: pstep_def continue_def split: prod.split)

lemma prun_PKey: "prun PKey (ObjF fs k # stk) (TStr s # ts) = prun PColon (ObjF fs s # stk) ts"
  by (simp add: pstep_def)

lemma prun_PColon: "prun PColon stk (TColon # ts) = prun PValue stk ts"
  by (simp add: pstep_def)

lemma prun_PNext_arr:
  "prun PNext (ArrF xs # stk) (TComma # ts) = prun PValue (ArrF xs # stk) ts"
  "prun PNext (ArrF xs # stk) (TRBrack # ts) = continue (deliver (JArr (rev xs)) stk) ts"
  by (simp_all add: pstep_def continue_def split: prod.split)

lemma prun_PNext_obj:
  "prun PNext (ObjF fs k # stk) (TComma # ts) = prun PKey (ObjF fs k # stk) ts"
  "prun PNext (ObjF fs k # stk) (TRBrace # ts) = continue (deliver (JObj (rev fs)) stk) ts"
  by (simp_all add: pstep_def continue_def split: prod.split)

lemma continue_pair: "continue (st, stk) ts = prun st stk ts"
  by (simp add: continue_def)

lemma continue_deliver_arr: "continue (deliver v (ArrF xs # stk)) ts = prun PNext (ArrF (v # xs) # stk) ts"
  by (simp add: continue_def)

lemma continue_deliver_obj:
  "continue (deliver v (ObjF fs k # stk)) ts = prun PNext (ObjF ((k, v) # fs) k # stk) ts"
  by (simp add: continue_def)

lemmas prun_rules = prun_PValue prun_PFirst prun_PKeyFirst prun_PKey prun_PColon prun_PNext_arr
  prun_PNext_obj continue_pair continue_deliver_arr continue_deliver_obj

declare prun.simps [simp del] deliver.simps [simp del]

lemma pieces_first: "\<exists>t ts. ptoks (pieces i d j) = t # ts \<and> t \<noteq> TRBrack"
proof (cases j)
  case (JArr xs)
  then show ?thesis by (cases xs) auto
next
  case (JObj fs)
  then show ?thesis by (cases fs) auto
qed auto

lemma prun_PFirst_value:
  "prun PFirst (ArrF xs # stk) (ptoks (pieces i d j) @ ts) = prun PValue (ArrF xs # stk) (ptoks (pieces i d j) @ ts)"
proof -
  obtain t us where "ptoks (pieces i d j) = t # us" and "t \<noteq> TRBrack" using pieces_first by blast
  then show ?thesis by (simp add: prun_PFirst)
qed

lemma prun_pieces:
  "prun PValue stk (ptoks (pieces i d j) @ ts) = continue (deliver j stk) ts"
  and prun_elems: "prun PNext (ArrF acc # stk) (ptoks (elem_pieces i d xs) @ TRBrack # ts) =
     continue (deliver (JArr (rev acc @ xs)) stk) ts"
  and prun_fields: "prun PNext (ObjF facc k # stk) (ptoks (field_pieces i d fs) @ TRBrace # ts) =
     continue (deliver (JObj (rev facc @ fs)) stk) ts"
proof (induction i d j and i d xs and i d fs arbitrary: stk ts and acc stk ts and facc k stk ts
    rule: pieces_elem_pieces_field_pieces.induct)
  case (6 i d x xs)
  then show ?case by (simp add: continue_deliver_arr prun_PFirst_value prun_PValue continue_pair)
qed (simp_all add: prun_rules)

lemma prun_done: "prun PValue [] (ptoks (pieces i d j) @ ts) = Inr (j, ts)"
  by (simp add: prun_pieces continue_pair deliver.simps prun.simps split: list.split) (cases ts; simp add: prun.simps)

lemma json_first_pieces:
  "valid_json j \<Longrightarrow> delimited s \<Longrightarrow> json_first (pieces_text (pieces i d j) @ s) = Inr j"
  by (simp add: json_first_def lex_pieces prun_done)

lemma json_parse_pieces: "valid_json j \<Longrightarrow> json_parse (pieces_text (pieces i d j)) = Inr j"
  using lex_pieces [of j "[]" i d] prun_done [of i d j "[]"] by (simp add: json_parse_def)

section \<open>What the parser accepts is well formed\<close>

definition valid_token :: "token \<Rightarrow> bool" where
  "valid_token t \<longleftrightarrow> (\<forall>n. t = TNum n \<longrightarrow> is_number n)"

lemma lex_start_valid: "lex_start c = Some (ts, l) \<Longrightarrow> t \<in> set ts \<Longrightarrow> valid_token t"
  by (auto simp: lex_start_def valid_token_def split: if_splits)

lemma end_tokens_valid [simp]: "valid_token (end_num a)" "valid_token (end_word a)" "valid_token (end_str a)"
  by (auto simp: end_num_def end_word_def end_str_def valid_token_def split: option.split)

lemma lex_byte_valid: "lex_byte l c = Some (ts, l') \<Longrightarrow> t \<in> set ts \<Longrightarrow> valid_token t"
  by (cases l) (auto simp: prepend_def dest: lex_start_valid split: if_splits)

lemma lex_end_valid: "t \<in> set (lex_end l) \<Longrightarrow> valid_token t"
  by (cases l) auto

lemma json_lex_valid: "t \<in> set (json_lex l s) \<Longrightarrow> valid_token t"
proof (induction s arbitrary: l)
  case Nil
  then show ?case by (auto dest: lex_end_valid)
next
  case (Cons c s)
  then show ?case
    by (auto simp: json_lex.simps(2) valid_token_def split: option.splits
        dest: lex_byte_valid [unfolded valid_token_def])
qed

fun valid_frame :: "frame \<Rightarrow> bool" where
  "valid_frame (ArrF xs) = (\<forall>x \<in> set xs. valid_json x)"
| "valid_frame (ObjF fs k) = (\<forall>(k, v) \<in> set fs. valid_json v)"

definition valid_conf :: "pstate \<times> frame list \<Rightarrow> bool" where
  "valid_conf c \<longleftrightarrow> (\<forall>f \<in> set (snd c). valid_frame f) \<and> (\<forall>v. fst c = PDone v \<longrightarrow> valid_json v)"

lemma deliver_valid: "valid_json v \<Longrightarrow> \<forall>f \<in> set stk. valid_frame f \<Longrightarrow> valid_conf (deliver v stk)"
proof (cases stk)
  case (Cons f rest)
  assume "valid_json v" "\<forall>f \<in> set stk. valid_frame f"
  with Cons show ?thesis by (cases f) (auto simp: deliver.simps valid_conf_def)
qed (simp add: deliver.simps valid_conf_def)

lemma start_value_valid:
  "valid_token t \<Longrightarrow> \<forall>f \<in> set stk. valid_frame f \<Longrightarrow> start_value t stk = Some c \<Longrightarrow> valid_conf c"
  by (cases t) (auto intro: deliver_valid simp: valid_token_def, auto simp: valid_conf_def)

lemma pstep_valid:
  "valid_token t \<Longrightarrow> valid_conf (st, stk) \<Longrightarrow> pstep st stk t = Some c \<Longrightarrow> valid_conf c"
  by (auto simp: pstep_def split: pstate.splits list.splits frame.splits token.splits if_splits
      intro!: deliver_valid dest!: start_value_valid) (auto simp: valid_conf_def)

lemma prun_valid:
  "\<forall>t \<in> set ts. valid_token t \<Longrightarrow> valid_conf (st, stk) \<Longrightarrow> prun st stk ts = Inr (v, us) \<Longrightarrow> valid_json v"
proof (induction ts arbitrary: st stk)
  case Nil
  then show ?case by (auto simp: prun.simps valid_conf_def split: pstate.splits)
next
  case (Cons t ts)
  show ?case
  proof (cases "\<exists>w. st = PDone w")
    case True
    with Cons.prems show ?thesis by (auto simp: prun.simps valid_conf_def)
  next
    case False
    with Cons.prems obtain st' stk' where "pstep st stk t = Some (st', stk')"
      and "prun st' stk' ts = Inr (v, us)"
      by (auto simp: prun.simps split: pstate.splits option.splits)
    moreover from this have "valid_conf (st', stk')" using Cons.prems by (auto intro: pstep_valid)
    ultimately show ?thesis using Cons by auto
  qed
qed

lemma json_parse_valid: "json_parse s = Inr j \<Longrightarrow> valid_json j"
  by (auto simp: json_parse_def valid_conf_def dest: json_lex_valid
      split: sum.splits prod.splits if_splits intro!: prun_valid)

lemma json_first_valid: "json_first s = Inr j \<Longrightarrow> valid_json j"
  by (cases "prun PValue [] (json_lex LStart s)")
     (auto simp: json_first_def valid_conf_def dest: json_lex_valid intro!: prun_valid)

lemma json_text_parse: "valid_json j \<Longrightarrow> json_parse (json_text j) = Inr j"
  by (simp add: json_text_def json_parse_pieces)

lemma json_indent_parse: "valid_json j \<Longrightarrow> json_parse (json_indent j) = Inr j"
  by (simp add: json_indent_def json_parse_pieces)

interpretation compact_json: codec json_text json_parse valid_json
  by unfold_locales (fact json_text_parse, fact json_parse_valid)

interpretation indented_json: codec json_indent json_parse valid_json
  by unfold_locales (fact json_indent_parse, fact json_parse_valid)

section \<open>Go values\<close>

text \<open>
  Decoding into a struct: a key selects the field with that name, else a field whose name is equal
  up to letter case; unknown keys are skipped, \<open>null\<close> changes nothing, and a value of the wrong
  type is reported after the rest of the object has been read. The first such error is kept.
\<close>

type_synonym 's decoder = "json \<Rightarrow> 's \<Rightarrow> 's \<times> go_error option"

definition type_error :: "go_error" where
  "type_error = JsonError ''cannot unmarshal value into Go value''"

text \<open>Letter case folding of field names; U+212A and U+017F fold to K and S.\<close>

definition fold_byte :: "char \<Rightarrow> char" where
  "fold_byte c = (if is_lower c then char_of ((of_char c :: nat) - 32) else c)"

fun fold_special :: "string \<Rightarrow> string" where
  "fold_special (a # b # c # s) =
     (if [a, b, c] = [CHR 0xE2, CHR 0x84, CHR 0xAA] then CHR ''K'' # fold_special s
      else if [a, b] = [CHR 0xC5, CHR 0xBF] then CHR ''S'' # fold_special (c # s)
      else a # fold_special (b # c # s))"
| "fold_special [a, b] = (if [a, b] = [CHR 0xC5, CHR 0xBF] then ''S'' else [a, b])"
| "fold_special [a] = [a]"
| "fold_special [] = []"

definition fold_name :: "string \<Rightarrow> string" where
  "fold_name s = map fold_byte (fold_special s)"

definition find_field :: "(string \<times> 's decoder) list \<Rightarrow> string \<Rightarrow> 's decoder option" where
  "find_field fields k = (case map_of fields k of
     Some d \<Rightarrow> Some d
   | None \<Rightarrow> map_option snd (find (\<lambda>(n, d). fold_name n = fold_name k) fields))"

definition first_error :: "go_error option \<Rightarrow> go_error option \<Rightarrow> go_error option" where
  "first_error a b = (case a of None \<Rightarrow> b | Some e \<Rightarrow> Some e)"

fun decode_fields :: "(string \<times> 's decoder) list \<Rightarrow> (string \<times> json) list \<Rightarrow> 's \<Rightarrow> 's \<times> go_error option" where
  "decode_fields fields [] st = (st, None)"
| "decode_fields fields ((k, v) # kvs) st =
     (case find_field fields k of
        None \<Rightarrow> decode_fields fields kvs st
      | Some d \<Rightarrow> (let (st1, e1) = d v st; (st2, e2) = decode_fields fields kvs st1
                    in (st2, first_error e1 e2)))"

definition decode_struct :: "(string \<times> 's decoder) list \<Rightarrow> 's decoder" where
  "decode_struct fields v st = (case v of
     JObj kvs \<Rightarrow> decode_fields fields kvs st
   | JNull \<Rightarrow> (st, None)
   | _ \<Rightarrow> (st, Some type_error))"

definition string_field :: "(string \<Rightarrow> 's \<Rightarrow> 's) \<Rightarrow> 's decoder" where
  "string_field upd v st = (case v of
     JStr s \<Rightarrow> (upd s st, None) | JNull \<Rightarrow> (st, None) | _ \<Rightarrow> (st, Some type_error))"

definition int_field :: "(int \<Rightarrow> 's \<Rightarrow> 's) \<Rightarrow> 's decoder" where
  "int_field upd v st = (case v of
     JNum s \<Rightarrow> (case parse_int ''ParseInt'' s of
        Inr n \<Rightarrow> (upd n st, None) | Inl _ \<Rightarrow> (st, Some type_error))
   | JNull \<Rightarrow> (st, None) | _ \<Rightarrow> (st, Some type_error))"

text \<open>Decoding into a map: every entry is decoded into a fresh element and stored.\<close>

fun decode_entries :: "'s decoder \<Rightarrow> 's \<Rightarrow> (string \<times> json) list \<Rightarrow> (string \<times> 's) list \<Rightarrow>
    (string \<times> 's) list \<times> go_error option" where
  "decode_entries d zero [] m = (m, None)"
| "decode_entries d zero ((k, v) # kvs) m =
     (let (x, e1) = d v zero; (m', e2) = decode_entries d zero kvs (AList.update k x m)
      in (m', first_error e1 e2))"

definition map_field :: "'e decoder \<Rightarrow> 'e \<Rightarrow> ((string \<times> 'e) list \<Rightarrow> 's \<Rightarrow> 's) \<Rightarrow>
    ('s \<Rightarrow> (string \<times> 'e) list) \<Rightarrow> 's decoder" where
  "map_field d zero upd get v st = (case v of
     JObj kvs \<Rightarrow> (let (m, e) = decode_entries d zero kvs (get st) in (upd m st, e))
   | JNull \<Rightarrow> (upd [] st, None)
   | _ \<Rightarrow> (st, Some type_error))"

text \<open>\<open>json.Unmarshal(data, &v)\<close> and \<open>Decode(&v)\<close>, for a caller that looks at the error first.\<close>

definition decode_result :: "'s \<times> go_error option \<Rightarrow> 's result" where
  "decode_result r = (case r of (s, None) \<Rightarrow> Inr s | (s, Some e) \<Rightarrow> Inl e)"

definition unmarshal :: "'s decoder \<Rightarrow> 's \<Rightarrow> string \<Rightarrow> 's result" where
  "unmarshal d zero text = (case json_parse text of Inl e \<Rightarrow> Inl e | Inr v \<Rightarrow> decode_result (d v zero))"

definition decode_stream :: "'s decoder \<Rightarrow> 's \<Rightarrow> string \<Rightarrow> 's result" where
  "decode_stream d zero text = (case json_first text of Inl e \<Rightarrow> Inl e | Inr v \<Rightarrow> decode_result (d v zero))"

text \<open>Encoding: an int prints as a number, a map prints its keys in sorted order.\<close>

definition json_int :: "int \<Rightarrow> json" where
  "json_int n = JNum (itoa n)"

definition json_map :: "('e \<Rightarrow> json) \<Rightarrow> (string \<times> 'e) list \<Rightarrow> json" where
  "json_map enc m = JObj (map (\<lambda>(k, v). (k, enc v)) (sort_key fst m))"

lemmas decode_defs = find_field_def first_error_def decode_struct_def string_field_def int_field_def

declare find_field_def [wire_simps] first_error_def [wire_simps] decode_struct_def [wire_simps]
  string_field_def [wire_simps] int_field_def [wire_simps] json_int_def [wire_simps]
  decode_result_def [wire_simps]

lemma nat_text_hd: "0 < n \<Longrightarrow> hd (nat_text n) \<noteq> CHR ''0''"
proof (induction n rule: nat_text.induct)
  case (1 n)
  show ?case
  proof (cases "n < 10")
    case True
    have "digit_char n \<noteq> CHR ''0''"
    proof
      assume "digit_char n = CHR ''0''"
      then have "digit_val (digit_char n) = 0" by (simp add: digit_val_def)
      with True 1 show False by simp
    qed
    with True show ?thesis by (subst nat_text.simps) simp
  next
    case False
    with 1 show ?thesis by (subst nat_text.simps) (simp add: hd_append)
  qed
qed

lemma dropWhile_digits: "list_all is_digit s \<Longrightarrow> dropWhile is_digit s = []"
  by (simp add: list_all_iff)

lemma is_number_nat_text: "is_number (nat_text n)"
proof -
  obtain c t where ct: "nat_text n = c # t" using nat_text_nonempty by (metis neq_Nil_conv)
  then have c: "is_digit c" and t: "list_all is_digit t" using nat_text_digits [of n] by auto
  have "c \<noteq> CHR ''-''" using is_digit_not_sign [OF c] by simp
  moreover have "t = []" if "c = CHR ''0''"
  proof -
    have "n = 0" using nat_text_hd [of n] ct that by auto
    then show ?thesis using ct by (simp add: nat_text.simps)
  qed
  ultimately show ?thesis
    using c t by (auto simp: is_number_def ct drop_frac_def drop_exp_def dropWhile_digits)
qed

lemma is_number_neg: "is_number s \<Longrightarrow> is_digit (hd s) \<Longrightarrow> is_number (CHR ''-'' # s)"
  using is_digit_not_sign by (cases s) (auto simp: is_number_def split: if_splits)

lemma is_digit_nat_text_hd: "is_digit (hd (nat_text n))"
  using nat_text_digits [of n] by (cases "nat_text n") auto

lemma is_number_itoa [simp]: "is_number (itoa n)"
  by (simp add: itoa_def is_number_nat_text is_number_neg is_digit_nat_text_hd)

lemma valid_json_int [simp]: "valid_json (json_int n)"
  by (simp add: json_int_def)

lemma int_field_json_int [wire_simps]:
  "int64_min \<le> n \<Longrightarrow> n \<le> int64_max \<Longrightarrow> int_field upd (json_int n) st = (upd n st, None)"
  by (simp add: int_field_def json_int_def parse_int_itoa)

lemma valid_json_map: "(\<And>x. valid_json (enc x)) \<Longrightarrow> valid_json (json_map enc m)"
  by (auto simp: json_map_def)

lemma unmarshal_pieces:
  "valid_json j \<Longrightarrow> unmarshal d zero (pieces_text (pieces i n j)) = decode_result (d j zero)"
  by (simp add: unmarshal_def json_parse_pieces)

lemma unmarshal_text: "valid_json j \<Longrightarrow> unmarshal d zero (json_text j) = decode_result (d j zero)"
  by (simp add: json_text_def unmarshal_pieces)

lemma unmarshal_indent: "valid_json j \<Longrightarrow> unmarshal d zero (json_indent j) = decode_result (d j zero)"
  by (simp add: json_indent_def unmarshal_pieces)

lemma decode_stream_text:
  "valid_json j \<Longrightarrow> delimited s \<Longrightarrow> decode_stream d zero (json_text j @ s) = decode_result (d j zero)"
  by (simp add: decode_stream_def json_text_def json_first_pieces)

text \<open>A map printed and decoded again: the same entries, in sorted order.\<close>

lemma decode_entries_map:
  assumes "\<And>x. x \<in> snd ` set kvs \<Longrightarrow> d (enc x) zero = (x, None)"
    and "distinct (map fst (m @ kvs))"
  shows "decode_entries d zero (map (\<lambda>(k, v). (k, enc v)) kvs) m = (m @ kvs, None)"
  using assms
proof (induction kvs arbitrary: m)
  case Nil
  then show ?case by simp
next
  case (Cons kv kvs)
  obtain k v where kv: "kv = (k, v)" by (cases kv)
  have "k \<notin> fst ` set m" using Cons.prems(2) kv by auto
  then have "AList.update k v m = m @ [(k, v)]"
    by (induction m) auto
  with Cons kv show ?case by (simp add: first_error_def)
qed

lemma decode_entries_json_map:
  assumes "\<And>x. x \<in> snd ` set m \<Longrightarrow> d (enc x) zero = (x, None)" and "distinct (map fst m)"
  shows "decode_entries d zero (map (\<lambda>(k, v). (k, enc v)) (sort_key fst m)) [] = (sort_key fst m, None)"
  using decode_entries_map [of "sort_key fst m" d enc zero "[]"] assms
  by (simp add: distinct_keys_sort_key)

end
