(* ===== verification/Forward_Spec.thy ===== *)
theory Forward_Spec
  imports Go_Text
begin

text \<open>
  The forward specification \<open><name>:<guest-port>:<host-port>\<close> of \<open>launcher/mac/forwarding.go\<close>:
  its parser, its printer, and the repeatable \<open>--forward\<close> flag with its comma-separated encoding
  on the command line of the daemon. The lemmas show that a parsed specification is well formed,
  that parsing undoes printing, and that the daemon reads back exactly the list of forwards the
  start command accepted.
\<close>

section \<open>Data\<close>

record ForwardSpec =
  spec_Name :: string
  spec_GuestPort :: int
  spec_HostPort :: int

type_synonym forwardSpecList = "ForwardSpec list"

section \<open>One specification\<close>

text \<open>The characters \<open>parseForwardSpec\<close> allows in a name. Go ranges over the code points of the
  name; every byte of a code point beyond ASCII fails all the comparisons below.\<close>

definition name_character :: "char \<Rightarrow> bool" where
  "name_character c \<longleftrightarrow> (let n = of_char c :: nat in
     (97 \<le> n \<and> n \<le> 122) \<or> (65 \<le> n \<and> n \<le> 90) \<or> (48 \<le> n \<and> n \<le> 57) \<or>
     c = CHR ''-'' \<or> c = CHR ''_'' \<or> c = CHR ''.'')"

definition invalid_forward :: "string \<Rightarrow> string \<Rightarrow> go_error" where
  "invalid_forward v reason = ErrorString (''invalid forward '' @ go_quote v @ '': '' @ reason)"

definition quoted_char :: "char \<Rightarrow> string" where
  "quoted_char c = [CHR 0x27, c, CHR 0x27]"

definition parseForwardSpec :: "string \<Rightarrow> ForwardSpec result" where
  "parseForwardSpec v =
     (let parts = split_on CHR '':'' v in
      if length parts \<noteq> 3 then Inl (invalid_forward v ''expected <name>:<guest-port>:<host-port>'')
      else
        let name = trim_space (parts ! 0) in
        if name = [] then Inl (invalid_forward v ''name must not be empty'')
        else if \<not> list_all name_character name
        then Inl (invalid_forward v
               (''name may contain only letters, digits, '' @ quoted_char CHR ''.'' @ '', '' @
                quoted_char CHR ''_'' @ '' and '' @ quoted_char CHR ''-''))
        else
          let bad_guest = Inl (invalid_forward v ''guest port must be an integer from 1 to 65535'');
              bad_host = Inl (invalid_forward v ''host port must be an integer from 0 to 65535'')
          in case atoi (trim_space (parts ! 1)) of
               Inl _ \<Rightarrow> bad_guest
             | Inr guestPort \<Rightarrow>
                 if guestPort < 1 \<or> guestPort > 65535 then bad_guest
                 else case atoi (trim_space (parts ! 2)) of
                        Inl _ \<Rightarrow> bad_host
                      | Inr hostPort \<Rightarrow>
                          if hostPort < 0 \<or> hostPort > 65535 then bad_host
                          else Inr \<lparr>spec_Name = name, spec_GuestPort = guestPort,
                                    spec_HostPort = hostPort\<rparr>)"

definition encodeForwardSpec :: "ForwardSpec \<Rightarrow> string" where
  "encodeForwardSpec spec =
     spec_Name spec @ '':'' @ itoa (spec_GuestPort spec) @ '':'' @ itoa (spec_HostPort spec)"

section \<open>The repeatable flag and its encoding\<close>

definition forwardSpecList_String :: "forwardSpecList \<Rightarrow> string" where
  "forwardSpecList_String list = join '','' (map encodeForwardSpec list)"

definition forwardSpecList_Set :: "forwardSpecList \<Rightarrow> string \<Rightarrow> forwardSpecList result" where
  "forwardSpecList_Set list v =
     (case parseForwardSpec v of
        Inl err \<Rightarrow> Inl err
      | Inr spec \<Rightarrow>
          if list_ex (\<lambda>existing. spec_Name existing = spec_Name spec) list
          then Inl (ErrorString (''forward name '' @ go_quote (spec_Name spec) @
                 '' is configured rest than once''))
          else Inr (list @ [spec]))"

text \<open>The loop over the entries: the first failing \<open>Set\<close> ends it.\<close>

fun set_entries :: "forwardSpecList \<Rightarrow> string list \<Rightarrow> forwardSpecList result" where
  "set_entries specs [] = Inr specs"
| "set_entries specs (entry # entries) =
     (case forwardSpecList_Set specs entry of
        Inl err \<Rightarrow> Inl err
      | Inr specs' \<Rightarrow> set_entries specs' entries)"

definition parseForwardSpecs :: "string \<Rightarrow> forwardSpecList result" where
  "parseForwardSpecs v =
     (if trim_space v = [] then Inr [] else set_entries [] (split_on CHR '','' v))"

section \<open>Well-formed specifications\<close>

definition valid_name :: "string \<Rightarrow> bool" where
  "valid_name name \<longleftrightarrow> name \<noteq> [] \<and> list_all name_character name"

definition valid_spec :: "ForwardSpec \<Rightarrow> bool" where
  "valid_spec spec \<longleftrightarrow> valid_name (spec_Name spec) \<and>
     1 \<le> spec_GuestPort spec \<and> spec_GuestPort spec \<le> 65535 \<and>
     0 \<le> spec_HostPort spec \<and> spec_HostPort spec \<le> 65535"

definition valid_specs :: "forwardSpecList \<Rightarrow> bool" where
  "valid_specs specs \<longleftrightarrow> list_all valid_spec specs \<and> distinct (map spec_Name specs)"

lemma name_character_graphic: "name_character c \<Longrightarrow> is_graphic c"
  by (auto simp: name_character_def is_graphic_def Let_def)

lemma name_character_no_sep:
  "name_character c \<Longrightarrow> c \<noteq> CHR '':'' \<and> c \<noteq> CHR '',''"
  by (auto simp: name_character_def Let_def)

lemma itoa_no_sep: "c \<in> set (itoa n) \<Longrightarrow> c \<noteq> CHR '':'' \<and> c \<noteq> CHR '',''"
  by (auto dest!: itoa_chars simp: is_digit_def)

lemma valid_name_no_sep:
  "valid_name s \<Longrightarrow> CHR '':'' \<notin> set s \<and> CHR '','' \<notin> set s"
  by (auto simp: valid_name_def list_all_iff dest: name_character_no_sep)

lemma valid_name_trim: "valid_name s \<Longrightarrow> trim_space s = s"
  by (rule trim_space_all_graphic)
     (auto simp: valid_name_def list_all_iff intro: name_character_graphic)

lemma split_encode:
  assumes "valid_name name"
  shows "split_on CHR '':'' (name @ '':'' @ itoa g @ '':'' @ itoa h) = [name, itoa g, itoa h]"
proof -
  have n: "CHR '':'' \<notin> set name" using valid_name_no_sep [OF assms] by blast
  have d: "CHR '':'' \<notin> set (itoa k)" for k using itoa_no_sep by blast
  show ?thesis
    using split_on_append [OF n, of "itoa g @ '':'' @ itoa h"] split_on_append [OF d, of g "itoa h"]
      split_on_none [OF d, of h] by simp
qed

lemma parseForwardSpec_encode:
  assumes "valid_name name"
  shows "parseForwardSpec (name @ '':'' @ itoa g @ '':'' @ itoa h) = Inr spec \<longleftrightarrow>
     spec = \<lparr>spec_Name = name, spec_GuestPort = g, spec_HostPort = h\<rparr> \<and> valid_spec spec"
proof -
  have atoi_port: "atoi (itoa k) = Inr k" if "0 \<le> k" "k \<le> 65535" for k
    using that by (intro atoi_itoa) (simp_all add: int64_min_def int64_max_def)
  have atoi_val: "k' = k" if "atoi (itoa k) = Inr k'" for k k'
    using that by (auto simp: atoi_def parse_int_def Let_def split_sign_itoa nat_text_digits
        split: if_splits)
  show ?thesis
    using assms unfolding parseForwardSpec_def split_encode [OF assms]
    by (auto simp: Let_def valid_name_trim valid_spec_def valid_name_def atoi_port
        split: if_splits sum.splits dest: atoi_val)
qed

lemma parseForwardSpec_valid: "parseForwardSpec v = Inr spec \<Longrightarrow> valid_spec spec"
  by (auto simp: parseForwardSpec_def Let_def valid_spec_def valid_name_def
      split: if_splits sum.splits)

lemma parse_encode_spec: "valid_spec spec \<Longrightarrow> parseForwardSpec (encodeForwardSpec spec) = Inr spec"
  using parseForwardSpec_encode [of "spec_Name spec"]
  by (simp add: encodeForwardSpec_def valid_spec_def)

interpretation spec: codec encodeForwardSpec parseForwardSpec valid_spec
  by unfold_locales (fact parse_encode_spec, fact parseForwardSpec_valid)

section \<open>Lists of specifications\<close>

lemma encodeForwardSpec_no_comma: "valid_spec s \<Longrightarrow> CHR '','' \<notin> set (encodeForwardSpec s)"
  by (auto simp: encodeForwardSpec_def valid_spec_def dest: valid_name_no_sep itoa_no_sep)

lemma configured_iff:
  "list_ex (\<lambda>existing. spec_Name existing = n) list \<longleftrightarrow> n \<in> set (map spec_Name list)"
  by (auto simp: list_ex_iff)

lemma forwardSpecList_Set_valid:
  "forwardSpecList_Set list v = Inr list' \<Longrightarrow> valid_specs list \<Longrightarrow> valid_specs list'"
  by (auto simp: forwardSpecList_Set_def valid_specs_def configured_iff simp del: set_map
      split: sum.splits if_splits dest: parseForwardSpec_valid)

lemma set_entries_valid:
  "set_entries specs es = Inr specs' \<Longrightarrow> valid_specs specs \<Longrightarrow> valid_specs specs'"
  by (induction es arbitrary: specs) (auto split: sum.splits dest: forwardSpecList_Set_valid)

lemma set_entries_encode:
  "valid_specs (specs @ rest) \<Longrightarrow>
     set_entries specs (map encodeForwardSpec rest) = Inr (specs @ rest)"
proof (induction rest arbitrary: specs)
  case Nil
  then show ?case by simp
next
  case (Cons s rest)
  from Cons.prems have "valid_spec s" and "spec_Name s \<notin> set (map spec_Name specs)"
    by (auto simp: valid_specs_def)
  then have "forwardSpecList_Set specs (encodeForwardSpec s) = Inr (specs @ [s])"
    by (simp add: forwardSpecList_Set_def parse_encode_spec configured_iff)
  with Cons show ?case by simp
qed

lemma valid_specs_Nil [simp]: "valid_specs []"
  by (simp add: valid_specs_def)

lemma encode_first_graphic:
  assumes "valid_spec s"
  shows "\<exists>c t. encodeForwardSpec s = c # t \<and> is_graphic c"
  using assms by (cases "spec_Name s")
    (auto simp: encodeForwardSpec_def valid_spec_def valid_name_def intro: name_character_graphic)

lemma join_hd: "p \<noteq> [] \<Longrightarrow> \<exists>t. join sep (p # ps) = hd p # t"
  by (cases ps; cases p) auto

lemma strip_seqs_not_Nil: "is_graphic c \<Longrightarrow> trim_space (c # t) \<noteq> []"
proof -
  assume g: "is_graphic c"
  have keep: "strip_seqs qs s \<noteq> []" if "d \<in> set s" "\<forall>q \<in> set qs. d \<notin> set q" for d qs s
    using that
  proof (induction qs s rule: strip_seqs.induct)
    case (1 qs s)
    show ?case
    proof (cases "find (\<lambda>q. q \<noteq> [] \<and> has_prefix q s) qs")
      case None
      with 1 show ?thesis by (subst strip_seqs.simps) auto
    next
      case (Some q)
      then have "q \<in> set qs" and "s = q @ drop (length q) s"
        by (auto simp: find_Some_iff has_prefix_iff)
      with 1 have "d \<in> set (drop (length q) s)" by (metis Un_iff set_append)
      with 1 Some show ?thesis by (subst strip_seqs.simps) simp
    qed
  qed
  have "\<forall>q \<in> set (map rev space_seqs). c \<notin> set q"
    using g by (auto simp: space_seqs_def is_graphic_def)
  then have "strip_seqs (map rev space_seqs) (rev (c # t)) \<noteq> []"
    by (intro keep [of c]) simp_all
  moreover have "strip_seqs space_seqs (c # t) = c # t"
    by (rule strip_seqs_graphic [OF g space_seqs_hd])
  ultimately show "trim_space (c # t) \<noteq> []" by (simp add: trim_space_def)
qed

lemma parse_String_specs:
  assumes "valid_specs specs"
  shows "parseForwardSpecs (forwardSpecList_String specs) = Inr specs"
proof (cases specs)
  case Nil
  then show ?thesis by (simp add: parseForwardSpecs_def forwardSpecList_String_def trim_space_def)
next
  case (Cons s rest)
  have "list_all valid_spec specs" using assms by (simp add: valid_specs_def)
  then have "split_on CHR '','' (join '','' (map encodeForwardSpec specs)) = map encodeForwardSpec specs"
    using Cons by (intro split_on_join) (auto simp: list_all_iff encodeForwardSpec_no_comma)
  moreover obtain c t where "encodeForwardSpec s = c # t" and g: "is_graphic c"
    using encode_first_graphic [of s] Cons assms by (auto simp: valid_specs_def)
  then obtain u where "forwardSpecList_String specs = c # u"
    using join_hd [of "encodeForwardSpec s" "'',''" "map encodeForwardSpec rest"]
    by (auto simp: forwardSpecList_String_def Cons)
  then have "trim_space (forwardSpecList_String specs) \<noteq> []"
    using strip_seqs_not_Nil [OF g] by simp
  ultimately show ?thesis
    using set_entries_encode [of "[]" specs] assms
    by (simp add: parseForwardSpecs_def forwardSpecList_String_def)
qed

lemma parseForwardSpecs_valid: "parseForwardSpecs v = Inr specs \<Longrightarrow> valid_specs specs"
  by (auto simp: parseForwardSpecs_def split: if_splits dest: set_entries_valid)

interpretation specs: codec forwardSpecList_String parseForwardSpecs valid_specs
  by unfold_locales (fact parse_String_specs, fact parseForwardSpecs_valid)

end
