(* ===== verification/Forward_Wire.thy ===== *)
theory Forward_Wire
  imports Json Forward_Spec
begin

text \<open>
  The messages of the control socket (\<open>forwardRequest\<close>, \<open>forwardResponse\<close> of
  \<open>launcher/mac/forward_commands.go\<close>) and the public \<open>ForwardState\<close> of \<open>forwarding.go\<close>, with the
  JSON form their struct tags give them, \<open>omitempty\<close> included. The lemmas show that the other end of
  the socket decodes exactly the message that was sent, and that whatever it decodes has numbers of
  64 bits.
\<close>

section \<open>Data\<close>

record ForwardState =
  state_HostIP :: string
  state_GuestPort :: int
  state_HostPort :: int

record forwardRequest =
  req_Request :: string
  req_Name :: string
  req_GuestPort :: int
  req_HostPort :: int
  req_HostIP :: string

text \<open>A nil map prints as \<open>null\<close>: an error response carries no map.\<close>

record forwardResponse =
  resp_Forwards :: "(string \<times> ForwardState) list option"
  resp_Error :: string

definition zero_state :: ForwardState where
  "zero_state = \<lparr>state_HostIP = [], state_GuestPort = 0, state_HostPort = 0\<rparr>"

definition zero_request :: forwardRequest where
  "zero_request = \<lparr>req_Request = [], req_Name = [], req_GuestPort = 0, req_HostPort = 0, req_HostIP = []\<rparr>"

definition zero_response :: forwardResponse where
  "zero_response = \<lparr>resp_Forwards = None, resp_Error = []\<rparr>"

section \<open>Encoding\<close>

definition encode_ForwardState :: "ForwardState \<Rightarrow> json" where
  "encode_ForwardState s = JObj
     [(''host_ip'', JStr (state_HostIP s)),
      (''guest_port'', json_int (state_GuestPort s)),
      (''host_port'', json_int (state_HostPort s))]"

definition encode_forwardRequest :: "forwardRequest \<Rightarrow> json" where
  "encode_forwardRequest r = JObj
     ([(''request'', JStr (req_Request r))] @
      (if req_Name r = [] then [] else [(''name'', JStr (req_Name r))]) @
      (if req_GuestPort r = 0 then [] else [(''guest_port'', json_int (req_GuestPort r))]) @
      (if req_HostPort r = 0 then [] else [(''host_port'', json_int (req_HostPort r))]) @
      (if req_HostIP r = [] then [] else [(''host_ip'', JStr (req_HostIP r))]))"

definition encode_forwards :: "(string \<times> ForwardState) list option \<Rightarrow> json" where
  "encode_forwards fs = (case fs of None \<Rightarrow> JNull | Some m \<Rightarrow> json_map encode_ForwardState m)"

definition encode_forwardResponse :: "forwardResponse \<Rightarrow> json" where
  "encode_forwardResponse r = JObj
     ([(''forwards'', encode_forwards (resp_Forwards r))] @
      (if resp_Error r = [] then [] else [(''error'', JStr (resp_Error r))]))"

text \<open>\<open>json.NewEncoder(w).Encode(v)\<close> ends the value with a newline.\<close>

definition encode_line :: "json \<Rightarrow> string" where
  "encode_line j = json_text j @ [CHR 0x0A]"

section \<open>Decoding\<close>

definition ForwardState_fields :: "(string \<times> ForwardState decoder) list" where
  "ForwardState_fields =
     [(''host_ip'', string_field (\<lambda>v s. s\<lparr>state_HostIP := v\<rparr>)),
      (''guest_port'', int_field (\<lambda>v s. s\<lparr>state_GuestPort := v\<rparr>)),
      (''host_port'', int_field (\<lambda>v s. s\<lparr>state_HostPort := v\<rparr>))]"

definition forwardRequest_fields :: "(string \<times> forwardRequest decoder) list" where
  "forwardRequest_fields =
     [(''request'', string_field (\<lambda>v s. s\<lparr>req_Request := v\<rparr>)),
      (''name'', string_field (\<lambda>v s. s\<lparr>req_Name := v\<rparr>)),
      (''guest_port'', int_field (\<lambda>v s. s\<lparr>req_GuestPort := v\<rparr>)),
      (''host_port'', int_field (\<lambda>v s. s\<lparr>req_HostPort := v\<rparr>)),
      (''host_ip'', string_field (\<lambda>v s. s\<lparr>req_HostIP := v\<rparr>))]"

definition decode_forwards :: "forwardResponse decoder" where
  "decode_forwards v r = (case v of
     JObj kvs \<Rightarrow> (let (m, e) = decode_entries (decode_struct ForwardState_fields) zero_state kvs
         (case resp_Forwards r of None \<Rightarrow> [] | Some m \<Rightarrow> m) in (r\<lparr>resp_Forwards := Some m\<rparr>, e))
   | JNull \<Rightarrow> (r\<lparr>resp_Forwards := None\<rparr>, None)
   | _ \<Rightarrow> (r, Some type_error))"

definition forwardResponse_fields :: "(string \<times> forwardResponse decoder) list" where
  "forwardResponse_fields =
     [(''forwards'', decode_forwards), (''error'', string_field (\<lambda>v s. s\<lparr>resp_Error := v\<rparr>))]"

definition decode_forwardRequest :: "string \<Rightarrow> forwardRequest result" where
  "decode_forwardRequest = decode_stream (decode_struct forwardRequest_fields) zero_request"

definition decode_forwardResponse :: "string \<Rightarrow> forwardResponse result" where
  "decode_forwardResponse = decode_stream (decode_struct forwardResponse_fields) zero_response"

section \<open>Both ends of the socket agree\<close>

definition int64 :: "int \<Rightarrow> bool" where
  "int64 n \<longleftrightarrow> int64_min \<le> n \<and> n \<le> int64_max"

lemma int64_0 [simp]: "int64 0"
  by (simp add: int64_def int64_min_def int64_max_def)

lemma int64_port: "0 \<le> n \<Longrightarrow> n \<le> 65535 \<Longrightarrow> int64 n"
  by (simp add: int64_def int64_min_def int64_max_def)

definition valid_request :: "forwardRequest \<Rightarrow> bool" where
  "valid_request r \<longleftrightarrow> int64 (req_GuestPort r) \<and> int64 (req_HostPort r)"

definition valid_state :: "ForwardState \<Rightarrow> bool" where
  "valid_state s \<longleftrightarrow> int64 (state_GuestPort s) \<and> int64 (state_HostPort s)"

definition valid_forwards :: "(string \<times> ForwardState) list \<Rightarrow> bool" where
  "valid_forwards m \<longleftrightarrow> distinct (map fst m) \<and> (\<forall>(k, s) \<in> set m. valid_state s)"

lemma int_field_int64 [wire_simps]:
  "int64 n \<Longrightarrow> int_field upd (json_int n) st = (upd n st, None)"
  by (simp add: int64_def int_field_json_int)

lemma valid_json_state [simp]: "valid_json (encode_ForwardState s)"
  by (simp add: encode_ForwardState_def)

lemma valid_json_request [simp]: "valid_json (encode_forwardRequest r)"
  by (auto simp: encode_forwardRequest_def)

lemma valid_json_forwards [simp]: "valid_json (json_map encode_ForwardState m)"
  by (rule valid_json_map) simp

lemma valid_json_response [simp]: "valid_json (encode_forwardResponse r)"
  by (auto simp: encode_forwardResponse_def encode_forwards_def split: option.split)

lemma decode_state_encode:
  "valid_state s \<Longrightarrow> decode_struct ForwardState_fields (encode_ForwardState s) zero_state = (s, None)"
  by (simp add: encode_ForwardState_def ForwardState_fields_def decode_struct_def find_field_def
      string_field_def first_error_def valid_state_def int_field_int64 zero_state_def)

lemma decode_request_fields:
  "valid_request r \<Longrightarrow>
     decode_struct forwardRequest_fields (encode_forwardRequest r) zero_request = (r, None)"
  by (cases r) (auto simp: encode_forwardRequest_def forwardRequest_fields_def decode_struct_def
      find_field_def string_field_def first_error_def valid_request_def int_field_int64 zero_request_def)

lemma decode_request_encode:
  "valid_request r \<Longrightarrow> decode_forwardRequest (encode_line (encode_forwardRequest r)) = Inr r"
  by (simp add: decode_forwardRequest_def encode_line_def decode_stream_text decode_request_fields
      decode_result_def)

lemma decode_fields_inv:
  "(\<And>n d v st. (n, d) \<in> set flds \<Longrightarrow> I st \<Longrightarrow> I (fst (d v st))) \<Longrightarrow> I st \<Longrightarrow>
     I (fst (decode_fields flds kvs st))"
proof (induction flds kvs st rule: decode_fields.induct)
  case (2 flds k v kvs st)
  have field: "\<exists>n. (n, d) \<in> set flds" if "find_field flds k = Some d" for d
    using that by (auto simp: find_field_def find_Some_iff split: option.splits
        dest: map_of_SomeD) (metis nth_mem surjective_pairing)
  show ?case
  proof (cases "find_field flds k")
    case None
    with "2.IH"(1) "2.prems" show ?thesis by simp
  next
    case (Some d)
    obtain st1 e1 where d: "d v st = (st1, e1)" by (cases "d v st")
    have "I st1" using field [OF Some] "2.prems" d by (metis fst_conv)
    with "2.IH"(2) [OF Some d [symmetric] refl] "2.prems"(1) Some d show ?thesis
      by (auto simp: split_beta)
  qed
qed simp

lemma decode_struct_inv:
  assumes "\<And>n d v st. (n, d) \<in> set flds \<Longrightarrow> I st \<Longrightarrow> I (fst (d v st))" and "I st"
  shows "I (fst (decode_struct flds v st))"
  using decode_fields_inv [of flds I] assms by (auto simp: decode_struct_def split: json.split)

lemma parse_int_int64: "parse_int fn s = Inr n \<Longrightarrow> int64 n"
  by (auto simp: parse_int_def Let_def int64_def split: prod.splits if_splits)

lemma request_field_inv:
  "(n, d) \<in> set forwardRequest_fields \<Longrightarrow> valid_request st \<Longrightarrow> valid_request (fst (d v st))"
  by (auto simp: forwardRequest_fields_def valid_request_def string_field_def int_field_def
      split: json.split sum.split dest: parse_int_int64)

lemma decode_request_valid: "decode_forwardRequest t = Inr r \<Longrightarrow> valid_request r"
proof -
  assume "decode_forwardRequest t = Inr r"
  then obtain v where "fst (decode_struct forwardRequest_fields v zero_request) = r"
    by (auto simp: decode_forwardRequest_def decode_stream_def decode_result_def
        split: sum.splits prod.splits option.splits) (metis fst_conv)
  moreover have "valid_request zero_request" by (simp add: valid_request_def zero_request_def)
  ultimately show "valid_request r"
    using decode_struct_inv [of forwardRequest_fields valid_request zero_request v]
      request_field_inv by blast
qed

interpretation request_wire: codec "\<lambda>r. encode_line (encode_forwardRequest r)" decode_forwardRequest
  valid_request
  by unfold_locales (fact decode_request_encode, fact decode_request_valid)

text \<open>A response is decoded with its map in key order.\<close>

lemma decode_response_encode:
  assumes "\<forall>m. resp_Forwards r = Some m \<longrightarrow> valid_forwards m"
  shows "decode_forwardResponse (encode_line (encode_forwardResponse r)) =
     Inr (r\<lparr>resp_Forwards := map_option (sort_key fst) (resp_Forwards r)\<rparr>)"
proof -
  have m: "decode_entries (decode_struct ForwardState_fields) zero_state
      (map (\<lambda>(k, v). (k, encode_ForwardState v)) (sort_key fst m)) [] = (sort_key fst m, None)"
    if "resp_Forwards r = Some m" for m
    using assms that by (intro decode_entries_json_map)
      (auto simp: valid_forwards_def intro!: decode_state_encode)
  have "decode_struct forwardResponse_fields (encode_forwardResponse r) zero_response =
      (r\<lparr>resp_Forwards := map_option (sort_key fst) (resp_Forwards r)\<rparr>, None)"
    using m by (cases r; cases "resp_Forwards r")
      (auto simp: encode_forwardResponse_def forwardResponse_fields_def decode_struct_def
        find_field_def string_field_def first_error_def decode_forwards_def encode_forwards_def
        json_map_def zero_response_def)
  then show ?thesis
    by (simp add: decode_forwardResponse_def encode_line_def decode_stream_text decode_result_def)
qed

end
