(* ===== verification/Vm_State.thy ===== *)
theory Vm_State
  imports Os Forward_Wire
begin

text \<open>
  Writing \<open>vm-state.json\<close> (\<open>writeVMState\<close> of \<open>launcher/mac/forward_commands.go\<close>): the new content
  goes to a temporary file beside it, which replaces the old file by a rename. The lemmas give the
  two outcomes for every pattern of system failures: on success the file holds exactly the data, on
  an error it is untouched, and no reader sees anything else in between.
\<close>

section \<open>The atomic write\<close>

definition vm_state :: path where
  "vm_state = ''vm-state.json''"

definition temp_prefix :: string where
  "temp_prefix = ''.vm-state-''"

definition writeVMState :: "string \<Rightarrow> ('z, unit) os" where
  "writeVMState data =
     andThen (os_CreateTemp temp_prefix) (\<lambda>name.
       deferring
         (deferring
           (andThen (file_Write name data) (\<lambda>_.
            andThen (file_Chmod name 420) (\<lambda>_.
            andThen (file_Close name) (\<lambda>_.
              os_Rename name vm_state))))
           (file_Close name))
         (os_Remove name))"

section \<open>Its two outcomes\<close>

definition temps :: "path set" where
  "temps = {p. has_prefix temp_prefix p}"

lemma vm_state_not_temp [simp]: "vm_state \<notin> temps"
  by (simp add: temps_def vm_state_def temp_prefix_def has_prefix_def)

text \<open>The world \<open>w\<close> differs from \<open>w0\<close> only by temporary files and by \<open>vm-state.json\<close>, which
  holds \<open>data\<close> now and was either old or new at every moment in between.\<close>

definition replaced :: "string \<Rightarrow> 'z world_scheme \<Rightarrow> 'z world_scheme \<Rightarrow> bool" where
  "replaced data w0 w \<longleftrightarrow> listeners w = listeners w0 \<and> world.more w = world.more w0 \<and> busy w = busy w0 \<and>
     (\<forall>p. p \<notin> insert vm_state temps \<longrightarrow> files w p = files w0 p) \<and>
     files w vm_state = Some (text_file data 420) \<and>
     (\<exists>h. history w = h @ history w0 \<and>
        (\<forall>f \<in> set h. f vm_state = files w0 vm_state \<or> f vm_state = Some (text_file data 420)) \<and>
        (\<forall>f \<in> set h. \<forall>p. p \<notin> insert vm_state temps \<longrightarrow> f p = files w0 p))"

lemma untouched_refl: "untouched A w w"
  by (rule untouched.R_refl)

lemma triple_keeps:
  assumes "keeps (untouched A) m"
  shows "triple (untouched A w0) m (\<lambda>_. untouched A w0) (\<lambda>_. untouched A w0)"
  by (rule tripleI) (metis assms keepsD_eq untouched.R_trans)+

lemma replaced_untouched:
  assumes r: "replaced data w0 w" and u: "untouched temps w w'"
  shows "replaced data w0 w'"
proof -
  obtain h where h: "history w = h @ history w0"
    "\<forall>f \<in> set h. f vm_state = files w0 vm_state \<or> f vm_state = Some (text_file data 420)"
    "\<forall>f \<in> set h. \<forall>p. p \<notin> insert vm_state temps \<longrightarrow> f p = files w0 p"
    using r by (auto simp: replaced_def)
  obtain h' where h': "history w' = h' @ history w" "\<forall>f \<in> set h'. \<forall>p. p \<notin> temps \<longrightarrow> f p = files w p"
    using u by (auto simp: untouched_def)
  have "history w' = (h' @ h) @ history w0" using h h' by simp
  moreover have "f vm_state = files w0 vm_state \<or> f vm_state = Some (text_file data 420)"
    and "\<forall>p. p \<notin> insert vm_state temps \<longrightarrow> f p = files w0 p" if "f \<in> set (h' @ h)" for f
    using that h h'(2) r by (auto simp: replaced_def)
  ultimately show ?thesis using r u unfolding replaced_def untouched_def by auto
qed

lemma triple_replaced:
  assumes "keeps (untouched temps) m"
  shows "triple (replaced data w0) m (\<lambda>_. replaced data w0) (\<lambda>_. replaced data w0)"
  by (rule tripleI) (metis assms keepsD_eq replaced_untouched)+

text \<open>While the temporary file is being written.\<close>

definition writing :: "'z world_scheme \<Rightarrow> path \<Rightarrow> string \<Rightarrow> nat \<Rightarrow> 'z world_scheme \<Rightarrow> bool" where
  "writing w0 name data mode w \<longleftrightarrow> name \<in> temps \<and> untouched temps w0 w \<and>
     files w name = Some (text_file data mode)"

lemma triple_CreateTemp:
  "triple (\<lambda>w. w = w0) (os_CreateTemp temp_prefix)
     (\<lambda>name. writing w0 name [] 384) (\<lambda>_. untouched temps w0)"
proof (rule tripleI)
  fix w name w' assume "w = w0" and "os_CreateTemp temp_prefix w = (Inr name, w')"
  then have t: "temp_name w0 temp_prefix 0 10000 = Some name"
    and w': "w' = called (put name (Some (File [] 0 384)) w0)"
    by (auto simp: os_CreateTemp_def split: option.splits)
  have "name \<in> temps" using temp_name_Some [OF t] by (simp add: temps_def)
  moreover have "untouched temps w0 w'"
    using \<open>name \<in> temps\<close> unfolding w' by (intro untouchedI [where h = "[files w']"]) (auto simp: w')
  ultimately show "writing w0 name [] 384 w'" by (simp add: writing_def w' text_file_def)
next
  fix w e w' assume "w = w0" and "os_CreateTemp temp_prefix w = (Inl e, w')"
  then have "w' = called w0" by (auto simp: os_CreateTemp_def split: option.splits)
  then show "untouched temps w0 w'" by (intro untouchedI [where h = "[files w0]"]) auto
qed

lemma writing_step:
  assumes "keeps (untouched temps) m" and "writing w0 name d mode w"
    and "m w = (r, w')" and "files w' name = Some (text_file d' mode')"
  shows "writing w0 name d' mode' w'"
  using assms keepsD_eq untouched.R_trans unfolding writing_def by metis

lemma triple_writing:
  assumes "name \<in> temps \<Longrightarrow> keeps (untouched temps) m"
    and "\<And>w x w'. files w name = Some (text_file d mode) \<Longrightarrow> m w = (Inr x, w') \<Longrightarrow>
       files w' name = Some (text_file d' mode')"
  shows "triple (writing w0 name d mode) m (\<lambda>_. writing w0 name d' mode') (\<lambda>_. untouched temps w0)"
proof (rule tripleI)
  fix w x w' assume w: "writing w0 name d mode w" and m: "m w = (Inr x, w')"
  then have n: "name \<in> temps" and "files w name = Some (text_file d mode)" by (auto simp: writing_def)
  then show "writing w0 name d' mode' w'"
    by (intro writing_step [OF assms(1) w m] assms(2) [OF _ m])
next
  fix w e w' assume "writing w0 name d mode w" and "m w = (Inl e, w')"
  with assms(1) show "untouched temps w0 w'"
    unfolding writing_def by (metis keepsD_eq untouched.R_trans)
qed

lemma triple_Rename:
  "triple (writing w0 name data 420) (os_Rename name vm_state)
     (\<lambda>_. replaced data w0) (\<lambda>_. untouched temps w0)"
proof (rule tripleI)
  fix w x w' assume wr: "writing w0 name data 420 w" and "os_Rename name vm_state w = (Inr x, w')"
  then have w': "w' = called (put vm_state (Some (text_file data 420)) (put name None w))"
    by (auto simp: os_Rename_def writing_def Let_def split: option.splits if_splits)
  obtain h where h: "history w = h @ history w0" "\<forall>f \<in> set h. \<forall>p. p \<notin> temps \<longrightarrow> f p = files w0 p"
    using wr by (auto simp: writing_def untouched_def)
  have "history w' = (files w' # h) @ history w0" by (simp add: w' h)
  then show "replaced data w0 w'"
    using wr h(2) unfolding replaced_def writing_def untouched_def
    by (intro conjI exI [of _ "files w' # h"]) (auto simp: w')
next
  fix w e w' assume wr: "writing w0 name data 420 w" and "os_Rename name vm_state w = (Inl e, w')"
  then have "w' = called w"
    by (auto simp: os_Rename_def writing_def Let_def split: option.splits if_splits)
  then have "untouched temps w w'" by (intro untouchedI [where h = "[files w]"]) auto
  with wr show "untouched temps w0 w'" unfolding writing_def by (blast intro: untouched.R_trans)
qed

lemma triple_writeVMState:
  "triple (\<lambda>w. w = w0) (writeVMState data) (\<lambda>_. replaced data w0) (\<lambda>_. untouched temps w0)"
  unfolding writeVMState_def
proof (rule triple_andThen [OF triple_CreateTemp])
  fix name
  show "triple (writing w0 name [] 384)
     (deferring (deferring (andThen (file_Write name data) (\<lambda>_. andThen (file_Chmod name 420) (\<lambda>_.
        andThen (file_Close name) (\<lambda>_. os_Rename name vm_state)))) (file_Close name)) (os_Remove name))
     (\<lambda>_. replaced data w0) (\<lambda>_. untouched temps w0)"
  proof (cases "name \<in> temps")
    case False
    then show ?thesis by (simp add: triple_def writing_def)
  next
    case True
    have body: "triple (writing w0 name [] 384) (andThen (file_Write name data) (\<lambda>_.
        andThen (file_Chmod name 420) (\<lambda>_. andThen (file_Close name) (\<lambda>_. os_Rename name vm_state))))
        (\<lambda>_. replaced data w0) (\<lambda>_. untouched temps w0)"
    proof (intro triple_andThen)
      show "triple (writing w0 name [] 384) (file_Write name data) (\<lambda>_. writing w0 name data 384)
          (\<lambda>_. untouched temps w0)"
        using untouched_writes(3) by (rule triple_writing)
          (auto simp: file_Write_def text_file_def split: option.splits)
      show "triple (writing w0 name data 384) (file_Chmod name 420) (\<lambda>_. writing w0 name data 420)
          (\<lambda>_. untouched temps w0)"
        using untouched_writes(4) by (rule triple_writing)
          (auto simp: file_Chmod_def text_file_def split: option.splits)
      show "triple (writing w0 name data 420) (file_Close name) (\<lambda>_. writing w0 name data 420)
          (\<lambda>_. untouched temps w0)"
        using untouched_reads(3) by (rule triple_writing)
          (auto simp: file_Close_def split: option.splits)
      show "triple (writing w0 name data 420) (os_Rename name vm_state) (\<lambda>_. replaced data w0)
          (\<lambda>_. untouched temps w0)"
        by (rule triple_Rename)
    qed
    have k: "keeps (untouched temps) (file_Close name)" "keeps (untouched temps) (os_Remove name)"
      using True by (auto intro: keeps_intros)
    show ?thesis
      by (rule triple_deferring [OF triple_deferring [OF body triple_replaced triple_keeps]
            triple_replaced triple_keeps]) (fact k)+
  qed
qed

lemma writeVMState_ok: "writeVMState data w = (Inr u, w') \<Longrightarrow> replaced data w w'"
  using triple_Inr [OF triple_writeVMState] by blast

lemma writeVMState_error: "writeVMState data w = (Inl e, w') \<Longrightarrow> untouched temps w w'"
  using triple_Inl [OF triple_writeVMState] by blast

section \<open>Operations on files leave the process alone\<close>

definition same_process :: "'z world_scheme \<Rightarrow> 'z world_scheme \<Rightarrow> bool" where
  "same_process w w' \<longleftrightarrow> listeners w' = listeners w \<and> world.more w' = world.more w \<and> busy w' = busy w"

interpretation same_process: world_relation same_process
  by unfold_locales (auto simp: same_process_def)

lemma untouched_same_process: "keeps (untouched A) m \<Longrightarrow> keeps same_process m"
  by (simp add: keeps_def untouched_def same_process_def)

lemma same_process_files [keeps_intros]:
  "keeps same_process (os_ReadFile p)" "keeps same_process (os_Stat p)"
  "keeps same_process (os_Remove p)" "keeps same_process (os_WriteFile p data mode)"
  by (rule untouched_same_process [where A = UNIV], rule keeps_intros, (simp; fail)?)+

lemma same_process_writeVMState [keeps_intros]: "keeps same_process (writeVMState data)"
  unfolding keeps_def
proof
  fix w
  obtain r w' where run: "writeVMState data w = (r, w')" by (cases "writeVMState data w")
  show "same_process w (snd (writeVMState data w))"
    using writeVMState_ok [of data w _ w'] writeVMState_error [of data w _ w'] run
    by (cases r) (auto simp: replaced_def untouched_def same_process_def)
qed

lemma same_faults_writeVMState [keeps_intros]: "keeps same_faults (writeVMState data)"
  unfolding writeVMState_def by (intro same_faults.keeps_rules keeps_intros)

section \<open>Without failures\<close>

text \<open>A system that fails no call.\<close>

definition no_faults :: "'z world_scheme \<Rightarrow> bool" where
  "no_faults w \<longleftrightarrow> (\<forall>n. faults w n = None)"

lemma no_faults_called [simp]: "no_faults (called w) = no_faults w"
  and no_faults_put [simp]: "no_faults (put p n w) = no_faults w"
  by (simp_all add: no_faults_def put_def)

lemma no_faultsD [simp]: "no_faults w \<Longrightarrow> faults w n = None"
  by (simp add: no_faults_def)

lemma temp_name_free:
  assumes "files w (prefix @ nat_text (rands w (tick w) 0)) = None"
  shows "temp_name w prefix 0 10000 = Some (prefix @ nat_text (rands w (tick w) 0))"
  by (subst temp_name.simps) (simp add: assms Let_def)

lemma writeVMState_succeeds:
  assumes "no_faults w" and "files w (temp_prefix @ nat_text (rands w (tick w) 0)) = None"
    and "files w vm_state \<noteq> Some Dir"
  shows "fst (writeVMState data w) = Inr ()"
proof -
  let ?n = "temp_prefix @ nat_text (rands w (tick w) 0)"
  have "has_prefix temp_prefix ?n" by (simp add: has_prefix_def)
  then have n: "?n \<noteq> vm_state" using vm_state_not_temp unfolding temps_def by (metis mem_Collect_eq)
  show ?thesis
    using assms n temp_name_free [OF assms(2)]
    by (simp add: writeVMState_def os_CreateTemp_def andThen_def deferring_def file_Write_def
        file_Chmod_def file_Close_def os_Rename_def Let_def text_file_def prod.case_eq_if split: option.split)
qed

lemma os_WriteFile_succeeds:
  assumes "no_faults w" and "files w p \<noteq> Some Dir" and "dir_exists w (path_dir p)"
  shows "fst (os_WriteFile p data mode w) = Inr ()"
  using assms
  by (auto simp: os_WriteFile_def os_open_trunc_def file_Write_def file_Close_def andThen_def attempt_def
      lift_def split: option.split node.split)

end
