(* ===== verification/Net_Addr.thy ===== *)
theory Net_Addr
  imports Go_Text
begin

text \<open>
  The part of \<open>net\<close> and \<open>net/netip\<close> the launcher relies on to keep its listeners on the loopback
  interface: \<open>net.ParseIP\<close>, \<open>IP.IsLoopback\<close>, \<open>IP.String\<close> and \<open>net.JoinHostPort\<close>. An address is
  its 16 bytes, an IPv4 address in the IPv4-mapped form. The main lemma says that the canonical text
  of a loopback address parses to the same address, so a host address taken from a reported mapping
  names the same listener again.
\<close>

section \<open>Parsing\<close>

type_synonym ip = "nat list"

text \<open>\<open>parseIPv4Fields\<close>: the fields read so far, the value and the digit count of the current one.\<close>

fun ipv4_loop :: "string \<Rightarrow> nat list \<Rightarrow> nat \<Rightarrow> nat \<Rightarrow> nat list option" where
  "ipv4_loop [] fields val digLen = (if length fields < 3 then None else Some (fields @ [val]))"
| "ipv4_loop (c # s) fields val digLen =
     (if is_digit c then
        if digLen = 1 \<and> val = 0 then None
        else let val' = val * 10 + digit_val c in
          if val' > 255 then None else ipv4_loop s fields val' (digLen + 1)
      else if c = CHR ''.'' then
        if digLen = 0 \<or> s = [] then None
        else if length fields = 3 then None
        else ipv4_loop s (fields @ [val]) 0 0
      else None)"

definition parse_ipv4 :: "string \<Rightarrow> nat list option" where
  "parse_ipv4 s = ipv4_loop s [] 0 0"

definition hex_digit :: "char \<Rightarrow> nat option" where
  "hex_digit c = (let n = of_char c :: nat in
     if is_digit c then Some (n - 48)
     else if 97 \<le> n \<and> n \<le> 102 then Some (n - 87)
     else if 65 \<le> n \<and> n \<le> 70 then Some (n - 55) else None)"

definition hex_value :: "string \<Rightarrow> nat" where
  "hex_value s = foldl (\<lambda>acc c. 16 * acc + (case hex_digit c of Some d \<Rightarrow> d | None \<Rightarrow> 0)) 0 s"

text \<open>The group loop of \<open>parseIPv6\<close>: at most eight groups; the position of \<open>::\<close> once it is seen.\<close>

fun ipv6_loop :: "nat \<Rightarrow> string \<Rightarrow> nat list \<Rightarrow> nat option \<Rightarrow> (string \<times> nat list \<times> nat option) option" where
  "ipv6_loop 0 s ip ellipsis = Some (s, ip, ellipsis)"
| "ipv6_loop (Suc n) s ip ellipsis =
     (let hs = takeWhile (\<lambda>c. hex_digit c \<noteq> None) s; t = drop (length hs) s in
      if hs = [] \<or> length hs > 4 then None
      else if t \<noteq> [] \<and> hd t = CHR ''.'' then
        if ellipsis = None \<and> length ip \<noteq> 12 then None
        else if length ip + 4 > 16 then None
        else (case parse_ipv4 s of None \<Rightarrow> None | Some fs \<Rightarrow> Some ([], ip @ fs, ellipsis))
      else
        let ip' = ip @ [hex_value hs div 256, hex_value hs mod 256] in
        case t of
          [] \<Rightarrow> Some ([], ip', ellipsis)
        | c # u \<Rightarrow>
            if c \<noteq> CHR '':'' \<or> u = [] then None
            else if hd u = CHR '':'' then
              if ellipsis \<noteq> None then None
              else if tl u = [] then Some ([], ip', Some (length ip'))
              else ipv6_loop n (tl u) ip' (Some (length ip'))
            else ipv6_loop n u ip' ellipsis)"

definition ipv6_finish :: "string \<times> nat list \<times> nat option \<Rightarrow> ip option" where
  "ipv6_finish r = (case r of (s, ip, ellipsis) \<Rightarrow>
     if s \<noteq> [] then None
     else if length ip < 16 then
       (case ellipsis of None \<Rightarrow> None
        | Some e \<Rightarrow> Some (take e ip @ replicate (16 - length ip) 0 @ drop e ip))
     else if ellipsis \<noteq> None then None else Some ip)"

definition parse_ipv6 :: "string \<Rightarrow> ip option" where
  "parse_ipv6 s =
     (if take 2 s = ''::'' then
        if drop 2 s = [] then Some (replicate 16 0)
        else Option.bind (ipv6_loop 8 (drop 2 s) [] (Some 0)) ipv6_finish
      else Option.bind (ipv6_loop 8 s [] None) ipv6_finish)"

text \<open>The first of \<open>.\<close>, \<open>:\<close> and \<open>%\<close> selects the family; \<open>net.ParseIP\<close> accepts no zone.\<close>

definition ParseIP :: "string \<Rightarrow> ip option" where
  "ParseIP s =
     (if CHR ''%'' \<in> set s then None
      else case find (\<lambda>c. c = CHR ''.'' \<or> c = CHR '':'') s of
        None \<Rightarrow> None
      | Some c \<Rightarrow>
          if c = CHR ''.'' then
            map_option (\<lambda>fs. replicate 10 0 @ [255, 255] @ fs) (parse_ipv4 s)
          else parse_ipv6 s)"

section \<open>Loopback and canonical text\<close>

definition To4 :: "ip \<Rightarrow> nat list option" where
  "To4 ip = (if take 12 ip = replicate 10 0 @ [255, 255] then Some (drop 12 ip) else None)"

definition IPv6loopback :: ip where
  "IPv6loopback = replicate 15 0 @ [1]"

definition IsLoopback :: "ip \<Rightarrow> bool" where
  "IsLoopback ip = (case To4 ip of Some b \<Rightarrow> b \<noteq> [] \<and> hd b = 127 | None \<Rightarrow> ip = IPv6loopback)"

fun hex_text :: "nat \<Rightarrow> string" where
  "hex_text n = (if n < 16 then [hex_char n] else hex_text (n div 16) @ [hex_char (n mod 16)])"

declare hex_text.simps [simp del]

fun groups :: "nat list \<Rightarrow> nat list" where
  "groups (a # b # s) = (256 * a + b) # groups s"
| "groups _ = []"

definition zero_run :: "nat list \<Rightarrow> nat \<Rightarrow> nat" where
  "zero_run gs i = length (takeWhile (\<lambda>g. g = 0) (drop i gs))"

text \<open>Start and length of the longest run of at least two zero groups, the first such run.\<close>

definition longest_zeros :: "nat list \<Rightarrow> nat \<times> nat" where
  "longest_zeros gs = foldl (\<lambda>(st, len) i. let l = zero_run gs i in
     if 2 \<le> l \<and> len < l then (i, l) else (st, len)) (0, 0) [0, 1, 2, 3, 4, 5, 6, 7]"

definition IP_String :: "ip \<Rightarrow> string" where
  "IP_String ip = (case To4 ip of
     Some b \<Rightarrow> join ''.'' (map nat_text b)
   | None \<Rightarrow> (let gs = groups ip; (st, len) = longest_zeros gs in
       if len = 0 then join '':'' (map hex_text gs)
       else join '':'' (map hex_text (take st gs)) @ ''::'' @
            join '':'' (map hex_text (drop (st + len) gs))))"

text \<open>\<open>net.JoinHostPort\<close> puts an address that holds a colon in brackets.\<close>

definition JoinHostPort :: "string \<Rightarrow> string \<Rightarrow> string" where
  "JoinHostPort host port =
     (if CHR '':'' \<in> set host then ''['' @ host @ '']:'' @ port else host @ '':'' @ port)"

section \<open>Well-formed addresses\<close>

definition valid_ip :: "ip \<Rightarrow> bool" where
  "valid_ip ip \<longleftrightarrow> length ip = 16 \<and> list_all (\<lambda>b. b < 256) ip"

lemma ipv4_loop_bytes:
  "ipv4_loop s fields val digLen = Some fs \<Longrightarrow> val < 256 \<Longrightarrow> list_all (\<lambda>b. b < 256) fields \<Longrightarrow>
     length fields \<le> 3 \<Longrightarrow> length fs = 4 \<and> list_all (\<lambda>b. b < 256) fs"
  by (induction s fields val digLen rule: ipv4_loop.induct)
     (auto simp: Let_def split: if_splits)

lemma parse_ipv4_bytes: "parse_ipv4 s = Some fs \<Longrightarrow> length fs = 4 \<and> list_all (\<lambda>b. b < 256) fs"
  unfolding parse_ipv4_def by (rule ipv4_loop_bytes) auto

text \<open>Decimal fields are read back.\<close>

lemma ipv4_loop_digit:
  "d < 10 \<Longrightarrow> ipv4_loop (digit_char d # s) fields v n =
     (if n = 1 \<and> v = 0 then None else if v * 10 + d > 255 then None
      else ipv4_loop s fields (v * 10 + d) (n + 1))"
  by (simp add: Let_def)

lemma ipv4_loop_nat_text:
  assumes "n < 256"
  shows "\<exists>k > 0. ipv4_loop (nat_text n @ s) fields 0 0 = ipv4_loop s fields n k"
proof -
  consider (one) "n < 10" | (two) "10 \<le> n" "n < 100" | (three) "100 \<le> n" by linarith
  then show ?thesis
  proof cases
    case one
    then have "nat_text n = [digit_char n]" by (subst nat_text.simps) simp
    with one show ?thesis by (simp add: ipv4_loop_digit del: ipv4_loop.simps) auto
  next
    case two
    then have "n div 10 < 10" and nz: "n div 10 > 0" by auto
    then have "nat_text n = [digit_char (n div 10), digit_char (n mod 10)]"
      using two by (subst nat_text.simps, subst nat_text.simps) simp
    moreover have "n div 10 * 10 + n mod 10 = n" by simp
    ultimately show ?thesis
      using assms two nz by (simp add: ipv4_loop_digit del: ipv4_loop.simps) auto
  next
    case three
    then have h: "n div 100 < 10" "n div 100 > 0" "n div 10 div 10 = n div 100"
      using assms by (auto simp: div_mult2_eq [symmetric])
    then have "nat_text n = [digit_char (n div 100), digit_char (n div 10 mod 10), digit_char (n mod 10)]"
      using three by (subst nat_text.simps, subst nat_text.simps, subst nat_text.simps) simp
    moreover have "(n div 100 * 10 + n div 10 mod 10) * 10 + n mod 10 = n"
      using h(3) by (metis div_mult_mod_eq)
    moreover have "n div 100 * 10 + n div 10 mod 10 \<le> 255" using assms three by auto
    ultimately show ?thesis
      using assms h(2) by (simp add: ipv4_loop_digit del: ipv4_loop.simps) auto
  qed
qed

lemma ipv4_loop_field:
  assumes "n < 256" and "length fields < 3" and "s \<noteq> []"
  shows "ipv4_loop (nat_text n @ CHR ''.'' # s) fields 0 0 = ipv4_loop s (fields @ [n]) 0 0"
proof -
  obtain k where "k > 0" and k: "ipv4_loop (nat_text n @ CHR ''.'' # s) fields 0 0 = ipv4_loop (CHR ''.'' # s) fields n k"
    using ipv4_loop_nat_text [OF assms(1)] by blast
  then show ?thesis using assms by (simp add: is_digit_def)
qed

lemma parse_ipv4_text:
  assumes "a < 256" "b < 256" "c < 256" "d < 256"
  shows "parse_ipv4 (join ''.'' (map nat_text [a, b, c, d])) = Some [a, b, c, d]"
proof -
  obtain k where "ipv4_loop (nat_text d @ []) [a, b, c] 0 0 = ipv4_loop [] [a, b, c] d k"
    using ipv4_loop_nat_text [OF assms(4)] by blast
  then show ?thesis using assms by (simp add: parse_ipv4_def ipv4_loop_field)
qed

lemma hex_value_bound: "length hs \<le> 4 \<Longrightarrow> hex_value hs < 65536"
proof -
  have d: "(case hex_digit c of Some d \<Rightarrow> d | None \<Rightarrow> 0) < 16" for c
    by (auto simp: hex_digit_def is_digit_def Let_def)
  have "foldl (\<lambda>acc c. 16 * acc + (case hex_digit c of Some d \<Rightarrow> d | None \<Rightarrow> 0)) acc hs
      < (acc + 1) * 16 ^ length hs" for acc
  proof (induction hs arbitrary: acc)
    case (Cons c hs)
    let ?d = "case hex_digit c of Some d \<Rightarrow> d | None \<Rightarrow> 0"
    have "foldl (\<lambda>acc c. 16 * acc + (case hex_digit c of Some d \<Rightarrow> d | None \<Rightarrow> 0)) acc (c # hs)
        < (16 * acc + ?d + 1) * 16 ^ length hs"
      using Cons.IH [of "16 * acc + ?d"] by simp
    also have "\<dots> \<le> (16 * (acc + 1)) * 16 ^ length hs"
      using d [of c] by (intro mult_right_mono) auto
    finally show ?case by (simp add: algebra_simps)
  qed simp
  from this [of 0] have "hex_value hs < 16 ^ length hs" by (simp add: hex_value_def)
  moreover assume "length hs \<le> 4"
  then have "(16::nat) ^ length hs \<le> 16 ^ 4" by (intro power_increasing) auto
  ultimately show ?thesis by simp
qed

lemma ipv6_loop_bytes:
  "ipv6_loop n s ip e = Some (s', ip', e') \<Longrightarrow> list_all (\<lambda>b. b < 256) ip \<Longrightarrow>
     length ip + 2 * n \<le> 16 \<Longrightarrow> list_all (\<lambda>b. b < 256) ip' \<and> length ip' \<le> 16"
proof (induction n s ip e rule: ipv6_loop.induct)
  case (2 n s ip e)
  let ?hs = "takeWhile (\<lambda>c. hex_digit c \<noteq> None) s"
  have "length ?hs \<le> 4 \<Longrightarrow> hex_value ?hs div 256 < 256"
    using hex_value_bound [of ?hs] by (simp add: less_mult_imp_div_less)
  with 2 show ?case
    by (auto simp: Let_def split: if_splits list.splits option.splits dest!: parse_ipv4_bytes)
qed auto

lemma ParseIP_valid: "ParseIP s = Some ip \<Longrightarrow> valid_ip ip"
proof -
  have fin: "valid_ip r" if "ipv6_loop 8 u [] e = Some (s', ip', e')" "ipv6_finish (s', ip', e') = Some r"
    for u e s' ip' e' r
    using ipv6_loop_bytes [OF that(1)] that(2)
    by (auto simp: ipv6_finish_def valid_ip_def list_all_iff dest!: in_set_takeD in_set_dropD
        split: if_splits option.splits)
  assume "ParseIP s = Some ip"
  then show ?thesis
    by (auto simp: ParseIP_def parse_ipv6_def valid_ip_def [of "replicate _ _ @ _"] list_all_iff
        split: option.splits if_splits dest!: parse_ipv4_bytes)
       (auto simp: valid_ip_def [of "replicate _ _"] list_all_iff Option.bind_eq_Some_conv intro: fin)
qed

section \<open>Loopback addresses\<close>

definition loopback_text :: "string \<Rightarrow> bool" where
  "loopback_text s \<longleftrightarrow> (case ParseIP s of None \<Rightarrow> False | Some ip \<Rightarrow> IsLoopback ip \<and> IP_String ip = s)"

lemma nat_text_no_special: "c \<in> set (nat_text n) \<Longrightarrow> c \<noteq> CHR ''%'' \<and> c \<noteq> CHR '':'' \<and> c \<noteq> CHR ''.''"
  using nat_text_digits [of n] by (auto simp: list_all_iff is_digit_def)

lemma ParseIP_dotted:
  assumes "a < 256" "b < 256" "c < 256" "d < 256"
  shows "ParseIP (join ''.'' (map nat_text [a, b, c, d])) = Some (replicate 10 0 @ [255, 255, a, b, c, d])"
proof -
  let ?s = "join ''.'' (map nat_text [a, b, c, d])"
  have "CHR ''%'' \<notin> set ?s" by (auto dest: nat_text_no_special)
  moreover have "find P (xs @ x # ys) = Some x" if "P x" "\<forall>y \<in> set xs. \<not> P y"
    for P :: "char \<Rightarrow> bool" and x xs ys
    using that by (induction xs) auto
  then have "find (\<lambda>c. c = CHR ''.'' \<or> c = CHR '':'')
      (nat_text a @ CHR ''.'' # join ''.'' (map nat_text [b, c, d])) = Some CHR ''.''"
    by (rule meta_mp) (auto dest: nat_text_no_special)
  then have "find (\<lambda>c. c = CHR ''.'' \<or> c = CHR '':'') ?s = Some CHR ''.''" by simp
  ultimately show ?thesis using parse_ipv4_text [OF assms] by (simp add: ParseIP_def)
qed

lemma To4_bytes:
  assumes "valid_ip ip" and "To4 ip = Some fs"
  shows "\<exists>a b c d. fs = [a, b, c, d] \<and> a < 256 \<and> b < 256 \<and> c < 256 \<and> d < 256 \<and>
     ip = replicate 10 0 @ [255, 255, a, b, c, d]"
proof -
  have fs: "fs = drop 12 ip" and tk: "take 12 ip = replicate 10 0 @ [255, 255]"
    using assms(2) by (auto simp: To4_def split: if_splits)
  have "length fs = 4" using assms(1) fs by (simp add: valid_ip_def)
  then obtain a b c d where "fs = [a, b, c, d]"
    by (auto simp: eval_nat_numeral length_Suc_conv)
  moreover have "list_all (\<lambda>b. b < 256) fs"
    using assms(1) fs by (auto simp: valid_ip_def list_all_iff dest: in_set_dropD)
  moreover have "ip = take 12 ip @ fs" by (simp add: fs)
  ultimately show ?thesis using tk by auto
qed

lemma ParseIP_loopback6: "ParseIP ''::1'' = Some IPv6loopback"
  by code_simp

lemma hex_text_1: "hex_text (Suc 0) = ''1''"
  by (simp add: hex_text.simps hex_char_def char_of_def bit_0)

lemma IP_String_loopback6: "IP_String IPv6loopback = ''::1''"
  by (simp add: IP_String_def To4_def IPv6loopback_def longest_zeros_def zero_run_def numeral_eq_Suc
      Let_def hex_text_1)

lemma loopback_canonical:
  assumes "ParseIP s = Some ip" and "IsLoopback ip"
  shows "ParseIP (IP_String ip) = Some ip"
proof (cases "To4 ip")
  case None
  with assms(2) have "ip = IPv6loopback" by (simp add: IsLoopback_def)
  then show ?thesis by (simp add: IP_String_loopback6 ParseIP_loopback6)
next
  case (Some fs)
  with To4_bytes [OF ParseIP_valid [OF assms(1)]] obtain a b c d
    where "fs = [a, b, c, d]" "a < 256" "b < 256" "c < 256" "d < 256"
      and "ip = replicate 10 0 @ [255, 255, a, b, c, d]" by blast
  with Some show ?thesis using ParseIP_dotted [of a b c d] by (simp add: IP_String_def)
qed

lemma loopback_text_IP_String:
  "ParseIP s = Some ip \<Longrightarrow> IsLoopback ip \<Longrightarrow> loopback_text (IP_String ip)"
  by (simp add: loopback_text_def loopback_canonical)

lemma loopback_text_default [simp]: "loopback_text ''127.0.0.1''"
proof -
  have t: "''127.0.0.1'' = join ''.'' (map nat_text [127, 0, 0, 1])"
    by (simp add: text_simps)
  have "ParseIP ''127.0.0.1'' = Some (replicate 10 0 @ [255, 255, 127, 0, 0, 1])"
    unfolding t by (rule ParseIP_dotted) simp_all
  then show ?thesis
    by (simp add: loopback_text_def IsLoopback_def To4_def IP_String_def numeral_eq_Suc)
       (simp add: text_simps)
qed

end
