(* ===== verification/Forward_Registry.thy ===== *)
theory Forward_Registry
  imports Vm_State Net_Addr
begin

text \<open>
  The registry of live forwards in the daemon (\<open>launcher/mac/forwarding.go\<close> and
  \<open>forward_commands.go\<close>): the state behind \<open>forwarderRegistryMu\<close>, opening and closing a forward,
  and the requests that add, remove and list forwards while the VM runs. Every operation runs with
  the lock held, so it is one step of the daemon. A Go map is an association list; what the program
  can observe of it is \<open>map_of\<close>. The goroutines of one forward are the subject of
  \<open>Forwarder_Machine\<close>; here opening and closing a forward are seen from outside.
\<close>

section \<open>State\<close>

text \<open>A started \<open>LoopbackForwarder\<close>; \<open>fw_Port\<close> is the port of its listener.\<close>

record forwarder =
  fw_hostIP :: string
  fw_requestedPort :: int
  fw_name :: string
  fw_guestHost :: string
  fw_guestPort :: int
  fw_Port :: int

type_synonym registry = "(string \<times> forwarder) list"

record daemon = world +
  forwarderRegistry :: registry
  forwardGuestHost :: string
  forwardsReady :: bool
  forwardsStopping :: bool

type_synonym ('z, 'a) daemon_prog = "('z daemon_scheme, go_error, 'a) prog"

section \<open>One forward\<close>

definition startForwarder ::
    "string \<Rightarrow> string \<Rightarrow> int \<Rightarrow> string \<Rightarrow> int \<Rightarrow> ('z, forwarder) os" where
  "startForwarder name hostIP hostPort guestHost guestPort =
     andThen
       (onErr (Wrapped (''failed to listen on '' @ hostIP @ '':'' @ itoa hostPort @ '': ''))
         (net_Listen (JoinHostPort hostIP (itoa hostPort)) hostIP hostPort))
       (\<lambda>port. ret \<lparr>fw_hostIP = hostIP, fw_requestedPort = hostPort, fw_name = name,
                    fw_guestHost = guestHost, fw_guestPort = guestPort, fw_Port = port\<rparr>)"

definition StartLoopbackForwarder :: "string \<Rightarrow> int \<Rightarrow> string \<Rightarrow> int \<Rightarrow> ('z, forwarder) os" where
  "StartLoopbackForwarder name hostPort guestHost guestPort =
     startForwarder name ''127.0.0.1'' hostPort guestHost guestPort"

text \<open>\<open>Close\<close> of a forward that has not been closed before, as seen by its caller.\<close>

definition forwarder_Close :: "forwarder \<Rightarrow> ('z, unit) os" where
  "forwarder_Close f =
     attempt (net_CloseListener (fw_hostIP f) (fw_Port f)) (\<lambda>closeError.
       case closeError of
         Inl e \<Rightarrow> if errors_Is e NetErrClosed then ret () else throw e
       | Inr _ \<Rightarrow> ret ())"

section \<open>The registry\<close>

definition registerForwarder :: "string \<Rightarrow> forwarder \<Rightarrow> ('z, unit) daemon_prog" where
  "registerForwarder name f =
     modify (\<lambda>d. d\<lparr>forwarderRegistry := AList.update name f (forwarderRegistry d)\<rparr>)"

definition unregister :: "string \<Rightarrow> ('z, unit) daemon_prog" where
  "unregister name =
     modify (\<lambda>d. d\<lparr>forwarderRegistry := AList.delete name (forwarderRegistry d)\<rparr>)"

definition forwarderSnapshot :: "'z daemon_scheme \<Rightarrow> registry" where
  "forwarderSnapshot d = forwarderRegistry d"

definition forward_state :: "forwarder \<Rightarrow> ForwardState" where
  "forward_state f = \<lparr>state_HostIP = fw_hostIP f, state_GuestPort = fw_guestPort f,
     state_HostPort = fw_Port f\<rparr>"

definition forwardStatesLocked :: "registry \<Rightarrow> (string \<times> ForwardState) list" where
  "forwardStatesLocked reg = map (\<lambda>(name, f). (name, forward_state f)) reg"

text \<open>\<open>json.Unmarshal\<close> into a \<open>map[string]json.RawMessage\<close>: \<open>null\<close> leaves the map nil.\<close>

definition decode_raw_map :: "string \<Rightarrow> (string \<times> json) list option result" where
  "decode_raw_map data = (case json_parse data of
     Inl e \<Rightarrow> Inl e
   | Inr (JObj kvs) \<Rightarrow> Inr (Some (fst (decode_entries (\<lambda>v _. (v, None)) JNull kvs [])))
   | Inr JNull \<Rightarrow> Inr None
   | Inr _ \<Rightarrow> Inl type_error)"

definition saveForwardState :: "('z, unit) daemon_prog" where
  "saveForwardState =
     andThen (onErr (Wrapped ''cannot read VM state: '') (os_ReadFile vm_state)) (\<lambda>data.
     andThen (onErr (Wrapped ''cannot decode VM state: '') (lift (decode_raw_map data))) (\<lambda>state.
       case state of
         None \<Rightarrow> throw (ErrorString ''VM state must be a JSON object'')
       | Some m \<Rightarrow>
           andThen (gets (\<lambda>d. json_map encode_ForwardState (forwardStatesLocked (forwarderRegistry d))))
             (\<lambda>forwards.
               writeVMState (json_indent (json_map id (AList.update ''forwards'' forwards m))))))"

section \<open>Requests\<close>

definition not_loopback :: go_error where
  "not_loopback = ErrorString ''host IP must be a loopback IP address''"

definition forward_add :: "forwardRequest \<Rightarrow> ('z, unit) daemon_prog" where
  "forward_add request =
     andThen (lift (parseForwardSpec (req_Name request @ '':'' @ itoa (req_GuestPort request) @ '':'' @
         itoa (req_HostPort request)))) (\<lambda>spec.
       let requestIP = (if req_HostIP request = [] then ''127.0.0.1'' else req_HostIP request) in
       case ParseIP requestIP of
         None \<Rightarrow> throw not_loopback
       | Some ip \<Rightarrow>
           if \<not> IsLoopback ip then throw not_loopback
           else let hostIP = IP_String ip in
             andThen (gets (\<lambda>d. map_of (forwarderRegistry d) (spec_Name spec))) (\<lambda>existing.
               case existing of
                 Some f \<Rightarrow>
                   if fw_guestPort f = spec_GuestPort spec \<and> fw_requestedPort f = spec_HostPort spec \<and>
                      fw_hostIP f = hostIP
                   then ret ()
                   else throw (ErrorString (''forward '' @ go_quote (spec_Name spec) @
                     '' has different settings; remove it before adding a replacement''))
               | None \<Rightarrow>
                   andThen (gets forwardGuestHost) (\<lambda>guestHost.
                   andThen (startForwarder (spec_Name spec) hostIP (spec_HostPort spec) guestHost
                       (spec_GuestPort spec)) (\<lambda>f.
                   andThen (registerForwarder (spec_Name spec) f) (\<lambda>_.
                     attempt saveForwardState (\<lambda>saved.
                       case saved of
                         Inr _ \<Rightarrow> ret ()
                       | Inl err \<Rightarrow>
                           andThen (unregister (spec_Name spec)) (\<lambda>_.
                             attempt (forwarder_Close f) (\<lambda>_. throw err))))))))"

definition forward_remove :: "forwardRequest \<Rightarrow> ('z, unit) daemon_prog" where
  "forward_remove request =
     andThen (gets (\<lambda>d. map_of (forwarderRegistry d) (req_Name request))) (\<lambda>forwarder.
       case forwarder of
         None \<Rightarrow> ret ()
       | Some f \<Rightarrow>
           andThen (unregister (req_Name request)) (\<lambda>_.
             attempt saveForwardState (\<lambda>saved.
               case saved of
                 Inl err \<Rightarrow> andThen (registerForwarder (req_Name request) f) (\<lambda>_. throw err)
               | Inr _ \<Rightarrow> forwarder_Close f)))"

definition updateForward :: "forwardRequest \<Rightarrow> ('z, unit) daemon_prog" where
  "updateForward request =
     (if req_Request request = ''forward-list'' then ret ()
      else if req_Request request = ''forward-add'' then forward_add request
      else if req_Request request = ''forward-remove'' then forward_remove request
      else throw (ErrorString ''unknown forward request''))"

definition error_response :: "string \<Rightarrow> forwardResponse" where
  "error_response e = \<lparr>resp_Forwards = None, resp_Error = e\<rparr>"

definition handleForwardRequest ::
    "forwardRequest \<Rightarrow> 'z daemon_scheme \<Rightarrow> forwardResponse \<times> 'z daemon_scheme" where
  "handleForwardRequest request d =
     (if \<not> forwardsReady d
      then (error_response
        ''VM is not ready; wait for a successful start before managing forwards'', d)
      else case updateForward request d of
        (Inl err, d') \<Rightarrow> (error_response (error_text err), d')
      | (Inr _, d') \<Rightarrow>
          (\<lparr>resp_Forwards = Some (forwardStatesLocked (forwarderRegistry d')), resp_Error = []\<rparr>, d'))"

text \<open>\<open>closeForwarders\<close>; Go ranges over the map in an unspecified order, here the list's.\<close>

fun close_all :: "registry \<Rightarrow> ('z, unit) daemon_prog" where
  "close_all [] = ret ()"
| "close_all ((name, f) # rest) =
     attempt (forwarder_Close f) (\<lambda>_. andThen (unregister name) (\<lambda>_. close_all rest))"

definition closeForwarders :: "('z, unit) daemon_prog" where
  "closeForwarders =
     andThen (modify (\<lambda>d. d\<lparr>forwardsReady := False, forwardsStopping := True\<rparr>)) (\<lambda>_.
     andThen (gets forwarderRegistry) (\<lambda>reg. close_all reg))"

end
