(* ===== verification/Registry_Laws.thy ===== *)
theory Registry_Laws
  imports Forward_Registry
begin

text \<open>
  What holds of the forward registry: its well-formedness, what a save publishes, and the possible
  outcomes of each request. The properties of the live-forward commands are corollaries.
\<close>

section \<open>Calls and the rest of the process\<close>

lemma daemon_of_more:
  fixes d d' :: "'z daemon_scheme"
  assumes "world.more d' = world.more d"
  shows "forwarderRegistry d' = forwarderRegistry d" "forwardGuestHost d' = forwardGuestHost d"
    "forwardsReady d' = forwardsReady d" "forwardsStopping d' = forwardsStopping d"
  using assms by (cases d; cases d'; simp)+

lemma daemon_called [simp]:
  "forwarderRegistry (called d) = forwarderRegistry d" "forwardGuestHost (called d) = forwardGuestHost d"
  "forwardsReady (called d) = forwardsReady d" "forwardsStopping (called d) = forwardsStopping d"
  by (simp_all add: called_def)

lemma net_Listen_ok:
  assumes "net_Listen addr ip port w = (Inr p, w')"
  shows "w' = called (w\<lparr>listeners := (ip, p) # listeners w\<rparr>)" "(ip, p) \<notin> set (listeners w)"
    "port \<noteq> 0 \<Longrightarrow> p = port" "port = 0 \<Longrightarrow> 1 \<le> p \<and> p \<le> 65535" "\<not> busy w ip p"
  using assms by (auto simp: net_Listen_def Let_def port_free_def split: option.splits if_splits)

lemma net_Listen_error: "net_Listen addr ip port w = (Inl e, w') \<Longrightarrow> w' = called w"
  by (auto simp: net_Listen_def Let_def split: option.splits if_splits)

lemma startForwarder_ok:
  assumes "startForwarder name ip port gh gp w = (Inr f, w')"
  shows "\<exists>p. f = \<lparr>fw_hostIP = ip, fw_requestedPort = port, fw_name = name, fw_guestHost = gh,
        fw_guestPort = gp, fw_Port = p\<rparr> \<and> w' = called (w\<lparr>listeners := (ip, p) # listeners w\<rparr>) \<and>
      (ip, p) \<notin> set (listeners w) \<and> (port \<noteq> 0 \<longrightarrow> p = port) \<and> (port = 0 \<longrightarrow> 1 \<le> p \<and> p \<le> 65535)"
  using assms net_Listen_ok by (fastforce simp: startForwarder_def andThen_def onErr_def ret_def
      split: prod.splits sum.splits)

lemma startForwarder_error: "startForwarder name ip port gh gp w = (Inl e, w') \<Longrightarrow> w' = called w"
  by (auto simp: startForwarder_def andThen_def onErr_def ret_def split: prod.splits sum.splits
      dest: net_Listen_error)

lemma forwarder_Close_world:
  "forwarder_Close f w = (r, w') \<Longrightarrow>
     w' = called (w\<lparr>listeners := removeAll (fw_hostIP f, fw_Port f) (listeners w)\<rparr>)"
  by (auto simp: forwarder_Close_def net_CloseListener_def attempt_def prog_defs
      split: option.splits if_splits)

lemma forwarder_Close_snd:
  "snd (forwarder_Close f w) =
     called (w\<lparr>listeners := removeAll (fw_hostIP f, fw_Port f) (listeners w)\<rparr>)"
  by (metis forwarder_Close_world prod.collapse)

section \<open>Publication\<close>

text \<open>A consumer's view of \<open>vm-state.json\<close>: the forwards object, decoded by its struct tags.\<close>

definition raw_field :: "file_map \<Rightarrow> string \<Rightarrow> json option" where
  "raw_field fs k = (case fs vm_state of
     Some (File data sz mode) \<Rightarrow> (case decode_raw_map (file_content data sz) of
         Inr (Some m) \<Rightarrow> map_of m k | _ \<Rightarrow> None)
   | _ \<Rightarrow> None)"

definition decode_state_map :: "json \<Rightarrow> (string \<times> ForwardState) list option" where
  "decode_state_map j = (case j of
     JObj kvs \<Rightarrow> (case decode_entries (decode_struct ForwardState_fields) zero_state kvs [] of
         (m, None) \<Rightarrow> Some m | (m, Some e) \<Rightarrow> None)
   | _ \<Rightarrow> None)"

definition published :: "file_map \<Rightarrow> (string \<Rightarrow> ForwardState option) option" where
  "published fs = (case raw_field fs ''forwards'' of
     None \<Rightarrow> None | Some j \<Rightarrow> map_option map_of (decode_state_map j))"

lemma distinct_decode_entries:
  "decode_entries d zero kvs m = (m', e) \<Longrightarrow> distinct (map fst m) \<Longrightarrow> distinct (map fst m')"
  by (induction d zero kvs m arbitrary: e rule: decode_entries.induct)
     (auto simp: Let_def distinct_update split: prod.splits)

lemma update_values:
  "\<forall>(k, v) \<in> set m. P v \<Longrightarrow> P v \<Longrightarrow> \<forall>(k, v) \<in> set (AList.update k v m). P v"
  by (induction m) (auto split: if_splits)

lemma decode_entries_raw_values:
  "decode_entries (\<lambda>v _. (v, None)) JNull kvs m = (m', e) \<Longrightarrow>
     \<forall>(k, v) \<in> set kvs. P v \<Longrightarrow> \<forall>(k, v) \<in> set m. P v \<Longrightarrow> \<forall>(k, v) \<in> set m'. P v"
proof (induction kvs arbitrary: m e)
  case (Cons kv kvs)
  obtain k v where kv: "kv = (k, v)" by (cases kv)
  obtain m1 e1 where rest: "decode_entries (\<lambda>v _. (v, None)) JNull kvs (AList.update k v m) = (m1, e1)"
    by (cases "decode_entries (\<lambda>v _. (v, None)) JNull kvs (AList.update k v m)")
  with Cons.prems(1) kv have "m1 = m'" by (simp add: Let_def)
  moreover have "\<forall>(k, v) \<in> set (AList.update k v m). P v"
    by (rule update_values) (use Cons.prems kv in auto)
  ultimately show ?case using Cons.IH rest Cons.prems(2) by simp
qed simp

lemma decode_raw_map_wf:
  assumes "decode_raw_map data = Inr (Some m)"
  shows "distinct (map fst m)" and "\<forall>(k, v) \<in> set m. valid_json v"
proof -
  obtain kvs where j: "json_parse data = Inr (JObj kvs)"
    and m: "m = fst (decode_entries (\<lambda>v _. (v, None)) JNull kvs [])"
    using assms by (auto simp: decode_raw_map_def split: sum.splits json.splits)
  obtain e where e: "decode_entries (\<lambda>v _. (v, None)) JNull kvs [] = (m, e)"
    using m by (metis prod.collapse)
  show "distinct (map fst m)" using distinct_decode_entries [OF e] by simp
  show "\<forall>(k, v) \<in> set m. valid_json v"
    using decode_entries_raw_values [OF e, of valid_json] json_parse_valid [OF j] by simp
qed

lemma decode_raw_map_indent:
  assumes "distinct (map fst m)" and "\<forall>(k, v) \<in> set m. valid_json v"
  shows "decode_raw_map (json_indent (json_map id m)) = Inr (Some (sort_key fst m))"
proof -
  have "valid_json (json_map id m)" using assms(2) by (auto simp: json_map_def)
  then have "json_parse (json_indent (json_map id m)) = Inr (json_map id m)"
    by (rule json_indent_parse)
  moreover have "decode_entries (\<lambda>v _. (v, None)) JNull (map (\<lambda>(k, v). (k, id v)) (sort_key fst m)) []
      = (sort_key fst m, None)"
    by (rule decode_entries_json_map) (use assms in auto)
  ultimately show ?thesis by (simp add: decode_raw_map_def json_map_def)
qed

lemma raw_field_text:
  assumes "fs vm_state = Some (text_file (json_indent (json_map id m)) mode)"
    and "distinct (map fst m)" and "\<forall>(k, v) \<in> set m. valid_json v"
  shows "raw_field fs = map_of m"
  by (intro ext) (simp add: raw_field_def assms(1) text_file_def decode_raw_map_indent assms(2,3) map_of_sort_key)

lemma raw_field_replaced:
  assumes "replaced (json_indent (json_map id m)) d d'"
    and "distinct (map fst m)" and "\<forall>(k, v) \<in> set m. valid_json v"
  shows "raw_field (files d') = map_of m"
  by (rule raw_field_text [OF _ assms(2,3)]) (use assms(1) in \<open>simp add: replaced_def\<close>)

lemma decode_state_map_encode:
  assumes "valid_forwards m"
  shows "decode_state_map (json_map encode_ForwardState m) = Some (sort_key fst m)"
proof -
  have "decode_entries (decode_struct ForwardState_fields) zero_state
      (map (\<lambda>(k, v). (k, encode_ForwardState v)) (sort_key fst m)) [] = (sort_key fst m, None)"
    by (rule decode_entries_json_map)
       (use assms in \<open>auto simp: valid_forwards_def intro!: decode_state_encode\<close>)
  then show ?thesis by (simp add: decode_state_map_def json_map_def)
qed

lemma raw_field_cong: "fs vm_state = fs' vm_state \<Longrightarrow> raw_field fs = raw_field fs'"
  by (intro ext) (simp add: raw_field_def)

text \<open>A save either leaves the file and the process alone, or replaces the \<open>forwards\<close> entry.\<close>

lemma saveForwardState_error:
  assumes "saveForwardState d = (Inl e, d')"
  shows "untouched temps d d'"
proof -
  have k: "keeps (untouched temps) (os_ReadFile vm_state)" by (rule keeps_intros)
  show ?thesis
    using assms
    by (auto simp: saveForwardState_def andThen_def onErr_def lift_def gets_def throw_def
        split: prod.splits sum.splits option.splits
        dest!: keepsD_eq [OF k] writeVMState_error
        intro: untouched.R_trans)
qed

lemma saveForwardState_writes:
  assumes "saveForwardState d = (Inr u, d')"
  shows "\<exists>data. writeVMState data (called d) = (Inr u, d')"
proof -
  obtain data d1 x where "os_ReadFile vm_state d = (Inr data, d1)" and "writeVMState x d1 = (Inr u, d')"
    using assms unfolding saveForwardState_def
    by (auto elim!: andThen_InrE simp: lift_def gets_def throw_def split: option.splits)
  moreover from this have "d1 = called d" by (auto simp: os_ReadFile_def split: option.splits node.splits)
  ultimately show ?thesis by blast
qed

lemma saveForwardState_ok:
  assumes "saveForwardState d = (Inr u, d')"
  shows "\<exists>d1 m. untouched temps d d1 \<and> raw_field (files d) = map_of m \<and> distinct (map fst m) \<and>
     (\<forall>(k, v) \<in> set m. valid_json v) \<and>
     replaced (json_indent (json_map id (AList.update ''forwards''
       (json_map encode_ForwardState (forwardStatesLocked (forwarderRegistry d))) m))) d1 d'"
proof -
  from assms obtain data d1 m where r: "os_ReadFile vm_state d = (Inr data, d1)"
    and m: "decode_raw_map data = Inr (Some m)"
    and w: "writeVMState (json_indent (json_map id (AList.update ''forwards''
       (json_map encode_ForwardState (forwardStatesLocked (forwarderRegistry d1))) m))) d1 = (Inr u, d')"
    by (auto simp: saveForwardState_def andThen_def onErr_def lift_def gets_def throw_def
        split: prod.splits sum.splits option.splits)
  have k: "keeps (untouched temps) (os_ReadFile vm_state)" by (rule keeps_intros)
  have u: "untouched temps d d1" using keepsD_eq [OF k r] .
  then have reg: "forwarderRegistry d1 = forwarderRegistry d"
    by (auto simp: untouched_def dest: daemon_of_more)
  have "raw_field (files d) = map_of m"
    using r m by (intro ext) (auto simp: os_ReadFile_def raw_field_def split: option.splits node.splits)
  with u m reg w show ?thesis
    using decode_raw_map_wf [OF m] writeVMState_ok by metis
qed

section \<open>What a save does\<close>

text \<open>\<open>resaved reg d d'\<close>: only \<open>vm-state.json\<close> and temporary files changed; the entry
  \<open>forwards\<close> now shows \<open>reg\<close>, every other entry is kept, and a concurrent reader saw the old or
  the new file at every moment.\<close>

definition resaved :: "registry \<Rightarrow> 'z daemon_scheme \<Rightarrow> 'z daemon_scheme \<Rightarrow> bool" where
  "resaved reg d d' \<longleftrightarrow>
     (\<forall>p. p \<notin> insert vm_state temps \<longrightarrow> files d' p = files d p) \<and>
     raw_field (files d') =
       (raw_field (files d))(''forwards'' \<mapsto> json_map encode_ForwardState (forwardStatesLocked reg)) \<and>
     (\<exists>h. history d' = h @ history d \<and>
       (\<forall>fs \<in> set h. fs vm_state = files d vm_state \<or> fs vm_state = files d' vm_state)) \<and>
     forwardGuestHost d' = forwardGuestHost d \<and> forwardsReady d' = forwardsReady d \<and>
     forwardsStopping d' = forwardsStopping d \<and> busy d' = busy d"

lemma saveForwardState_resaved:
  assumes "saveForwardState d = (Inr u, d')"
  shows "resaved (forwarderRegistry d) d d'" and "world.more d' = world.more d"
    and "listeners d' = listeners d"
proof -
  let ?fw = "json_map encode_ForwardState (forwardStatesLocked (forwarderRegistry d))"
  obtain d1 m where u: "untouched temps d d1" and raw: "raw_field (files d) = map_of m"
    and m: "distinct (map fst m)" "\<forall>(k, v) \<in> set m. valid_json v"
    and rep: "replaced (json_indent (json_map id (AList.update ''forwards'' ?fw m))) d1 d'"
    using saveForwardState_ok [OF assms] by blast
  let ?m = "AList.update ''forwards'' ?fw m"
  have "raw_field (files d') = map_of ?m"
    by (rule raw_field_replaced [OF rep distinct_update [OF m(1)] update_values [OF m(2)]]) simp
  then have field: "raw_field (files d') = (raw_field (files d))(''forwards'' \<mapsto> ?fw)"
    by (simp add: raw update_conv')
  obtain h where h: "history d1 = h @ history d" "\<forall>fs \<in> set h. \<forall>p. p \<notin> temps \<longrightarrow> fs p = files d p"
    using u by (auto simp: untouched_def)
  obtain h' where h': "history d' = h' @ history d1" "\<forall>fs \<in> set h'. fs vm_state = files d1 vm_state \<or>
      fs vm_state = files d' vm_state"
    using rep by (auto simp: replaced_def)
  have s: "files d1 vm_state = files d vm_state" using u by (simp add: untouched_def)
  have "\<exists>h. history d' = h @ history d \<and>
      (\<forall>fs \<in> set h. fs vm_state = files d vm_state \<or> fs vm_state = files d' vm_state)"
    by (rule exI [of _ "h' @ h"]) (use h h' s in auto)
  moreover show more: "world.more d' = world.more d" and "listeners d' = listeners d"
    using u rep by (simp_all add: untouched_def replaced_def)
  moreover have "\<forall>p. p \<notin> insert vm_state temps \<longrightarrow> files d' p = files d p" "busy d' = busy d"
    using u rep by (simp_all add: untouched_def replaced_def)
  ultimately show "resaved (forwarderRegistry d) d d'"
    unfolding resaved_def using field daemon_of_more [OF more] by blast
qed

section \<open>Well-formed registries\<close>

definition forwarder_ok :: "string \<Rightarrow> forwarder \<Rightarrow> bool" where
  "forwarder_ok name f \<longleftrightarrow> fw_name f = name \<and> valid_name name \<and> loopback_text (fw_hostIP f) \<and>
     1 \<le> fw_guestPort f \<and> fw_guestPort f \<le> 65535 \<and>
     0 \<le> fw_requestedPort f \<and> fw_requestedPort f \<le> 65535 \<and> 1 \<le> fw_Port f \<and> fw_Port f \<le> 65535 \<and>
     (fw_requestedPort f \<noteq> 0 \<longrightarrow> fw_Port f = fw_requestedPort f)"

definition endpoint :: "string \<times> forwarder \<Rightarrow> string \<times> int" where
  "endpoint e = (fw_hostIP (snd e), fw_Port (snd e))"

text \<open>Names are unique, every entry is well formed, and the open listeners are exactly those of the
  entries: none is leaked, none is shared.\<close>

definition registry_ok :: "registry \<Rightarrow> (string \<times> int) list \<Rightarrow> bool" where
  "registry_ok reg ls \<longleftrightarrow> distinct (map fst reg) \<and> (\<forall>(name, f) \<in> set reg. forwarder_ok name f) \<and>
     distinct (map endpoint reg) \<and> set ls = set (map endpoint reg)"

lemma registry_ok_Nil [simp]: "registry_ok [] ls \<longleftrightarrow> ls = []"
  by (simp add: registry_ok_def)

lemma update_new: "k \<notin> set (map fst m) \<Longrightarrow> AList.update k v m = m @ [(k, v)]"
  by (induction m) auto

lemma delete_new: "k \<notin> set (map fst m) \<Longrightarrow> AList.delete k (AList.update k v m) = m"
  by (simp add: AList.delete_update_same)

lemma registry_ok_add:
  assumes "registry_ok reg ls" and "map_of reg name = None" and "forwarder_ok name f"
    and "(fw_hostIP f, fw_Port f) \<notin> set ls"
  shows "registry_ok (AList.update name f reg) ((fw_hostIP f, fw_Port f) # ls)"
  using assms by (auto simp: registry_ok_def update_new map_of_eq_None_iff endpoint_def)

lemma registry_ok_delete:
  assumes ok: "registry_ok reg ls" and f: "map_of reg name = Some f"
  shows "registry_ok (AList.delete name reg) (removeAll (fw_hostIP f, fw_Port f) ls)"
proof -
  have mem: "(name, f) \<in> set reg" using f by (rule map_of_SomeD)
  have keys: "distinct (map fst reg)" and ends: "distinct (map endpoint reg)"
    and ls: "set ls = endpoint ` set reg"
    using ok by (auto simp: registry_ok_def)
  have sub: "set (AList.delete name reg) = {e \<in> set reg. fst e \<noteq> name}"
    by (auto simp: AList.delete_eq)
  have "{e \<in> set reg. fst e \<noteq> name} = set reg - {(name, f)}"
    using mem eq_key_imp_eq_value [OF keys] by auto
  moreover have "inj_on endpoint (set reg)" using ends by (simp add: distinct_map)
  ultimately have "endpoint ` set (AList.delete name reg) = set ls - {endpoint (name, f)}"
    using mem unfolding sub ls by (metis (no_types, lifting) Diff_subset empty_subsetI image_empty
        image_insert inj_on_image_set_diff insert_subset)
  moreover have "distinct (map endpoint (AList.delete name reg))"
    using ends by (simp add: AList.delete_eq distinct_map_filter)
  ultimately show ?thesis
    using ok by (auto simp: registry_ok_def distinct_delete sub endpoint_def)
qed

lemma forward_states_keys: "map fst (forwardStatesLocked reg) = map fst reg"
  by (induction reg) (auto simp: forwardStatesLocked_def)

lemma forward_states_lookup: "map_of (forwardStatesLocked reg) k = map_option forward_state (map_of reg k)"
  by (induction reg) (auto simp: forwardStatesLocked_def)

lemma registry_ok_valid_forwards:
  assumes "registry_ok reg ls"
  shows "valid_forwards (forwardStatesLocked reg)"
proof -
  have "distinct (map fst (forwardStatesLocked reg))"
    using assms by (simp add: forward_states_keys registry_ok_def)
  moreover have "\<forall>(k, s) \<in> set (forwardStatesLocked reg). valid_state s"
    using assms by (auto simp: registry_ok_def forwarder_ok_def forwardStatesLocked_def
        forward_state_def valid_state_def int64_def int64_min_def int64_max_def)
  ultimately show ?thesis by (simp add: valid_forwards_def)
qed

lemma resaved_published:
  assumes "resaved reg d d'" and "registry_ok reg ls"
  shows "published (files d') = Some (\<lambda>k. map_option forward_state (map_of reg k))"
proof -
  have v: "valid_forwards (forwardStatesLocked reg)" using assms(2) by (rule registry_ok_valid_forwards)
  have "published (files d') = Some (map_of (sort_key fst (forwardStatesLocked reg)))"
    using assms(1) by (simp add: resaved_def published_def decode_state_map_encode [OF v])
  also have "map_of (sort_key fst (forwardStatesLocked reg)) = map_of (forwardStatesLocked reg)"
    using v by (intro map_of_sort_key) (simp add: valid_forwards_def)
  also have "\<dots> = (\<lambda>k. map_option forward_state (map_of reg k))"
    by (intro ext) (rule forward_states_lookup)
  finally show ?thesis .
qed

end
