(* ===== verification/Request_Laws.thy ===== *)
theory Request_Laws
  imports Registry_Laws "HOL-Library.Multiset"
begin

text \<open>
  The possible outcomes of the forward requests, for every registry, file system and pattern of
  system failures, and what they keep: the invariant of the daemon.
\<close>

section \<open>What a request asks for\<close>

text \<open>The forward an add request describes, when it passes the checks of \<open>updateForward\<close>.\<close>

definition add_target :: "forwardRequest \<Rightarrow> (ForwardSpec \<times> string) option" where
  "add_target request = (case parseForwardSpec (req_Name request @ '':'' @ itoa (req_GuestPort request) @
       '':'' @ itoa (req_HostPort request)) of
     Inl e \<Rightarrow> None
   | Inr spec \<Rightarrow> (case ParseIP (if req_HostIP request = [] then ''127.0.0.1'' else req_HostIP request) of
       None \<Rightarrow> None
     | Some ip \<Rightarrow> if IsLoopback ip then Some (spec, IP_String ip) else None))"

definition same_settings :: "ForwardSpec \<Rightarrow> string \<Rightarrow> forwarder \<Rightarrow> bool" where
  "same_settings spec hostIP f \<longleftrightarrow> fw_guestPort f = spec_GuestPort spec \<and>
     fw_requestedPort f = spec_HostPort spec \<and> fw_hostIP f = hostIP"

lemma add_target_ok:
  "add_target request = Some (spec, hostIP) \<Longrightarrow> valid_spec spec \<and> loopback_text hostIP"
  by (auto simp: add_target_def Let_def dest: parseForwardSpec_valid intro: loopback_text_IP_String
      split: sum.splits option.splits if_splits)

text \<open>The request a client makes from a valid specification.\<close>

definition add_request :: "ForwardSpec \<Rightarrow> string \<Rightarrow> forwardRequest" where
  "add_request spec hostIP = \<lparr>req_Request = ''forward-add'', req_Name = spec_Name spec,
     req_GuestPort = spec_GuestPort spec, req_HostPort = spec_HostPort spec, req_HostIP = hostIP\<rparr>"

lemma add_target_add_request:
  assumes "valid_spec spec"
  shows "add_target (add_request spec hostIP) =
    (case ParseIP (if hostIP = [] then ''127.0.0.1'' else hostIP) of
       None \<Rightarrow> None | Some ip \<Rightarrow> if IsLoopback ip then Some (spec, IP_String ip) else None)"
  using parse_encode_spec [OF assms]
  by (simp add: add_target_def add_request_def encodeForwardSpec_def)

lemma add_target_default:
  "valid_spec spec \<Longrightarrow> add_target (add_request spec []) = Some (spec, ''127.0.0.1'')"
  using loopback_text_default by (auto simp: add_target_add_request loopback_text_def split: option.splits)

lemma add_target_loopback:
  "valid_spec spec \<Longrightarrow> loopback_text hostIP \<Longrightarrow> hostIP \<noteq> [] \<Longrightarrow>
     add_target (add_request spec hostIP) = Some (spec, hostIP)"
  by (auto simp: add_target_add_request loopback_text_def split: option.splits)

text \<open>The part of an add after the checks: open the listener, register, publish, or undo.\<close>

definition open_and_publish :: "ForwardSpec \<Rightarrow> string \<Rightarrow> ('z, unit) daemon_prog" where
  "open_and_publish spec hostIP =
     andThen (gets forwardGuestHost) (\<lambda>guestHost.
     andThen (startForwarder (spec_Name spec) hostIP (spec_HostPort spec) guestHost
         (spec_GuestPort spec)) (\<lambda>f.
     andThen (registerForwarder (spec_Name spec) f) (\<lambda>_.
       attempt saveForwardState (\<lambda>saved.
         case saved of
           Inr _ \<Rightarrow> ret ()
         | Inl err \<Rightarrow>
             andThen (unregister (spec_Name spec)) (\<lambda>_.
               attempt (forwarder_Close f) (\<lambda>_. throw err))))))"

lemma forward_add_rejected:
  "add_target request = None \<Longrightarrow> \<exists>e. forward_add request d = (Inl e, d)"
  by (auto simp: add_target_def forward_add_def andThen_def lift_def throw_def Let_def
      split: sum.splits option.splits if_splits)

lemma forward_add_accepted:
  assumes "add_target request = Some (spec, hostIP)"
  shows "forward_add request d = (case map_of (forwarderRegistry d) (spec_Name spec) of
      Some f \<Rightarrow> if same_settings spec hostIP f then (Inr (), d)
        else (Inl (ErrorString (''forward '' @ go_quote (spec_Name spec) @
          '' has different settings; remove it before adding a replacement'')), d)
    | None \<Rightarrow> open_and_publish spec hostIP d)"
proof -
  obtain ip where spec: "parseForwardSpec (req_Name request @ '':'' @ itoa (req_GuestPort request) @
       '':'' @ itoa (req_HostPort request)) = Inr spec"
    and ip: "ParseIP (if req_HostIP request = [] then ''127.0.0.1'' else req_HostIP request) = Some ip"
    and lb: "IsLoopback ip" "hostIP = IP_String ip"
    using assms unfolding add_target_def by (auto split: sum.splits option.splits if_split_asm)
  show ?thesis
    unfolding forward_add_def spec Let_def andThen_lift_Inr ip option.case lb
    by (simp only: lb(1) not_True_eq_False if_False andThen_gets open_and_publish_def same_settings_def
        split: option.split) (simp add: ret_def throw_def)
qed

section \<open>The outcomes of an add\<close>

lemma registered_fields:
  "files (d\<lparr>forwarderRegistry := r\<rparr>) = files d" "listeners (d\<lparr>forwarderRegistry := r\<rparr>) = listeners d"
  "history (d\<lparr>forwarderRegistry := r\<rparr>) = history d" "busy (d\<lparr>forwarderRegistry := r\<rparr>) = busy d"
  by simp_all

text \<open>\<open>added spec hostIP d d'\<close>: a forward with these settings is new in the registry, its listener
  is open, and the registry is published.\<close>

definition added :: "ForwardSpec \<Rightarrow> string \<Rightarrow> 'z daemon_scheme \<Rightarrow> 'z daemon_scheme \<Rightarrow> bool" where
  "added spec hostIP d d' \<longleftrightarrow> (\<exists>port.
     let f = \<lparr>fw_hostIP = hostIP, fw_requestedPort = spec_HostPort spec, fw_name = spec_Name spec,
              fw_guestHost = forwardGuestHost d, fw_guestPort = spec_GuestPort spec, fw_Port = port\<rparr> in
     forwarderRegistry d' = AList.update (spec_Name spec) f (forwarderRegistry d) \<and>
     listeners d' = (hostIP, port) # listeners d \<and> (hostIP, port) \<notin> set (listeners d) \<and>
     (spec_HostPort spec \<noteq> 0 \<longrightarrow> port = spec_HostPort spec) \<and>
     (spec_HostPort spec = 0 \<longrightarrow> 1 \<le> port \<and> port \<le> 65535) \<and>
     resaved (forwarderRegistry d') d d')"

lemma untouched_called: "untouched A w (called w)"
  by (intro untouchedI [where h = "[files w]"]) auto

lemma open_and_publish_error:
  assumes new: "map_of (forwarderRegistry d) (spec_Name spec) = None"
    and run: "open_and_publish spec hostIP d = (Inl e, d')"
  shows "untouched temps d d'"
proof (cases "startForwarder (spec_Name spec) hostIP (spec_HostPort spec) (forwardGuestHost d)
    (spec_GuestPort spec) d")
  case (Pair r d1)
  show ?thesis
  proof (cases r)
    case (Inl e1)
    then have "d' = called d"
      using Pair run
      by (auto simp: open_and_publish_def andThen_def gets_def dest: startForwarder_error)
    then show ?thesis by (simp add: untouched_called)
  next
    case (Inr f)
    let ?reg = "AList.update (spec_Name spec) f (forwarderRegistry d)"
    obtain p where f: "fw_hostIP f = hostIP" "fw_Port f = p"
      and d1: "d1 = called (d\<lparr>listeners := (hostIP, p) # listeners d\<rparr>)"
      and fresh: "(hostIP, p) \<notin> set (listeners d)"
      using startForwarder_ok [OF Pair [unfolded Inr]] by auto
    let ?d2 = "d1\<lparr>forwarderRegistry := ?reg\<rparr>"
    obtain e1 d3 where sv: "saveForwardState ?d2 = (Inl e1, d3)"
      and d': "d' = snd (forwarder_Close f (d3\<lparr>forwarderRegistry :=
        AList.delete (spec_Name spec) (forwarderRegistry d3)\<rparr>))"
      using run Pair Inr d1
      by (auto simp: open_and_publish_def andThen_def gets_def registerForwarder_def modify_def
          attempt_def ret_def throw_def unregister_def split: prod.splits sum.splits)
    have u: "untouched temps ?d2 d3" by (rule saveForwardState_error [OF sv])
    then have more: "world.more d3 = world.more ?d2" by (simp add: untouched_def)
    have reg3: "forwarderRegistry d3 = ?reg" using daemon_of_more(1) [OF more] by simp
    have "AList.delete (spec_Name spec) ?reg = forwarderRegistry d"
      using new by (intro delete_new) (simp add: map_of_eq_None_iff)
    with reg3 d' have d'_eq: "d' = called (d3\<lparr>forwarderRegistry := forwarderRegistry d,
        listeners := removeAll (hostIP, p) (listeners d3)\<rparr>)"
      by (simp add: forwarder_Close_snd f)
    have more': "world.more d' = world.more d"
      using more unfolding d'_eq by (cases d; cases d3) (simp add: d1 called_def)
    obtain h where h: "history d3 = h @ history ?d2"
      "\<forall>fs \<in> set h. \<forall>q. q \<notin> temps \<longrightarrow> fs q = files ?d2 q"
      using u by (auto simp: untouched_def)
    show ?thesis
    proof (rule untouchedI)
      show "listeners d' = listeners d"
        using u fresh by (simp add: d'_eq d1 untouched_def)
      show "history d' = ([files d3] @ h @ [files d]) @ history d"
        using h(1) by (simp add: d'_eq d1)
    next
      fix fs q assume "fs \<in> set ([files d3] @ h @ [files d])" "q \<notin> temps"
      then show "fs q = files d q" using h(2) u by (auto simp: d1 untouched_def)
    qed (use u more' in \<open>simp_all add: d'_eq d1 untouched_def\<close>)
  qed
qed

lemma open_and_publish_ok:
  assumes run: "open_and_publish spec hostIP d = (Inr u, d')"
  shows "added spec hostIP d d'"
proof -
  obtain f d1 where start: "startForwarder (spec_Name spec) hostIP (spec_HostPort spec)
      (forwardGuestHost d) (spec_GuestPort spec) d = (Inr f, d1)"
    using run by (auto simp: open_and_publish_def andThen_def gets_def split: prod.splits sum.splits)
  obtain p where f: "f = \<lparr>fw_hostIP = hostIP, fw_requestedPort = spec_HostPort spec,
      fw_name = spec_Name spec, fw_guestHost = forwardGuestHost d, fw_guestPort = spec_GuestPort spec,
      fw_Port = p\<rparr>"
    and d1: "d1 = called (d\<lparr>listeners := (hostIP, p) # listeners d\<rparr>)"
    and p: "(hostIP, p) \<notin> set (listeners d)" "spec_HostPort spec \<noteq> 0 \<longrightarrow> p = spec_HostPort spec"
      "spec_HostPort spec = 0 \<longrightarrow> 1 \<le> p \<and> p \<le> 65535"
    using startForwarder_ok [OF start] by blast
  let ?reg = "AList.update (spec_Name spec) f (forwarderRegistry d)"
  let ?d2 = "d1\<lparr>forwarderRegistry := ?reg\<rparr>"
  have sv: "saveForwardState ?d2 = (Inr (), d')"
    using run start d1
    by (auto simp: open_and_publish_def andThen_def gets_def registerForwarder_def modify_def
        attempt_def ret_def throw_def unregister_def split: prod.splits sum.splits)
  note sv = saveForwardState_resaved [OF sv]
  have reg': "forwarderRegistry d' = ?reg" using daemon_of_more(1) [OF sv(2)] by simp
  have "listeners d' = (hostIP, p) # listeners d" using sv(3) by (simp add: d1)
  moreover have "resaved ?reg d d'"
  proof -
    obtain h where h: "history d' = h @ history ?d2"
      "\<forall>fs \<in> set h. fs vm_state = files ?d2 vm_state \<or> fs vm_state = files d' vm_state"
      using sv(1) by (auto simp: resaved_def)
    then have "\<exists>h. history d' = h @ history d \<and>
        (\<forall>fs \<in> set h. fs vm_state = files d vm_state \<or> fs vm_state = files d' vm_state)"
      by (intro exI [of _ "h @ [files d]"]) (auto simp: d1)
    then show ?thesis using sv(1) by (simp add: resaved_def d1 called_def)
  qed
  ultimately show ?thesis unfolding added_def Let_def using p reg' f by auto
qed

lemma added_registry_ok:
  assumes "added spec hostIP d d'" and "registry_ok (forwarderRegistry d) (listeners d)"
    and "map_of (forwarderRegistry d) (spec_Name spec) = None"
    and "valid_spec spec" and "loopback_text hostIP"
  shows "registry_ok (forwarderRegistry d') (listeners d')"
proof -
  obtain f p where f: "f = \<lparr>fw_hostIP = hostIP, fw_requestedPort = spec_HostPort spec,
      fw_name = spec_Name spec, fw_guestHost = forwardGuestHost d, fw_guestPort = spec_GuestPort spec,
      fw_Port = p\<rparr>"
    and r: "forwarderRegistry d' = AList.update (spec_Name spec) f (forwarderRegistry d)"
    and l: "listeners d' = (fw_hostIP f, fw_Port f) # listeners d"
    and p: "(fw_hostIP f, fw_Port f) \<notin> set (listeners d)"
      "spec_HostPort spec \<noteq> 0 \<longrightarrow> p = spec_HostPort spec" "spec_HostPort spec = 0 \<longrightarrow> 1 \<le> p \<and> p \<le> 65535"
    using assms(1) by (auto simp: added_def Let_def)
  have "forwarder_ok (spec_Name spec) f"
    using assms(4,5) p(2,3) by (cases "spec_HostPort spec = 0") (auto simp: f forwarder_ok_def valid_spec_def)
  then show ?thesis unfolding r l by (intro registry_ok_add assms p(1))
qed

section \<open>The outcomes of a remove\<close>

text \<open>\<open>removed name d d'\<close>: the forward is gone from the registry, its listener is closed, and the
  registry is published.\<close>

definition removed :: "string \<Rightarrow> 'z daemon_scheme \<Rightarrow> 'z daemon_scheme \<Rightarrow> bool" where
  "removed name d d' \<longleftrightarrow> (\<exists>f. map_of (forwarderRegistry d) name = Some f \<and>
     forwarderRegistry d' = AList.delete name (forwarderRegistry d) \<and>
     listeners d' = removeAll (fw_hostIP f, fw_Port f) (listeners d) \<and>
     resaved (forwarderRegistry d') d d')"

lemma removed_registry_ok:
  assumes "removed name d d'" and "registry_ok (forwarderRegistry d) (listeners d)"
  shows "registry_ok (forwarderRegistry d') (listeners d')"
proof -
  obtain f where f: "map_of (forwarderRegistry d) name = Some f"
    and r: "forwarderRegistry d' = AList.delete name (forwarderRegistry d)"
    and l: "listeners d' = removeAll (fw_hostIP f, fw_Port f) (listeners d)"
    using assms(1) by (auto simp: removed_def)
  show ?thesis unfolding r l by (rule registry_ok_delete [OF assms(2) f])
qed

text \<open>Undoing a removal puts the entry back at the end of the list: as a map it is the same.\<close>

definition unchanged :: "'z daemon_scheme \<Rightarrow> 'z daemon_scheme \<Rightarrow> bool" where
  "unchanged d d' \<longleftrightarrow> mset (forwarderRegistry d') = mset (forwarderRegistry d) \<and>
     map_of (forwarderRegistry d') = map_of (forwarderRegistry d) \<and>
     listeners d' = listeners d \<and> (\<forall>p. p \<notin> temps \<longrightarrow> files d' p = files d p) \<and>
     (\<exists>h. history d' = h @ history d \<and> (\<forall>fs \<in> set h. fs vm_state = files d vm_state)) \<and>
     forwardGuestHost d' = forwardGuestHost d \<and> forwardsReady d' = forwardsReady d \<and>
     forwardsStopping d' = forwardsStopping d \<and> busy d' = busy d"

lemma unchanged_refl: "unchanged d d"
  by (simp add: unchanged_def)

lemma untouched_unchanged:
  assumes "untouched temps d d'"
  shows "unchanged d d'"
proof -
  obtain h where "history d' = h @ history d" "\<forall>fs \<in> set h. fs vm_state = files d vm_state"
    using assms by (auto simp: untouched_def)
  with assms show ?thesis
    by (auto simp: unchanged_def untouched_def daemon_of_more [of d' d])
qed

lemma readd_mset:
  assumes "distinct (map fst m)" and "map_of m k = Some v"
  shows "mset (AList.update k v (AList.delete k m)) = mset m"
proof -
  have new: "k \<notin> set (map fst (AList.delete k m))" by (auto simp: AList.delete_eq)
  show ?thesis unfolding update_new [OF new] using assms
  proof (induction m)
    case (Cons e m)
    show ?case
    proof (cases "fst e = k")
      case True
      then have "AList.delete k m = m" using Cons.prems(1) by (auto intro: AList.delete_id)
      with True Cons.prems show ?thesis by (cases e) simp
    next
      case False
      with Cons show ?thesis by (cases e) auto
    qed
  qed simp
qed

lemma unchanged_registry_ok:
  assumes "unchanged d d'" and "registry_ok (forwarderRegistry d) (listeners d)"
  shows "registry_ok (forwarderRegistry d') (listeners d')"
proof -
  have m: "mset (forwarderRegistry d') = mset (forwarderRegistry d)" and l: "listeners d' = listeners d"
    using assms(1) by (auto simp: unchanged_def)
  have "mset (map g (forwarderRegistry d')) = mset (map g (forwarderRegistry d))" for g :: "_ \<Rightarrow> 'a"
    using m by simp
  then have "distinct (map fst (forwarderRegistry d'))" "distinct (map endpoint (forwarderRegistry d'))"
    using assms(2) m unfolding registry_ok_def by (metis mset_eq_imp_distinct_iff mset_map)+
  then show ?thesis
    using assms(2) mset_eq_setD [OF m] unfolding registry_ok_def l by simp
qed

lemma forward_remove_absent:
  "map_of (forwarderRegistry d) (req_Name request) = None \<Longrightarrow> forward_remove request d = (Inr (), d)"
  by (simp add: forward_remove_def andThen_def gets_def ret_def)

lemma forward_remove_present:
  assumes f: "map_of (forwarderRegistry d) (req_Name request) = Some f"
    and run: "forward_remove request d = (r, d')"
  shows "removed (req_Name request) d d' \<or>
    (\<exists>e. r = Inl e) \<and> (distinct (map fst (forwarderRegistry d)) \<longrightarrow> unchanged d d')"
proof -
  let ?reg = "AList.delete (req_Name request) (forwarderRegistry d)"
  let ?d1 = "d\<lparr>forwarderRegistry := ?reg\<rparr>"
  obtain s d2 where sv: "saveForwardState ?d1 = (s, d2)" by (cases "saveForwardState ?d1")
  show ?thesis
  proof (cases s)
    case (Inr u)
    note sv = saveForwardState_resaved [OF sv [unfolded Inr]]
    have d': "d' = snd (forwarder_Close f d2)"
      using run f Inr \<open>saveForwardState ?d1 = (s, d2)\<close>
      by (simp add: forward_remove_def andThen_def gets_def unregister_def modify_def attempt_def)
    have reg: "forwarderRegistry d2 = ?reg" using daemon_of_more(1) [OF sv(2)] by simp
    obtain h where h: "history d2 = h @ history d"
      "\<forall>fs \<in> set h. fs vm_state = files d vm_state \<or> fs vm_state = files d2 vm_state"
      using sv(1) by (auto simp: resaved_def)
    have "\<exists>h. history d' = h @ history d \<and>
        (\<forall>fs \<in> set h. fs vm_state = files d vm_state \<or> fs vm_state = files d' vm_state)"
      using h by (intro exI [of _ "[files d2] @ h"]) (auto simp: d' forwarder_Close_snd)
    then have "resaved ?reg d d'"
      using sv(1) by (simp add: resaved_def d' forwarder_Close_snd)
    then show ?thesis using f sv(3) reg by (auto simp: removed_def d' forwarder_Close_snd)
  next
    case (Inl e)
    then have u: "untouched temps ?d1 d2" using sv saveForwardState_error by blast
    have r: "r = Inl e"
      and d': "d' = d2\<lparr>forwarderRegistry := AList.update (req_Name request) f (forwarderRegistry d2)\<rparr>"
      using run f Inl sv
      by (auto simp: forward_remove_def andThen_def gets_def unregister_def modify_def attempt_def
          registerForwarder_def throw_def)
    have more: "world.more d2 = world.more ?d1" using u by (simp add: untouched_def)
    note eqs = daemon_of_more [OF more]
    have "unchanged d d'" if dist: "distinct (map fst (forwarderRegistry d))"
    proof -
      obtain h where "history d2 = h @ history d" "\<forall>fs \<in> set h. fs vm_state = files d vm_state"
        using u by (auto simp: untouched_def)
      moreover have "map_of (AList.update (req_Name request) f ?reg) = map_of (forwarderRegistry d)"
        using f by (auto simp: update_conv' AList.delete_conv')
      ultimately show ?thesis
        using u readd_mset [OF dist f] eqs by (auto simp: unchanged_def untouched_def d')
    qed
    then show ?thesis using r by blast
  qed
qed

section \<open>The outcomes of a request\<close>

lemma forward_add_cases:
  assumes run: "forward_add request d = (r, d')"
  obtains (failed) e where "r = Inl e" and "unchanged d d'"
  | (present) spec hostIP f where "r = Inr ()" and "d' = d" and "add_target request = Some (spec, hostIP)"
      and "map_of (forwarderRegistry d) (spec_Name spec) = Some f" and "same_settings spec hostIP f"
  | (new) spec hostIP where "r = Inr ()" and "add_target request = Some (spec, hostIP)"
      and "map_of (forwarderRegistry d) (spec_Name spec) = None" and "added spec hostIP d d'"
proof (cases "add_target request")
  case None
  then show thesis using forward_add_rejected [of request d] run by (auto intro: failed unchanged_refl)
next
  case (Some t)
  obtain spec hostIP where t: "add_target request = Some (spec, hostIP)" using Some by (cases t) auto
  note eq = forward_add_accepted [OF t, of d, unfolded run]
  show thesis
  proof (cases "map_of (forwarderRegistry d) (spec_Name spec)")
    case (Some f)
    then show thesis using eq t by (auto intro: failed present unchanged_refl split: if_splits)
  next
    case None
    then have op: "open_and_publish spec hostIP d = (r, d')" using eq by simp
    show thesis
    proof (cases r)
      case (Inl e)
      with op have "untouched temps d d'" using open_and_publish_error [OF None] by blast
      then have "unchanged d d'" by (rule untouched_unchanged)
      then show thesis by (rule failed [OF Inl])
    next
      case (Inr u)
      with op have "added spec hostIP d d'" using open_and_publish_ok by blast
      then show thesis by (intro new [OF _ t None]) (simp_all add: Inr)
    qed
  qed
qed

lemma forward_remove_cases:
  assumes run: "forward_remove request d = (r, d')" and "distinct (map fst (forwarderRegistry d))"
  obtains (failed) e where "r = Inl e" and "unchanged d d'"
  | (absent) "r = Inr ()" and "d' = d" and "map_of (forwarderRegistry d) (req_Name request) = None"
  | (gone) "removed (req_Name request) d d'"
  using forward_remove_absent [of d request] forward_remove_present [OF _ run] assms
  by (cases "map_of (forwarderRegistry d) (req_Name request)") (auto intro: failed absent gone)

text \<open>A request changes nothing, or adds one forward, or removes one.\<close>

lemma updateForward_cases:
  assumes run: "updateForward request d = (r, d')" and "distinct (map fst (forwarderRegistry d))"
  obtains (same) "unchanged d d'"
  | (new) spec hostIP where "r = Inr ()" and "req_Request request = ''forward-add''"
      and "add_target request = Some (spec, hostIP)"
      and "map_of (forwarderRegistry d) (spec_Name spec) = None" and "added spec hostIP d d'"
  | (gone) "req_Request request = ''forward-remove''" and "removed (req_Name request) d d'"
proof (cases "req_Request request = ''forward-add''")
  case True
  with run have "forward_add request d = (r, d')" by (simp add: updateForward_def)
  then show thesis
    by (cases rule: forward_add_cases) (auto intro: same new [OF _ True] unchanged_refl)
next
  case False
  show thesis
  proof (cases "req_Request request = ''forward-remove''")
    case True
    with run have "forward_remove request d = (r, d')" by (simp add: updateForward_def)
    from this assms(2) show thesis
      by (cases rule: forward_remove_cases) (auto intro: same gone [OF True] unchanged_refl)
  next
    case F: False
    with False run have "d' = d" by (auto simp: updateForward_def ret_def throw_def split: if_splits)
    then show thesis by (auto intro: same unchanged_refl)
  qed
qed

section \<open>Errors reach the client\<close>

lemma parseForwardSpec_has_text: "parseForwardSpec v = Inl e \<Longrightarrow> has_text e"
  by (auto simp: parseForwardSpec_def Let_def invalid_forward_def split: if_splits sum.splits list.splits)

lemma writeVMState_has_text: "errs has_text (writeVMState data)"
  by (auto simp: writeVMState_def errs_def deferring_def os_defs Let_def
      split: prod.splits option.splits node.splits if_splits elim!: andThen_InlE)

lemma saveForwardState_has_text: "errs has_text saveForwardState"
  unfolding saveForwardState_def
  by (intro errs_andThen errs_onErr)
     (auto simp: errs_def gets_def throw_def split: option.splits dest: errsD [OF writeVMState_has_text]
       elim!: andThen_InlE)

lemma forwarder_Close_has_text: "errs has_text (forwarder_Close f)"
  by (auto simp: forwarder_Close_def errs_def attempt_def net_CloseListener_def ret_def throw_def
      split: prod.splits sum.splits option.splits if_splits)

lemma startForwarder_has_text: "errs has_text (startForwarder name ip port gh gp)"
  unfolding startForwarder_def by (intro errs_andThen errs_onErr) (auto simp: errs_def ret_def)

lemma open_and_publish_has_text: "errs has_text (open_and_publish spec hostIP)"
  unfolding open_and_publish_def registerForwarder_def unregister_def
  by (intro errs_andThen errs_gets startForwarder_has_text errs_modify
      errs_attempt_inl [OF saveForwardState_has_text])
     (auto intro: errs_ret errs_andThen errs_modify errs_attempt errs_throw)

lemma forward_add_has_text: "errs has_text (forward_add request)"
  unfolding errs_def
proof (intro allI impI)
  fix d e d' assume run: "forward_add request d = (Inl e, d')"
  show "has_text e"
  proof (cases "add_target request")
    case None
    then show ?thesis using run
      by (auto simp: add_target_def forward_add_def andThen_def lift_def throw_def not_loopback_def Let_def
          split: sum.splits option.splits if_splits dest: parseForwardSpec_has_text)
  next
    case (Some t)
    obtain spec hostIP where t: "add_target request = Some (spec, hostIP)" using Some by (cases t) auto
    show ?thesis using forward_add_accepted [OF t, of d, unfolded run]
      by (auto split: option.splits if_splits
          dest: errsD [OF open_and_publish_has_text, OF sym])
  qed
qed

lemma updateForward_has_text: "errs has_text (updateForward request)"
proof -
  have "errs has_text (forward_remove request)"
    unfolding forward_remove_def registerForwarder_def unregister_def
    by (intro errs_andThen errs_gets)
       (auto split: option.split intro!: errs_ret errs_andThen errs_modify
         errs_attempt_inl [OF saveForwardState_has_text] forwarder_Close_has_text errs_throw)
  with forward_add_has_text show ?thesis
    unfolding updateForward_def by (auto intro: errs_ret errs_throw)
qed

section \<open>The rest of the daemon\<close>

text \<open>No request touches the state of the daemon beside the forwards.\<close>

definition same_rest :: "'z daemon_scheme \<Rightarrow> 'z daemon_scheme \<Rightarrow> bool" where
  "same_rest d d' \<longleftrightarrow> daemon.more d' = daemon.more d"

interpretation same_rest: world_relation same_rest
  by unfold_locales (auto simp: same_rest_def)

lemma daemon_more_called [simp]: "daemon.more (called d) = daemon.more d"
  by (simp add: called_def)

lemma daemon_more_of_more:
  fixes d d' :: "'z daemon_scheme"
  shows "world.more d' = world.more d \<Longrightarrow> daemon.more d' = daemon.more d"
  by (cases d; cases d') simp

lemma same_process_same_rest:
  assumes "keeps same_process m"
  shows "keeps same_rest (m :: ('z, 'a) daemon_prog)"
  unfolding keeps_def
proof
  fix d
  have "same_process d (snd (m d))" using assms by (rule keepsD)
  then have "world.more (snd (m d)) = world.more d" unfolding same_process_def by blast
  then show "same_rest d (snd (m d))" unfolding same_rest_def by (rule daemon_more_of_more)
qed

lemma same_rest_calls [keeps_intros]:
  "keeps same_rest (os_ReadFile p :: ('z, string) daemon_prog)"
  "keeps same_rest (writeVMState data :: ('z, unit) daemon_prog)"
  by (rule same_process_same_rest, rule same_process_files same_process_writeVMState)+

lemma same_rest_forwarders [keeps_intros]:
  "keeps same_rest (forwarder_Close f :: ('z, unit) daemon_prog)"
  "keeps same_rest (startForwarder name ip port gh gp :: ('z, forwarder) daemon_prog)"
  "keeps same_rest (registerForwarder name f :: ('z, unit) daemon_prog)"
  "keeps same_rest (unregister name :: ('z, unit) daemon_prog)"
proof -
  have "daemon.more (snd (net_Listen addr ip port d)) = daemon.more d" for addr and d :: "'z daemon_scheme"
    by (auto simp: net_Listen_def Let_def called_def split: option.split)
  then show "keeps same_rest (startForwarder name ip port gh gp :: ('z, forwarder) daemon_prog)"
    unfolding startForwarder_def by (intro same_rest.keeps_rules) (simp add: keeps_def same_rest_def)
qed (simp_all add: keeps_def same_rest_def forwarder_Close_snd registerForwarder_def unregister_def
    modify_def called_def)

lemma same_rest_saveForwardState [keeps_intros]: "keeps same_rest saveForwardState"
  unfolding saveForwardState_def
  by (intro same_rest.keeps_rules keeps_intros) (auto split: option.split intro!: same_rest.keeps_rules keeps_intros)

lemma same_rest_open_and_publish [keeps_intros]: "keeps same_rest (open_and_publish spec hostIP)"
  unfolding open_and_publish_def
  by (intro same_rest.keeps_rules keeps_intros) (auto split: sum.split intro!: same_rest.keeps_rules keeps_intros)

lemma same_rest_forward_add: "keeps same_rest (forward_add request)"
  unfolding keeps_def
proof
  fix d
  show "same_rest d (snd (forward_add request d))"
    using forward_add_rejected [of request d] keepsD [OF same_rest_open_and_publish, where w = d]
    by (cases "add_target request")
       (auto simp: forward_add_accepted same_rest.R_refl split: option.split)
qed

lemma same_rest_forward_remove: "keeps same_rest (forward_remove request)"
  unfolding forward_remove_def
  by (intro same_rest.keeps_rules)
     (auto split: option.split sum.split intro!: same_rest.keeps_rules keeps_intros)

lemma same_rest_updateForward: "keeps same_rest (updateForward request)"
  unfolding updateForward_def
  by (auto intro: same_rest_forward_add same_rest_forward_remove same_rest.keeps_rules)

end
