(* ===== verification/Runtime_Files.thy ===== *)
theory Runtime_Files
  imports Registry_Laws
begin

text \<open>
  The launcher's own files (\<open>launcher/mac/main.go\<close>): \<open>vm-config.json\<close>, written by \<open>init\<close> and read
  by every SSH client of the VM; \<open>vm-runtime.json\<close>, \<open>vm-state.json\<close> and the degraded marker, written by
  the daemon once the guest is up. The lemmas show that what is written is what is read back.
\<close>

section \<open>Data\<close>

record InitOutput =
  init_IP :: string

record RuntimeConfig =
  config_SSHPrivateKey :: string

record VMRuntimeState =
  runtime_IP :: string

definition defaultSSHPrivateKeyPath :: path where
  "defaultSSHPrivateKeyPath = ''vm-ssh-key''"

definition runtimeConfigPath :: path where
  "runtimeConfigPath = ''vm-config.json''"

definition vmRuntimeStatePath :: path where
  "vmRuntimeStatePath = ''vm-runtime.json''"

definition sharedDirName :: path where
  "sharedDirName = ''vm-shared''"

definition daemonDegradedMarkerFile :: path where
  "daemonDegradedMarkerFile = ''vm-state-degraded.json''"

definition encode_RuntimeConfig :: "RuntimeConfig \<Rightarrow> json" where
  "encode_RuntimeConfig c = JObj [(''ssh_private_key'', JStr (config_SSHPrivateKey c))]"

definition RuntimeConfig_fields :: "(string \<times> RuntimeConfig decoder) list" where
  "RuntimeConfig_fields =
     [(''ssh_private_key'', string_field (\<lambda>v s. s\<lparr>config_SSHPrivateKey := v\<rparr>))]"

definition encode_VMRuntimeState :: "VMRuntimeState \<Rightarrow> json" where
  "encode_VMRuntimeState s = JObj [(''vm_ip'', JStr (runtime_IP s))]"

definition VMRuntimeState_fields :: "(string \<times> VMRuntimeState decoder) list" where
  "VMRuntimeState_fields = [(''vm_ip'', string_field (\<lambda>v s. s\<lparr>runtime_IP := v\<rparr>))]"

definition InitOutput_fields :: "(string \<times> InitOutput decoder) list" where
  "InitOutput_fields = [(''ip'', string_field (\<lambda>v s. s\<lparr>init_IP := v\<rparr>))]"

section \<open>\<open>vm-config.json\<close>\<close>

definition writeRuntimeConfig :: "RuntimeConfig \<Rightarrow> ('z, unit) os" where
  "writeRuntimeConfig config =
     onErr (Wrapped (''failed to write '' @ runtimeConfigPath @ '': ''))
       (os_WriteFile runtimeConfigPath (json_indent (encode_RuntimeConfig config)) 420)"

definition loadRuntimeConfig :: "('z, RuntimeConfig) os" where
  "loadRuntimeConfig =
     (let config = \<lparr>config_SSHPrivateKey = defaultSSHPrivateKeyPath\<rparr> in
      attempt (os_ReadFile runtimeConfigPath) (\<lambda>r. case r of
        Inl err \<Rightarrow> if os_IsNotExist err then ret config
          else throw (Wrapped (''failed to read '' @ runtimeConfigPath @ '': '') err)
      | Inr configData \<Rightarrow>
          andThen (onErr (Wrapped (''failed to parse '' @ runtimeConfigPath @ '': ''))
              (lift (unmarshal (decode_struct RuntimeConfig_fields) config configData)))
            (\<lambda>config. ret (if config_SSHPrivateKey config = []
               then config\<lparr>config_SSHPrivateKey := defaultSSHPrivateKeyPath\<rparr> else config))))"

section \<open>\<open>vm-runtime.json\<close>\<close>

definition loadVMRuntimeState :: "('z, VMRuntimeState) os" where
  "loadVMRuntimeState =
     andThen (onErr (Wrapped ''failed to read VM runtime state; start the VM first: '')
         (os_ReadFile vmRuntimeStatePath)) (\<lambda>stateData.
     andThen (onErr (Wrapped (''failed to parse '' @ vmRuntimeStatePath @ '': ''))
         (lift (unmarshal (decode_struct VMRuntimeState_fields) \<lparr>runtime_IP = []\<rparr> stateData))) (\<lambda>state.
       if ParseIP (runtime_IP state) = None
       then throw (ErrorString (vmRuntimeStatePath @ '' contains invalid VM IP address '' @
         go_quote (runtime_IP state)))
       else ret state))"

section \<open>The files of a healthy start\<close>

text \<open>\<open>filepath.Base\<close>.\<close>

definition path_base :: "path \<Rightarrow> string" where
  "path_base p = (if p = [] then ''.'' else
     let q = rev (dropWhile (\<lambda>c. c = CHR ''/'') (rev p)) in
     if q = [] then ''/'' else last (split_on CHR ''/'' q))"

definition vm_state_object ::
    "int \<Rightarrow> string \<Rightarrow> string \<Rightarrow> string \<Rightarrow> (string \<times> ForwardState) list \<Rightarrow> json" where
  "vm_state_object pid cpuCount ramSize sharedDir forwards = json_map id
     [(''vm_name'', JStr ''exasol-local-vm''),
      (''cpu_count'', JStr cpuCount),
      (''ram_size'', JStr ramSize),
      (''pid'', JStr (itoa pid)),
      (''forwards'', json_map encode_ForwardState forwards),
      (''shared_dir'', JStr (''./'' @ path_base sharedDir))]"

definition writeHealthyStartArtifacts ::
    "int \<Rightarrow> string \<Rightarrow> string \<Rightarrow> string \<Rightarrow> string \<Rightarrow> (string \<times> ForwardState) list \<Rightarrow> ('z, unit) os" where
  "writeHealthyStartArtifacts pid vmIP cpuCount ramSize sharedDir forwards =
     andThen (onErr (Wrapped (''failed to write '' @ vmRuntimeStatePath @ '': ''))
         (os_WriteFile vmRuntimeStatePath (json_indent (encode_VMRuntimeState \<lparr>runtime_IP = vmIP\<rparr>)) 384))
       (\<lambda>_. onErr (Wrapped ''failed to write vm-state.json: '')
         (writeVMState (json_indent (vm_state_object pid cpuCount ramSize sharedDir forwards))))"

definition writeDaemonDegradedMarker :: "go_error \<Rightarrow> ('z, unit) os" where
  "writeDaemonDegradedMarker cause =
     onErr (Wrapped ''failed to write degraded-state marker: '')
       (os_WriteFile daemonDegradedMarkerFile
         (json_indent (JObj [(''error'', JStr (error_text cause))])) 420)"

section \<open>Reading back\<close>

lemma os_WriteFile_ok:
  assumes "os_WriteFile p data mode w = (Inr u, w')"
  shows "\<exists>m. files w' p = Some (text_file data m) \<and> (files w p = None \<longrightarrow> m = mode) \<and>
     (\<forall>d s k. files w p = Some (File d s k) \<longrightarrow> m = k)"
  using assms
  by (auto simp: os_WriteFile_def os_open_trunc_def file_Write_def file_Close_def andThen_def attempt_def
      lift_def text_file_def split: option.splits node.splits if_splits sum.splits)

lemma os_ReadFile_text:
  "files w p = Some (text_file data m) \<Longrightarrow> faults w (tick w) = None \<Longrightarrow>
     os_ReadFile p w = (Inr data, called w)"
  by (simp add: os_ReadFile_def text_file_def)

lemma writeRuntimeConfig_file:
  assumes "writeRuntimeConfig config w = (Inr u, w')"
  shows "\<exists>m. files w' runtimeConfigPath = Some (text_file (json_indent (encode_RuntimeConfig config)) m)"
proof -
  have "os_WriteFile runtimeConfigPath (json_indent (encode_RuntimeConfig config)) 420 w = (Inr u, w')"
    using assms by (auto simp: writeRuntimeConfig_def onErr_def split: prod.splits sum.splits)
  then show ?thesis using os_WriteFile_ok by blast
qed

lemma unmarshal_RuntimeConfig:
  "unmarshal (decode_struct RuntimeConfig_fields) z (json_indent (encode_RuntimeConfig config)) = Inr config"
  by (cases config, cases z)
     (simp add: encode_RuntimeConfig_def RuntimeConfig_fields_def unmarshal_indent wire_simps)

lemma loadRuntimeConfig_text:
  assumes "files w runtimeConfigPath = Some (text_file (json_indent (encode_RuntimeConfig config)) m)"
    and "faults w (tick w) = None" and "config_SSHPrivateKey config \<noteq> []"
  shows "loadRuntimeConfig w = (Inr config, called w)"
  using assms(3)
  by (simp add: loadRuntimeConfig_def Let_def attempt_def os_ReadFile_text [OF assms(1,2)]
      unmarshal_RuntimeConfig andThen_def onErr_def lift_def ret_def)

lemma unmarshal_VMRuntimeState:
  "unmarshal (decode_struct VMRuntimeState_fields) z (json_indent (encode_VMRuntimeState s)) = Inr s"
  by (cases s, cases z)
     (simp add: encode_VMRuntimeState_def VMRuntimeState_fields_def unmarshal_indent wire_simps)

lemma loadVMRuntimeState_text:
  assumes "files w vmRuntimeStatePath = Some (text_file (json_indent (encode_VMRuntimeState s)) m)"
    and "faults w (tick w) = None" and "ParseIP (runtime_IP s) \<noteq> None"
  shows "loadVMRuntimeState w = (Inr s, called w)"
  using assms(3)
  by (auto simp: loadVMRuntimeState_def os_ReadFile_text [OF assms(1,2)]
      unmarshal_VMRuntimeState andThen_def onErr_def lift_def ret_def)

text \<open>Whatever is read is usable: the key path is never empty, the address always parses.\<close>

lemma loadRuntimeConfig_nonempty:
  "loadRuntimeConfig w = (Inr config, w') \<Longrightarrow> config_SSHPrivateKey config \<noteq> []"
  by (auto simp: loadRuntimeConfig_def Let_def prog_defs defaultSSHPrivateKeyPath_def
      split: prod.splits sum.splits if_splits)

lemma loadVMRuntimeState_parses:
  "loadVMRuntimeState w = (Inr s, w') \<Longrightarrow> ParseIP (runtime_IP s) \<noteq> None"
  by (auto simp: loadVMRuntimeState_def prog_defs split: prod.splits sum.splits if_splits)

section \<open>What a healthy start publishes\<close>

definition start_files :: "path set" where
  "start_files = insert vmRuntimeStatePath temps"

lemma vm_state_not_start_file [simp]: "vm_state \<notin> start_files"
  by (simp add: start_files_def vm_state_def vmRuntimeStatePath_def temps_def temp_prefix_def has_prefix_def)

lemma vmRuntimeStatePath_not_temp [simp]: "vmRuntimeStatePath \<notin> insert vm_state temps"
  by (simp add: vm_state_def vmRuntimeStatePath_def temps_def temp_prefix_def has_prefix_def)

lemma writeHealthyStartArtifacts_ok:
  assumes "writeHealthyStartArtifacts pid ip cpu ram dir fw d = (Inr u, d')"
  shows "raw_field (files d') ''forwards'' = Some (json_map encode_ForwardState fw)"
    and "\<exists>m. files d' vmRuntimeStatePath =
       Some (text_file (json_indent (encode_VMRuntimeState \<lparr>runtime_IP = ip\<rparr>)) m)"
    and "listeners d' = listeners d" and "world.more d' = world.more d"
proof -
  let ?rt = "json_indent (encode_VMRuntimeState \<lparr>runtime_IP = ip\<rparr>)"
  let ?st = "json_indent (vm_state_object pid cpu ram dir fw)"
  obtain u1 d1 where w1: "os_WriteFile vmRuntimeStatePath ?rt 384 d = (Inr u1, d1)"
    and w2: "writeVMState ?st d1 = (Inr u, d')"
    using assms unfolding writeHealthyStartArtifacts_def by (auto elim!: andThen_InrE simp only: onErr_Inr)
  have k: "keeps (untouched start_files) (os_WriteFile vmRuntimeStatePath ?rt 384)"
    by (rule keeps_intros) (simp add: start_files_def)
  have u1: "untouched start_files d d1" by (rule keepsD_eq [OF k w1])
  have rep: "replaced ?st d1 d'" by (rule writeVMState_ok [OF w2])
  show "listeners d' = listeners d" "world.more d' = world.more d"
    using u1 rep by (simp_all add: untouched_def replaced_def)
  show "\<exists>m. files d' vmRuntimeStatePath = Some (text_file ?rt m)"
  proof -
    have "files d' vmRuntimeStatePath = files d1 vmRuntimeStatePath"
      using rep vmRuntimeStatePath_not_temp unfolding replaced_def by blast
    then show ?thesis using os_WriteFile_ok [OF w1] by metis
  qed
  let ?m = "[(''vm_name'', JStr ''exasol-local-vm''), (''cpu_count'', JStr cpu), (''ram_size'', JStr ram),
    (''pid'', JStr (itoa pid)), (''forwards'', json_map encode_ForwardState fw),
    (''shared_dir'', JStr (''./'' @ path_base dir))]"
  have d: "distinct (map fst ?m)" by simp
  have v: "\<forall>(k, v) \<in> set ?m. valid_json v" by simp
  have "raw_field (files d') = map_of ?m"
    by (rule raw_field_replaced [OF rep [unfolded vm_state_object_def] d v])
  then show "raw_field (files d') ''forwards'' = Some (json_map encode_ForwardState fw)" by simp
qed

lemma same_process_artifacts [keeps_intros]:
  "keeps same_process (writeHealthyStartArtifacts pid ip cpu ram dir fw)"
  "keeps same_process (writeDaemonDegradedMarker e)"
  unfolding writeHealthyStartArtifacts_def writeDaemonDegradedMarker_def
  by (intro same_process.keeps_rules keeps_intros)+

section \<open>A healthy start without failures\<close>

definition temps_free :: "'z world_scheme \<Rightarrow> bool" where
  "temps_free w \<longleftrightarrow> (\<forall>p \<in> temps. files w p = None)"

lemma temp_name_in_temps: "temp_prefix @ s \<in> temps"
  by (simp add: temps_def has_prefix_def)

lemma writeHealthyStartArtifacts_succeeds:
  assumes "no_faults w" and "temps_free w" and "files w vm_state \<noteq> Some Dir"
    and "files w vmRuntimeStatePath \<noteq> Some Dir"
  shows "fst (writeHealthyStartArtifacts pid ip cpu ram dir fw w) = Inr ()"
proof -
  let ?m = "os_WriteFile vmRuntimeStatePath (json_indent (encode_VMRuntimeState \<lparr>runtime_IP = ip\<rparr>)) 384"
  have "dir_exists w (path_dir vmRuntimeStatePath)" by code_simp
  with assms have ok: "fst (?m w) = Inr ()" by (intro os_WriteFile_succeeds)
  have k: "keeps (untouched {vmRuntimeStatePath}) ?m" by (rule keeps_intros) simp
  have f: "files (snd (?m w)) p = files w p" if "p \<noteq> vmRuntimeStatePath" for p
    using keepsD [OF k, of w] that by (simp add: untouched_def)
  have "vmRuntimeStatePath \<notin> temps" "vm_state \<noteq> vmRuntimeStatePath"
    using vmRuntimeStatePath_not_temp by (auto simp: vm_state_def vmRuntimeStatePath_def)
  then have "fst (writeVMState data (snd (?m w))) = Inr ()" for data
    using assms f keepsD [OF same_faults_WriteFile, of w vmRuntimeStatePath _ 384]
    by (intro writeVMState_succeeds)
       (simp_all add: same_faults_def no_faults_def temps_free_def temp_name_in_temps, metis temp_name_in_temps)
  with ok show ?thesis
    unfolding writeHealthyStartArtifacts_def andThen_def onErr_def
    by (auto simp: prod.case_eq_if split: sum.split) 
qed

end
