(* ===== verification/Daemon_Run.thy ===== *)
theory Daemon_Run
  imports Request_Laws Runtime_Files
begin

text \<open>
  The life of the forwards inside one daemon (\<open>runVMDaemon\<close> of \<open>launcher/mac/main.go\<close>, from the loop
  that binds the configured forwards to its return), interleaved with requests on the control socket
  and with the stop signal. Each step is what runs between two points where another goroutine can
  take \<open>forwarderRegistryMu\<close>: binding and registering a forward are two steps, publishing and
  becoming ready are one. The steps on the virtual machine itself do not touch this state.
\<close>

section \<open>The steps of the startup\<close>

text \<open>The start of one configured forward; on an error the daemon closes all of them and gives up.\<close>

definition bindForward :: "string \<Rightarrow> ForwardSpec \<Rightarrow> ('z, forwarder) daemon_prog" where
  "bindForward vmIP spec =
     attempt (StartLoopbackForwarder (spec_Name spec) (spec_HostPort spec) vmIP (spec_GuestPort spec))
       (\<lambda>r. case r of
         Inl err \<Rightarrow> andThen closeForwarders (\<lambda>_.
           throw (Wrapped (''cannot bind host port '' @ itoa (spec_HostPort spec) @ '' for forward '' @
             go_quote (spec_Name spec) @ '': '') err))
       | Inr f \<Rightarrow> ret f)"

definition bound_state :: "ForwardSpec \<Rightarrow> forwarder \<Rightarrow> ForwardState" where
  "bound_state spec f = \<lparr>state_HostIP = ''127.0.0.1'', state_GuestPort = spec_GuestPort spec,
     state_HostPort = fw_Port f\<rparr>"

text \<open>The loop as a whole, with nothing in between; \<open>forwardStates\<close> is the local map it fills.\<close>

fun bindForwards :: "string \<Rightarrow> ForwardSpec list \<Rightarrow> (string \<times> ForwardState) list \<Rightarrow>
    ('z, (string \<times> ForwardState) list) daemon_prog" where
  "bindForwards vmIP [] forwardStates = ret forwardStates"
| "bindForwards vmIP (spec # specs) forwardStates =
     andThen (bindForward vmIP spec) (\<lambda>f.
     andThen (registerForwarder (spec_Name spec) f) (\<lambda>_.
       bindForwards vmIP specs (AList.update (spec_Name spec) (bound_state spec f) forwardStates)))"

text \<open>Under the lock: publish the configured forwards, then let requests in unless a stop came first.\<close>

definition publishReady ::
    "int \<Rightarrow> string \<Rightarrow> string \<Rightarrow> string \<Rightarrow> (string \<times> ForwardState) list \<Rightarrow> ('z, unit) daemon_prog" where
  "publishReady pid vmIP cpuCount ramSize forwardStates =
     andThen (writeHealthyStartArtifacts pid vmIP cpuCount ramSize sharedDirName forwardStates) (\<lambda>_.
       modify (\<lambda>d. d\<lparr>forwardGuestHost := vmIP, forwardsReady := \<not> forwardsStopping d\<rparr>))"

section \<open>Interleaving\<close>

datatype phase = Binding | Serving | Returned

record run = daemon +
  run_phase :: phase
  run_specs :: "ForwardSpec list"
  run_bound :: "(ForwardSpec \<times> forwarder) option"
  run_states :: "(string \<times> ForwardState) list"

text \<open>\<open>run_bound\<close> is a forward whose listener is open and that is not registered yet.\<close>

inductive daemon_step :: "string \<Rightarrow> run \<Rightarrow> run \<Rightarrow> bool" for vmIP where
  bind: "run_phase r = Binding \<Longrightarrow> run_bound r = None \<Longrightarrow> run_specs r = spec # specs \<Longrightarrow>
     bindForward vmIP spec r = (Inr f, r') \<Longrightarrow>
     daemon_step vmIP r (r'\<lparr>run_bound := Some (spec, f), run_specs := specs\<rparr>)"
| bind_failed: "run_phase r = Binding \<Longrightarrow> run_bound r = None \<Longrightarrow> run_specs r = spec # specs \<Longrightarrow>
     bindForward vmIP spec r = (Inl e, r') \<Longrightarrow>
     daemon_step vmIP r (snd (closeForwarders r')\<lparr>run_phase := Returned\<rparr>)"
| register: "run_phase r = Binding \<Longrightarrow> run_bound r = Some (spec, f) \<Longrightarrow>
     registerForwarder (spec_Name spec) f r = (Inr u, r') \<Longrightarrow>
     daemon_step vmIP r (r'\<lparr>run_bound := None,
       run_states := AList.update (spec_Name spec) (bound_state spec f) (run_states r')\<rparr>)"
| degraded: "run_phase r = Binding \<Longrightarrow> run_bound r = None \<Longrightarrow> run_specs r = [] \<Longrightarrow>
     writeDaemonDegradedMarker e r = (res, r') \<Longrightarrow>
     daemon_step vmIP r (r'\<lparr>run_phase := Serving\<rparr>)"
| ready: "run_phase r = Binding \<Longrightarrow> run_bound r = None \<Longrightarrow> run_specs r = [] \<Longrightarrow>
     publishReady pid vmIP cpu ram (run_states r) r = (Inr u, r') \<Longrightarrow>
     daemon_step vmIP r (r'\<lparr>run_phase := Serving\<rparr>)"
| ready_failed: "run_phase r = Binding \<Longrightarrow> run_bound r = None \<Longrightarrow> run_specs r = [] \<Longrightarrow>
     publishReady pid vmIP cpu ram (run_states r) r = (Inl e, r') \<Longrightarrow>
     daemon_step vmIP r (snd (closeForwarders r')\<lparr>run_phase := Returned\<rparr>)"
| request: "run_phase r \<noteq> Returned \<Longrightarrow> handleForwardRequest req r = (resp, r') \<Longrightarrow>
     daemon_step vmIP r r'"
| stop_signal: "run_phase r \<noteq> Returned \<Longrightarrow> closeForwarders r = (res, r') \<Longrightarrow>
     daemon_step vmIP r r'"
| vm_stopped: "run_phase r = Serving \<Longrightarrow> closeForwarders r = (res, r') \<Longrightarrow>
     daemon_step vmIP r (r'\<lparr>run_phase := Returned\<rparr>)"

inductive_cases daemon_stepE: "daemon_step vmIP r r'"

definition initial_run :: "ForwardSpec list \<Rightarrow> run \<Rightarrow> bool" where
  "initial_run specs r \<longleftrightarrow> valid_specs specs \<and> listeners r = [] \<and> forwarderRegistry r = [] \<and>
     \<not> forwardsReady r \<and> \<not> forwardsStopping r \<and> run_phase r = Binding \<and> run_specs r = specs \<and>
     run_bound r = None \<and> run_states r = []"

inductive reachable :: "string \<Rightarrow> ForwardSpec list \<Rightarrow> run \<Rightarrow> bool" for vmIP specs where
  init: "initial_run specs r \<Longrightarrow> reachable vmIP specs r"
| step: "reachable vmIP specs r \<Longrightarrow> daemon_step vmIP r r' \<Longrightarrow> reachable vmIP specs r'"

section \<open>Closing\<close>

lemma closeForwarders_eq:
  "closeForwarders d = close_all (forwarderRegistry d) (d\<lparr>forwardsReady := False, forwardsStopping := True\<rparr>)"
  by (simp add: closeForwarders_def andThen_def modify_def gets_def)

text \<open>Besides the registry and the listeners, closing touches nothing.\<close>

definition closed_from :: "'z daemon_scheme \<Rightarrow> 'z daemon_scheme \<Rightarrow> bool" where
  "closed_from d d' \<longleftrightarrow> files d' = files d \<and> forwardsReady d' = forwardsReady d \<and>
     forwardsStopping d' = forwardsStopping d \<and> forwardGuestHost d' = forwardGuestHost d \<and>
     daemon.more d' = daemon.more d"

lemma close_all_result:
  "close_all reg d = (r, d') \<Longrightarrow> forwarderRegistry d = reg \<Longrightarrow> registry_ok (reg @ others) (listeners d) \<Longrightarrow>
     r = Inr () \<and> forwarderRegistry d' = [] \<and> registry_ok others (listeners d') \<and> closed_from d d'"
proof (induction reg arbitrary: d)
  case (Cons e reg)
  obtain name f where e: "e = (name, f)" by (cases e)
  let ?d1 = "called (d\<lparr>listeners := removeAll (fw_hostIP f, fw_Port f) (listeners d)\<rparr>)"
  let ?d2 = "?d1\<lparr>forwarderRegistry := reg\<rparr>"
  have "name \<notin> set (map fst (reg @ others))" using Cons.prems(3) by (auto simp: registry_ok_def e)
  then have del: "AList.delete name (e # reg) = reg" and del': "AList.delete name (e # reg @ others) = reg @ others"
    by (simp_all add: e image_Un)
  have run: "close_all reg ?d2 = (r, d')"
    using Cons.prems(1,2) del
    by (simp add: e attempt_def andThen_def unregister_def modify_def prod.case_eq_if forwarder_Close_snd)
  have ok: "registry_ok (reg @ others) (listeners ?d2)"
    using registry_ok_delete [OF Cons.prems(3), of name f] del' by (simp add: e)
  have "closed_from d ?d2" by (simp add: closed_from_def called_def)
  then show ?case using Cons.IH [OF run _ ok] by (simp add: closed_from_def)
qed (simp add: ret_def closed_from_def)

lemma closeForwarders_result:
  assumes "closeForwarders d = (r, d')" and "registry_ok (forwarderRegistry d @ others) (listeners d)"
  shows "r = Inr ()" "forwarderRegistry d' = []" "registry_ok others (listeners d')"
    "files d' = files d" "\<not> forwardsReady d'" "forwardsStopping d'" "daemon.more d' = daemon.more d"
  using close_all_result [OF assms(1) [unfolded closeForwarders_eq], of others] assms(2)
  by (simp_all add: closed_from_def)

section \<open>What holds at every moment\<close>

definition in_flight :: "run \<Rightarrow> registry" where
  "in_flight r = (case run_bound r of None \<Rightarrow> [] | Some (spec, f) \<Rightarrow> [(spec_Name spec, f)])"

definition live_states :: "registry \<Rightarrow> string \<Rightarrow> ForwardState option" where
  "live_states reg = (\<lambda>k. map_option forward_state (map_of reg k))"

text \<open>While the configured forwards are being bound, no name is bound twice, and the local map shows
  exactly the registered forwards (until a stop signal closes them).\<close>

definition binding_ok :: "run \<Rightarrow> bool" where
  "binding_ok r \<longleftrightarrow> \<not> forwardsReady r \<and> list_all valid_spec (run_specs r) \<and>
     distinct (map fst (in_flight r) @ map spec_Name (run_specs r)) \<and>
     set (map fst (forwarderRegistry r)) \<inter> spec_Name ` set (run_specs r) = {} \<and>
     (\<forall>spec f. run_bound r = Some (spec, f) \<longrightarrow> fw_hostIP f = ''127.0.0.1'' \<and> fw_guestPort f = spec_GuestPort spec) \<and>
     (forwardsStopping r \<or> map_of (run_states r) = live_states (forwarderRegistry r)) \<and>
     distinct (map fst (run_states r))"

definition run_ok :: "run \<Rightarrow> bool" where
  "run_ok r \<longleftrightarrow> registry_ok (forwarderRegistry r @ in_flight r) (listeners r) \<and>
     (forwardsStopping r \<longrightarrow> \<not> forwardsReady r) \<and>
     (forwardsReady r \<longrightarrow> published (files r) = Some (live_states (forwarderRegistry r))) \<and>
     (run_phase r = Binding \<longrightarrow> binding_ok r) \<and>
     (run_phase r \<noteq> Binding \<longrightarrow> run_bound r = None) \<and>
     (run_phase r = Returned \<longrightarrow> forwarderRegistry r = [] \<and> \<not> forwardsReady r)"

lemma run_ok_idle:
  assumes "run_ok r" and "run_phase r \<noteq> Binding"
  shows "registry_ok (forwarderRegistry r) (listeners r)"
proof -
  have "run_bound r = None" using assms by (simp add: run_ok_def)
  then show ?thesis using assms(1) by (simp add: run_ok_def in_flight_def)
qed

lemma run_ok_init: "initial_run specs r \<Longrightarrow> run_ok r"
  by (auto simp: initial_run_def run_ok_def binding_ok_def in_flight_def live_states_def valid_specs_def)

lemma StartLoopbackForwarder_error:
  "StartLoopbackForwarder name port gh gp w = (Inl e, w') \<Longrightarrow> w' = called w"
  by (simp add: StartLoopbackForwarder_def startForwarder_error)

lemma bindForward_ok:
  assumes "bindForward vmIP spec r = (Inr f, r')" and "valid_spec spec"
  shows "r' = called (r\<lparr>listeners := (fw_hostIP f, fw_Port f) # listeners r\<rparr>)"
    and "(fw_hostIP f, fw_Port f) \<notin> set (listeners r)" and "forwarder_ok (spec_Name spec) f"
    and "fw_hostIP f = ''127.0.0.1''" and "fw_guestPort f = spec_GuestPort spec"
proof -
  have "startForwarder (spec_Name spec) ''127.0.0.1'' (spec_HostPort spec) vmIP (spec_GuestPort spec) r
      = (Inr f, r')"
    using assms(1) by (auto simp: bindForward_def StartLoopbackForwarder_def attempt_def ret_def
        andThen_def throw_def split: prod.splits sum.splits)
  then obtain p where f: "f = \<lparr>fw_hostIP = ''127.0.0.1'', fw_requestedPort = spec_HostPort spec,
      fw_name = spec_Name spec, fw_guestHost = vmIP, fw_guestPort = spec_GuestPort spec, fw_Port = p\<rparr>"
    and r': "r' = called (r\<lparr>listeners := (''127.0.0.1'', p) # listeners r\<rparr>)"
    and p: "(''127.0.0.1'', p) \<notin> set (listeners r)" "spec_HostPort spec \<noteq> 0 \<longrightarrow> p = spec_HostPort spec"
      "spec_HostPort spec = 0 \<longrightarrow> 1 \<le> p \<and> p \<le> 65535"
    using startForwarder_ok by blast
  show "r' = called (r\<lparr>listeners := (fw_hostIP f, fw_Port f) # listeners r\<rparr>)"
    "(fw_hostIP f, fw_Port f) \<notin> set (listeners r)" "fw_hostIP f = ''127.0.0.1''"
    "fw_guestPort f = spec_GuestPort spec"
    using r' p(1) by (simp_all add: f)
  show "forwarder_ok (spec_Name spec) f"
    using assms(2) p(2,3) by (cases "spec_HostPort spec = 0") (auto simp: f forwarder_ok_def valid_spec_def)
qed

lemma bindForward_error:
  assumes "bindForward vmIP spec r = (Inl e, r')"
  shows "closeForwarders (called r) = (Inr (), r') \<or> (\<exists>e'. closeForwarders (called r) = (Inl e', r'))"
  using assms by (auto simp: bindForward_def attempt_def ret_def andThen_def throw_def
      split: prod.splits sum.splits dest!: StartLoopbackForwarder_error)

section \<open>Every step keeps it\<close>

lemma published_cong: "fs vm_state = fs' vm_state \<Longrightarrow> published fs = published fs'"
  by (simp add: published_def raw_field_cong [of fs fs'])

lemma resaved_live:
  assumes r: "resaved (forwarderRegistry d') d d'" and ok: "registry_ok (forwarderRegistry d') (listeners d')"
  shows "published (files d') = Some (live_states (forwarderRegistry d')) \<and>
     forwardsReady d' = forwardsReady d \<and> forwardsStopping d' = forwardsStopping d \<and>
     forwardGuestHost d' = forwardGuestHost d"
  unfolding live_states_def resaved_published [OF r ok] using r unfolding resaved_def by blast

lemma updateForward_registry_ok:
  assumes run: "updateForward request d = (res, d')" and ok: "registry_ok (forwarderRegistry d) (listeners d)"
  shows "registry_ok (forwarderRegistry d') (listeners d')"
proof -
  have "distinct (map fst (forwarderRegistry d))" using ok by (simp add: registry_ok_def)
  with run show ?thesis
  proof (cases rule: updateForward_cases)
    case same
    then show ?thesis using unchanged_registry_ok [OF same ok] by blast
  next
    case (new spec hostIP)
    then show ?thesis using added_registry_ok [OF new(5) ok new(4)] add_target_ok [OF new(3)] by blast
  next
    case gone
    then show ?thesis using removed_registry_ok [OF gone(2) ok] by blast
  qed
qed

lemma updateForward_live:
  assumes run: "updateForward request d = (res, d')" and ok: "registry_ok (forwarderRegistry d) (listeners d)"
    and pub: "published (files d) = Some (live_states (forwarderRegistry d))"
  shows "registry_ok (forwarderRegistry d') (listeners d')"
    "published (files d') = Some (live_states (forwarderRegistry d'))"
    "forwardsReady d' = forwardsReady d" "forwardsStopping d' = forwardsStopping d"
    "forwardGuestHost d' = forwardGuestHost d"
proof -
  have "distinct (map fst (forwarderRegistry d))" using ok by (simp add: registry_ok_def)
  with run have "registry_ok (forwarderRegistry d') (listeners d') \<and>
      published (files d') = Some (live_states (forwarderRegistry d')) \<and>
      forwardsReady d' = forwardsReady d \<and> forwardsStopping d' = forwardsStopping d \<and>
      forwardGuestHost d' = forwardGuestHost d"
  proof (cases rule: updateForward_cases)
    case same
    have "files d' vm_state = files d vm_state" using same by (simp add: unchanged_def)
    from published_cong [of "files d'" "files d", OF this] pub same unchanged_registry_ok [OF same ok] show ?thesis
      by (simp add: unchanged_def live_states_def)
  next
    case (new spec hostIP)
    have "registry_ok (forwarderRegistry d') (listeners d')"
      using added_registry_ok [OF new(5) ok new(4)] add_target_ok [OF new(3)] by blast
    moreover have "resaved (forwarderRegistry d') d d'" using new(5) by (auto simp: added_def Let_def)
    ultimately show ?thesis using resaved_live by blast
  next
    case gone
    have "registry_ok (forwarderRegistry d') (listeners d')" by (rule removed_registry_ok [OF gone(2) ok])
    moreover have "resaved (forwarderRegistry d') d d'" using gone(2) by (auto simp: removed_def)
    ultimately show ?thesis using resaved_live by blast
  qed
  then show "registry_ok (forwarderRegistry d') (listeners d')"
    "published (files d') = Some (live_states (forwarderRegistry d'))"
    "forwardsReady d' = forwardsReady d" "forwardsStopping d' = forwardsStopping d"
    "forwardGuestHost d' = forwardGuestHost d"
    by blast+
qed

lemma run_fields_of_more:
  fixes r r' :: run
  assumes "daemon.more r' = daemon.more r"
  shows "run_phase r' = run_phase r" "run_specs r' = run_specs r" "run_bound r' = run_bound r"
    "run_states r' = run_states r"
  using assms by (cases r; cases r'; simp)+

lemma in_flight_cong: "run_bound r' = run_bound r \<Longrightarrow> in_flight r' = in_flight r"
  by (simp add: in_flight_def)

lemma handleForwardRequest_frame:
  assumes "handleForwardRequest req d = (resp, d')"
  shows "daemon.more d' = daemon.more d"
proof (cases "forwardsReady d")
  case True
  obtain res where "updateForward req d = (res, d')"
    using assms True by (auto simp: handleForwardRequest_def split: prod.splits sum.splits)
  then show ?thesis using keepsD_eq [OF same_rest_updateForward] by (auto simp: same_rest_def)
qed (use assms in \<open>simp add: handleForwardRequest_def\<close>)

lemma request_keeps:
  assumes ok: "run_ok r" and run: "handleForwardRequest req r = (resp, r')"
  shows "run_ok r'"
proof (cases "forwardsReady r")
  case False
  then show ?thesis using ok run by (simp add: handleForwardRequest_def)
next
  case True
  then obtain res where up: "updateForward req r = (res, r')"
    using run by (auto simp: handleForwardRequest_def split: prod.splits sum.splits)
  note same = run_fields_of_more [OF handleForwardRequest_frame [OF run]]
  have phase: "run_phase r = Serving" and bound: "run_bound r = None"
    using ok True by (cases "run_phase r"; auto simp: run_ok_def binding_ok_def)+
  have "registry_ok (forwarderRegistry r) (listeners r)"
    "published (files r) = Some (live_states (forwarderRegistry r))" "\<not> forwardsStopping r"
    using ok True bound by (auto simp: run_ok_def in_flight_def)
  with updateForward_live [OF up] show ?thesis
    using phase bound same by (simp add: run_ok_def in_flight_def)
qed

lemma stop_keeps:
  assumes ok: "run_ok r" and run: "closeForwarders r = (res, r')"
  shows "run_ok r'" and "run_bound r = None \<Longrightarrow> run_ok (r'\<lparr>run_phase := Returned\<rparr>)"
proof -
  have reg: "registry_ok (forwarderRegistry r @ in_flight r) (listeners r)" using ok by (simp add: run_ok_def)
  note close = closeForwarders_result [OF run reg]
  note same = run_fields_of_more [OF close(7)]
  have fl: "in_flight r' = in_flight r" by (rule in_flight_cong) (rule same)
  have "run_phase r = Binding \<Longrightarrow> binding_ok r'"
    using ok close same unfolding run_ok_def binding_ok_def fl by simp
  then show "run_ok r'" using ok close same fl by (simp add: run_ok_def)
  then show "run_ok (r'\<lparr>run_phase := Returned\<rparr>)" if "run_bound r = None"
    using close same that by (simp add: run_ok_def in_flight_def)
qed

lemma registry_ok_open:
  assumes "registry_ok reg ls" and "name \<notin> set (map fst reg)" and "forwarder_ok name f"
    and "(fw_hostIP f, fw_Port f) \<notin> set ls"
  shows "registry_ok (reg @ [(name, f)]) ((fw_hostIP f, fw_Port f) # ls)"
  using registry_ok_add [of reg ls name f] assms by (simp add: update_new map_of_eq_None_iff)

lemma bind_keeps:
  assumes ok: "run_ok r" and phase: "run_phase r = Binding" "run_bound r = None" "run_specs r = spec # specs"
    and run: "bindForward vmIP spec r = (Inr f, r')"
  shows "run_ok (r'\<lparr>run_bound := Some (spec, f), run_specs := specs\<rparr>)"
proof -
  have b: "binding_ok r" and reg: "registry_ok (forwarderRegistry r) (listeners r)"
    using ok phase by (simp_all add: run_ok_def in_flight_def)
  have v: "valid_spec spec" using b phase by (simp add: binding_ok_def)
  note f = bindForward_ok [OF run v]
  have "spec_Name spec \<notin> set (map fst (forwarderRegistry r))" using b phase by (auto simp: binding_ok_def)
  then have "registry_ok (forwarderRegistry r @ [(spec_Name spec, f)])
      ((fw_hostIP f, fw_Port f) # listeners r)"
    by (rule registry_ok_open [OF reg _ f(3,2)])
  moreover have "binding_ok (r'\<lparr>run_bound := Some (spec, f), run_specs := specs\<rparr>)"
    using b phase f(4,5) unfolding f(1) by (auto simp: binding_ok_def in_flight_def called_def)
  ultimately show ?thesis using ok phase b unfolding f(1)
    by (simp add: run_ok_def in_flight_def binding_ok_def called_def)
qed

lemma registerForwarder_eq:
  "registerForwarder name f d = (Inr (), d\<lparr>forwarderRegistry := AList.update name f (forwarderRegistry d)\<rparr>)"
  by (simp add: registerForwarder_def modify_def)

lemma register_keeps:
  assumes ok: "run_ok r" and phase: "run_phase r = Binding" "run_bound r = Some (spec, f)"
    and run: "registerForwarder (spec_Name spec) f r = (Inr u, r')"
  shows "run_ok (r'\<lparr>run_bound := None,
    run_states := AList.update (spec_Name spec) (bound_state spec f) (run_states r')\<rparr>)"
proof -
  have b: "binding_ok r" and reg: "registry_ok (forwarderRegistry r @ [(spec_Name spec, f)]) (listeners r)"
    using ok phase by (simp_all add: run_ok_def in_flight_def)
  have r': "r' = r\<lparr>forwarderRegistry := AList.update (spec_Name spec) f (forwarderRegistry r)\<rparr>"
    using run by (simp add: registerForwarder_eq)
  have new: "spec_Name spec \<notin> set (map fst (forwarderRegistry r))"
    using reg by (simp add: registry_ok_def)
  note upd = update_new [OF new]
  have bs: "bound_state spec f = forward_state f"
    using b phase by (simp add: binding_ok_def bound_state_def forward_state_def)
  have live: "live_states (AList.update (spec_Name spec) f (forwarderRegistry r)) =
      (live_states (forwarderRegistry r))(spec_Name spec \<mapsto> forward_state f)"
    by (intro ext) (simp add: live_states_def update_conv')
  have "binding_ok (r'\<lparr>run_bound := None,
      run_states := AList.update (spec_Name spec) (bound_state spec f) (run_states r')\<rparr>)"
    using b phase unfolding binding_ok_def bs r'
    by (auto simp: in_flight_def update_conv' live [unfolded upd] distinct_update upd)
  then show ?thesis
    using ok phase b reg upd unfolding r' by (simp add: run_ok_def in_flight_def binding_ok_def)
qed

lemma degraded_keeps:
  assumes ok: "run_ok r" and phase: "run_phase r = Binding" "run_bound r = None"
    and run: "writeDaemonDegradedMarker e r = (res, r')"
  shows "run_ok (r'\<lparr>run_phase := Serving\<rparr>)"
proof -
  have sp: "same_process r r'" by (rule keepsD_eq [OF same_process_artifacts(2) run])
  then have more: "world.more r' = world.more r" and ls: "listeners r' = listeners r"
    unfolding same_process_def by blast+
  note d = daemon_of_more [OF more] run_fields_of_more [OF daemon_more_of_more [OF more]]
  show ?thesis using ok phase d ls by (simp add: run_ok_def in_flight_def binding_ok_def)
qed

lemma publishReady_error:
  assumes "publishReady pid vmIP cpu ram fw r = (Inl e, r')"
  shows "same_process r r'"
proof -
  have "writeHealthyStartArtifacts pid vmIP cpu ram sharedDirName fw r = (Inl e, r')"
    using assms by (auto simp: publishReady_def modify_def elim: andThen_InlE)
  then show ?thesis by (rule keepsD_eq [OF same_process_artifacts(1)])
qed

lemma publishReady_ok:
  assumes "publishReady pid vmIP cpu ram fw r = (Inr u, r')"
  obtains r1 where "writeHealthyStartArtifacts pid vmIP cpu ram sharedDirName fw r = (Inr (), r1)"
    and "r' = r1\<lparr>forwardGuestHost := vmIP, forwardsReady := \<not> forwardsStopping r1\<rparr>"
  using assms that unfolding publishReady_def by (elim andThen_InrE) (auto simp: modify_def)

lemma ready_failed_keeps:
  assumes ok: "run_ok r" and phase: "run_phase r = Binding" "run_bound r = None"
    and run: "publishReady pid vmIP cpu ram fw r = (Inl e, r')"
  shows "run_ok (snd (closeForwarders r')\<lparr>run_phase := Returned\<rparr>)"
proof -
  have sp: "same_process r r'" by (rule publishReady_error [OF run])
  then have more: "world.more r' = world.more r" and ls: "listeners r' = listeners r"
    unfolding same_process_def by blast+
  note d = daemon_of_more [OF more] run_fields_of_more [OF daemon_more_of_more [OF more]]
  have "run_ok r'"
    using ok phase d ls by (simp add: run_ok_def in_flight_def binding_ok_def)
  moreover obtain res r2 where "closeForwarders r' = (res, r2)" by (cases "closeForwarders r'")
  ultimately show ?thesis using stop_keeps(2) d(7) phase(2) by simp
qed

lemma ready_keeps:
  assumes ok: "run_ok r" and phase: "run_phase r = Binding" "run_bound r = None"
    and run: "publishReady pid vmIP cpu ram (run_states r) r = (Inr u, r')"
  shows "run_ok (r'\<lparr>run_phase := Serving\<rparr>)"
proof -
  obtain r1 where w: "writeHealthyStartArtifacts pid vmIP cpu ram sharedDirName (run_states r) r = (Inr (), r1)"
    and r': "r' = r1\<lparr>forwardGuestHost := vmIP, forwardsReady := \<not> forwardsStopping r1\<rparr>"
    by (rule publishReady_ok [OF run])
  note w = writeHealthyStartArtifacts_ok [OF w]
  note d = daemon_of_more [OF w(4)] run_fields_of_more [OF daemon_more_of_more [OF w(4)]]
  have b: "binding_ok r" and reg: "registry_ok (forwarderRegistry r) (listeners r)"
    using ok phase by (simp_all add: run_ok_def in_flight_def)
  have "published (files r1) = Some (live_states (forwarderRegistry r))" if "\<not> forwardsStopping r"
  proof -
    have m: "map_of (run_states r) = live_states (forwarderRegistry r)" "distinct (map fst (run_states r))"
      using b that by (simp_all add: binding_ok_def)
    have "valid_state s" if "(k, s) \<in> set (run_states r)" for k s
    proof -
      have "live_states (forwarderRegistry r) k = Some s" using m that by (metis map_of_is_SomeI)
      then obtain f where "(k, f) \<in> set (forwarderRegistry r)" and "s = forward_state f"
        by (auto simp: live_states_def dest: map_of_SomeD)
      then show ?thesis using registry_ok_valid_forwards [OF reg]
        by (auto simp: valid_forwards_def forwardStatesLocked_def)
    qed
    then have v: "valid_forwards (run_states r)" using m(2) by (auto simp: valid_forwards_def)
    show ?thesis
      using w(1) m by (simp add: published_def decode_state_map_encode [OF v] map_of_sort_key)
  qed
  then show ?thesis
    using reg d w(3) phase unfolding r' by (simp add: run_ok_def in_flight_def)
qed

lemma bind_failed_keeps:
  assumes ok: "run_ok r" and phase: "run_phase r = Binding" "run_bound r = None"
    and run: "bindForward vmIP spec r = (Inl e, r')"
  shows "run_ok (snd (closeForwarders r')\<lparr>run_phase := Returned\<rparr>)"
proof -
  have "run_ok (called r)"
    using ok phase by (simp add: run_ok_def in_flight_def binding_ok_def called_def)
  moreover obtain res where cl: "closeForwarders (called r) = (res, r')"
    using bindForward_error [OF run] by blast
  ultimately have ok': "run_ok r'" by (rule stop_keeps(1))
  have "registry_ok (forwarderRegistry (called r) @ []) (listeners (called r))"
    using ok phase by (simp add: run_ok_def in_flight_def)
  from closeForwarders_result(7) [OF cl this] have "daemon.more r' = daemon.more r" by simp
  then have b: "run_bound r' = None" using run_fields_of_more(3) phase(2) by metis
  obtain res2 r2 where "closeForwarders r' = (res2, r2)" by (cases "closeForwarders r'")
  then show ?thesis using stop_keeps(2) [OF ok' _ b] by simp
qed

lemma step_keeps: "daemon_step vmIP r r' \<Longrightarrow> run_ok r \<Longrightarrow> run_ok r'"
proof (induction rule: daemon_step.induct)
  case (vm_stopped r res r')
  then have "run_bound r = None" by (simp add: run_ok_def)
  with vm_stopped show ?case using stop_keeps(2) by blast
qed (auto intro: bind_keeps bind_failed_keeps register_keeps degraded_keeps ready_keeps ready_failed_keeps
      request_keeps stop_keeps(1))

interpretation run: invariant "daemon_step vmIP" run_ok
  by unfold_locales (rule step_keeps)

lemma reachable_ok: "reachable vmIP specs r \<Longrightarrow> run_ok r"
  by (induction rule: reachable.induct) (auto intro: run_ok_init run.step_inv)

end
