(* ===== verification/Forward_Contract.thy ===== *)
theory Forward_Contract
  imports Daemon_Run
begin

text \<open>
  What the live-forward commands promise a client, as a relation between the forwards before, the
  answer, and the forwards after, without sockets, files or failures; and the proof that
  \<open>handleForwardRequest\<close> keeps the promise for every pattern of system failures.
\<close>

section \<open>The promise\<close>

type_synonym view = "string \<Rightarrow> forwarder option"

definition view :: "'z daemon_scheme \<Rightarrow> view" where
  "view d = map_of (forwarderRegistry d)"

text \<open>An answer with an error changes nothing, except that a removal may have removed the forward
  although closing its socket failed. An answer without one lists all forwards.\<close>

definition promise :: "forwardRequest \<Rightarrow> view \<Rightarrow> forwardResponse \<Rightarrow> view \<Rightarrow> bool" where
  "promise request A resp A' \<longleftrightarrow>
     (case resp_Forwards resp of
        None \<Rightarrow> resp_Error resp \<noteq> [] \<and>
          (A' = A \<or> req_Request request = ''forward-remove'' \<and> A' = A(req_Name request := None))
      | Some m \<Rightarrow> resp_Error resp = [] \<and> map_of m = map_option forward_state \<circ> A' \<and>
          (req_Request request = ''forward-list'' \<and> A' = A \<or>
           req_Request request = ''forward-remove'' \<and> A' = A(req_Name request := None) \<or>
           req_Request request = ''forward-add'' \<and> (\<exists>spec hostIP f.
             add_target request = Some (spec, hostIP) \<and> same_settings spec hostIP f \<and>
             (A (spec_Name spec) = None \<or> A (spec_Name spec) = Some f) \<and>
             A' = A(spec_Name spec \<mapsto> f))))"

section \<open>The daemon keeps it\<close>

lemma unchanged_view: "unchanged d d' \<Longrightarrow> view d' = view d"
  by (simp add: unchanged_def view_def)

lemma removed_view: "removed name d d' \<Longrightarrow> view d' = (view d)(name := None)"
  by (auto simp: removed_def view_def AList.delete_conv')

lemma added_view:
  assumes "added spec hostIP d d'"
  obtains f where "same_settings spec hostIP f" and "view d' = (view d)(spec_Name spec \<mapsto> f)"
    and "fw_guestHost f = forwardGuestHost d" and "(hostIP, fw_Port f) \<in> set (listeners d')"
    and "spec_HostPort spec \<noteq> 0 \<longrightarrow> fw_Port f = spec_HostPort spec"
  using assms by (force simp: added_def Let_def view_def same_settings_def update_conv')

lemma forward_states_view: "map_of (forwardStatesLocked (forwarderRegistry d)) = map_option forward_state \<circ> view d"
  by (intro ext) (simp add: forward_states_lookup view_def)

lemma error_response_simps [simp]: "resp_Forwards (error_response e) = None" "resp_Error (error_response e) = e"
  by (simp_all add: error_response_def)

text \<open>A request that succeeds did what it says.\<close>

lemma updateForward_done:
  assumes run: "updateForward request d = (Inr u, d')" and dist: "distinct (map fst (forwarderRegistry d))"
  shows "req_Request request = ''forward-list'' \<and> view d' = view d \<or>
     req_Request request = ''forward-remove'' \<and> view d' = (view d)(req_Name request := None) \<or>
     req_Request request = ''forward-add'' \<and> (\<exists>spec hostIP f.
       add_target request = Some (spec, hostIP) \<and> same_settings spec hostIP f \<and>
       (view d (spec_Name spec) = None \<or> view d (spec_Name spec) = Some f) \<and>
       view d' = (view d)(spec_Name spec \<mapsto> f))"
proof -
  consider (list) "req_Request request = ''forward-list''" "d' = d"
    | (add) "req_Request request = ''forward-add''" "forward_add request d = (Inr (), d')"
    | (remove) "req_Request request = ''forward-remove''" "forward_remove request d = (Inr (), d')"
    using run by (auto simp: updateForward_def ret_def throw_def split: if_splits)
  then show ?thesis
  proof cases
    case add
    from add(2) show ?thesis
    proof (cases rule: forward_add_cases)
      case (present spec hostIP f)
      then have "view d (spec_Name spec) = Some f" by (simp add: view_def)
      then have "view d' = (view d)(spec_Name spec \<mapsto> f)" using present(2) by (simp add: fun_upd_idem)
      with present add(1) \<open>view d (spec_Name spec) = Some f\<close> show ?thesis by blast
    next
      case (new spec hostIP)
      obtain f where "same_settings spec hostIP f" "view d' = (view d)(spec_Name spec \<mapsto> f)"
        by (rule added_view [OF new(4)])
      moreover have "view d (spec_Name spec) = None" using new(3) by (simp add: view_def)
      ultimately show ?thesis using add(1) new(2) by blast
    qed simp
  next
    case remove
    from remove(2) dist have "view d' = (view d)(req_Name request := None)"
    proof (cases rule: forward_remove_cases)
      case absent
      then show ?thesis by (auto simp: view_def)
    qed (simp_all add: removed_view)
    with remove(1) show ?thesis by blast
  qed (simp add: view_def)
qed

lemma updateForward_failed:
  assumes run: "updateForward request d = (Inl e, d')" and dist: "distinct (map fst (forwarderRegistry d))"
  shows "unchanged d d' \<or> req_Request request = ''forward-remove'' \<and> removed (req_Name request) d d'"
  using run dist by (cases rule: updateForward_cases) auto

lemma handle_promise:
  assumes run: "handleForwardRequest request d = (resp, d')"
    and dist: "distinct (map fst (forwarderRegistry d))"
  shows "promise request (view d) resp (view d')"
proof (cases "forwardsReady d")
  case False
  then show ?thesis using run by (auto simp: handleForwardRequest_def promise_def)
next
  case True
  obtain res where up: "updateForward request d = (res, d')"
    using run True by (auto simp: handleForwardRequest_def split: prod.splits sum.splits)
  show ?thesis
  proof (cases res)
    case (Inl e)
    then have "resp = error_response (error_text e)"
      using run True up by (simp add: handleForwardRequest_def)
    moreover have "error_text e \<noteq> []"
      using errsD [OF updateForward_has_text up [unfolded Inl]] by (rule error_text_nonempty)
    moreover have "view d' = view d \<or>
        req_Request request = ''forward-remove'' \<and> view d' = (view d)(req_Name request := None)"
      using updateForward_failed [OF up [unfolded Inl] dist] unchanged_view removed_view by blast
    ultimately show ?thesis by (simp add: promise_def)
  next
    case (Inr u)
    then have "resp = \<lparr>resp_Forwards = Some (forwardStatesLocked (forwarderRegistry d')), resp_Error = []\<rparr>"
      using run True up by (simp add: handleForwardRequest_def)
    then show ?thesis
      using updateForward_done [OF up [unfolded Inr] dist] by (simp add: promise_def forward_states_view)
  qed
qed

text \<open>What a reader of \<open>vm-state.json\<close> can see while a request runs.\<close>

lemma updateForward_observed:
  assumes run: "updateForward request d = (r, d')" and dist: "distinct (map fst (forwarderRegistry d))"
  shows "\<exists>h. history d' = h @ history d \<and>
     (\<forall>fs \<in> set h. fs vm_state = files d vm_state \<or> fs vm_state = files d' vm_state)"
  using run dist
proof (cases rule: updateForward_cases)
  case same
  then show ?thesis unfolding unchanged_def by blast
next
  case new
  then show ?thesis unfolding added_def Let_def resaved_def by blast
next
  case gone
  then show ?thesis unfolding removed_def resaved_def by blast
qed

lemma updateForward_other_entries:
  assumes run: "updateForward request d = (r, d')" and dist: "distinct (map fst (forwarderRegistry d))"
    and k: "k \<noteq> ''forwards''"
  shows "raw_field (files d') k = raw_field (files d) k"
  using run dist
proof (cases rule: updateForward_cases)
  case same
  then have "files d' vm_state = files d vm_state" by (simp add: unchanged_def)
  then show ?thesis using raw_field_cong by metis
next
  case new
  then show ?thesis using k unfolding added_def Let_def resaved_def by auto
next
  case gone
  then show ?thesis using k unfolding removed_def resaved_def by auto
qed

text \<open>Only \<open>vm-state.json\<close> and temporary files are ever written.\<close>

lemma updateForward_other_files:
  assumes run: "updateForward request d = (r, d')" and dist: "distinct (map fst (forwarderRegistry d))"
    and p: "p \<notin> insert vm_state temps"
  shows "files d' p = files d p"
  using run dist
  by (cases rule: updateForward_cases)
     (use p in \<open>auto simp: unchanged_def added_def Let_def removed_def resaved_def\<close>)

section \<open>Without failures a request succeeds\<close>

definition healthy :: "'z world_scheme \<Rightarrow> bool" where
  "healthy w \<longleftrightarrow> no_faults w \<and> temps_free w"

lemma saveForwardState_succeeds:
  assumes h: "healthy d" and pub: "published (files d) \<noteq> None"
  shows "fst (saveForwardState d) = Inr ()"
proof -
  obtain data sz mode m where f: "files d vm_state = Some (File data sz mode)"
    and m: "decode_raw_map (file_content data sz) = Inr (Some m)"
    using pub by (auto simp: published_def raw_field_def split: option.splits node.splits sum.splits)
  have r: "os_ReadFile vm_state d = (Inr (file_content data sz), called d)"
    using h f by (simp add: os_ReadFile_def healthy_def)
  have w: "fst (writeVMState x (called d)) = Inr ()" for x
    using h f by (intro writeVMState_succeeds)
      (simp_all add: healthy_def temps_free_def temp_name_in_temps)
  show ?thesis
    using w by (simp add: saveForwardState_def andThen_def onErr_def lift_def gets_def r m)
qed

definition free_endpoint :: "ForwardSpec \<Rightarrow> string \<Rightarrow> 'z daemon_scheme \<Rightarrow> bool" where
  "free_endpoint spec hostIP d \<longleftrightarrow>
     (let p = (if spec_HostPort spec = 0 then ephemeral d (tick d) else spec_HostPort spec) in
      1 \<le> p \<and> p \<le> 65535 \<and> port_free d hostIP p)"

lemma open_and_publish_succeeds:
  assumes h: "healthy d" and pub: "published (files d) \<noteq> None"
    and free: "free_endpoint spec hostIP d" and v: "valid_spec spec"
  shows "fst (open_and_publish spec hostIP d) = Inr ()"
proof -
  obtain f p where start: "startForwarder (spec_Name spec) hostIP (spec_HostPort spec) (forwardGuestHost d)
      (spec_GuestPort spec) d = (Inr f, called (d\<lparr>listeners := (hostIP, p) # listeners d\<rparr>))"
    using h free by (auto simp: startForwarder_def andThen_def onErr_def net_Listen_def free_endpoint_def
        Let_def healthy_def ret_def split: if_splits)
  let ?d = "called (d\<lparr>listeners := (hostIP, p) # listeners d\<rparr>)
    \<lparr>forwarderRegistry := AList.update (spec_Name spec) f (forwarderRegistry d)\<rparr>"
  have "healthy ?d" using h by (simp add: healthy_def no_faults_def temps_free_def called_def)
  moreover have "published (files ?d) \<noteq> None" using pub by simp
  ultimately have "fst (saveForwardState ?d) = Inr ()" by (rule saveForwardState_succeeds)
  then show ?thesis
    by (simp add: open_and_publish_def andThen_def gets_def start registerForwarder_eq attempt_def ret_def
        prod.case_eq_if)
qed

lemma same_faults_saveForwardState [keeps_intros]: "keeps same_faults saveForwardState"
  unfolding saveForwardState_def
  by (intro same_faults.keeps_rules keeps_intros)
     (auto split: option.split intro!: same_faults.keeps_rules keeps_intros)

lemma forward_remove_succeeds:
  assumes h: "healthy d" and pub: "published (files d) \<noteq> None"
  shows "fst (forward_remove request d) = Inr ()"
proof (cases "map_of (forwarderRegistry d) (req_Name request)")
  case None
  then show ?thesis by (simp add: forward_remove_absent)
next
  case (Some f)
  let ?d = "d\<lparr>forwarderRegistry := AList.delete (req_Name request) (forwarderRegistry d)\<rparr>"
  have "healthy ?d" "published (files ?d) \<noteq> None"
    using h pub by (simp_all add: healthy_def no_faults_def temps_free_def)
  then have "fst (saveForwardState ?d) = Inr ()" by (rule saveForwardState_succeeds)
  then obtain d1 where sv: "saveForwardState ?d = (Inr (), d1)" by (metis prod.collapse)
  have "same_faults ?d d1" by (rule keepsD_eq [OF same_faults_saveForwardState sv])
  then have "no_faults d1" using h by (simp add: same_faults_def healthy_def no_faults_def)
  then have "fst (forwarder_Close f d1) = Inr ()"
    by (simp add: forwarder_Close_def attempt_def net_CloseListener_def ret_def)
  then show ?thesis
    using Some sv by (simp add: forward_remove_def andThen_def gets_def unregister_def modify_def attempt_def)
qed

end
