(* ===== verification/Samples.thy ===== *)
theory Samples
  imports Forward_Contract
begin

text \<open>
  Concrete worlds in which the properties are applied: a system without failures, the daemon of
  \<open>start --forward db:8563:0\<close> through its startup, and some requests to it.
\<close>

definition sample_run :: run where
  "sample_run = \<lparr>files = Map.empty, faults = \<lambda>_. None, rands = \<lambda>_ _. 7, ephemeral = \<lambda>_. 49152,
     busy = \<lambda>_ _. False, listeners = [], tick = 0, history = [],
     forwarderRegistry = [], forwardGuestHost = [], forwardsReady = False, forwardsStopping = False,
     run_phase = Binding,
     run_specs = [\<lparr>spec_Name = ''db'', spec_GuestPort = 8563, spec_HostPort = 0\<rparr>],
     run_bound = None, run_states = []\<rparr>"

definition sample_ip :: string where
  "sample_ip = ''192.168.64.5''"

definition sample_forwarder :: forwarder where
  "sample_forwarder = \<lparr>fw_hostIP = ''127.0.0.1'', fw_requestedPort = 0, fw_name = ''db'',
     fw_guestHost = sample_ip, fw_guestPort = 8563, fw_Port = 49152\<rparr>"

definition sample_bound :: run where
  "sample_bound = snd (bindForward sample_ip (hd (run_specs sample_run)) sample_run)
     \<lparr>run_bound := Some (hd (run_specs sample_run), sample_forwarder), run_specs := []\<rparr>"

definition sample_registered :: run where
  "sample_registered = snd (registerForwarder ''db'' sample_forwarder sample_bound)
     \<lparr>run_bound := None, run_states := [(''db'', bound_state (hd (run_specs sample_run)) sample_forwarder)]\<rparr>"

definition sample_ready :: run where
  "sample_ready = snd (publishReady 4711 sample_ip ''2'' ''4096'' (run_states sample_registered) sample_registered)
     \<lparr>run_phase := Serving\<rparr>"

lemma sample_bind:
  "bindForward sample_ip (hd (run_specs sample_run)) sample_run =
     (Inr sample_forwarder, called (sample_run\<lparr>listeners := [(''127.0.0.1'', 49152)]\<rparr>))"
  by (simp add: sample_run_def bindForward_def StartLoopbackForwarder_def startForwarder_def attempt_def
      andThen_def onErr_def net_Listen_def port_free_def Let_def ret_def sample_forwarder_def called_def)

lemma sample_bound_eq:
  "sample_bound = called (sample_run\<lparr>listeners := [(''127.0.0.1'', 49152)]\<rparr>)
     \<lparr>run_bound := Some (hd (run_specs sample_run), sample_forwarder), run_specs := []\<rparr>"
  by (simp add: sample_bound_def sample_bind)

lemma sample_initial: "initial_run (run_specs sample_run) sample_run"
proof -
  have "valid_specs (run_specs sample_run)" by code_simp
  then show ?thesis by (simp add: initial_run_def sample_run_def)
qed

lemma sample_reachable_bound: "reachable sample_ip (run_specs sample_run) sample_bound"
  by (rule reachable.step [OF reachable.init [OF sample_initial]], unfold sample_bound_eq,
      rule daemon_step.bind [OF _ _ _ sample_bind]) (simp_all add: sample_run_def)

lemma sample_registered_eq:
  "sample_registered = sample_bound\<lparr>forwarderRegistry := [(''db'', sample_forwarder)], run_bound := None,
     run_states := [(''db'', bound_state (hd (run_specs sample_run)) sample_forwarder)]\<rparr>"
  by (simp add: sample_registered_def registerForwarder_eq sample_bound_eq sample_run_def called_def)

lemma sample_reachable_registered: "reachable sample_ip (run_specs sample_run) sample_registered"
proof (rule reachable.step [OF sample_reachable_bound])
  let ?spec = "hd (run_specs sample_run)"
  have name: "spec_Name ?spec = ''db''" by (simp add: sample_run_def)
  have "daemon_step sample_ip sample_bound
     ((sample_bound\<lparr>forwarderRegistry := AList.update (spec_Name ?spec) sample_forwarder
         (forwarderRegistry sample_bound)\<rparr>)\<lparr>run_bound := None,
       run_states := AList.update (spec_Name ?spec) (bound_state ?spec sample_forwarder)
         (run_states (sample_bound\<lparr>forwarderRegistry := AList.update (spec_Name ?spec) sample_forwarder
         (forwarderRegistry sample_bound)\<rparr>))\<rparr>)"
    by (rule daemon_step.register [OF _ _ registerForwarder_eq])
       (simp_all add: sample_bound_eq sample_run_def called_def)
  then show "daemon_step sample_ip sample_bound sample_registered"
    by (simp add: sample_registered_eq name) (simp add: sample_bound_eq sample_run_def called_def)
qed

lemma sample_registered_fields:
  "run_phase sample_registered = Binding" "run_bound sample_registered = None"
  "run_specs sample_registered = []" "files sample_registered = Map.empty" "no_faults sample_registered"
  "forwarderRegistry sample_registered = [(''db'', sample_forwarder)]"
  "forwardsStopping sample_registered = False"
  by (simp_all add: sample_registered_eq sample_bound_eq sample_run_def called_def no_faults_def)

lemma sample_publish:
  obtains r' where "publishReady 4711 sample_ip ''2'' ''4096'' (run_states sample_registered) sample_registered
      = (Inr (), r')" and "sample_ready = r'\<lparr>run_phase := Serving\<rparr>"
proof -
  let ?m = "writeHealthyStartArtifacts 4711 sample_ip ''2'' ''4096'' sharedDirName (run_states sample_registered)"
  have "fst (?m sample_registered) = Inr ()"
    by (rule writeHealthyStartArtifacts_succeeds) (simp_all add: sample_registered_fields temps_free_def)
  then have "fst (publishReady 4711 sample_ip ''2'' ''4096'' (run_states sample_registered)
      sample_registered) = Inr ()"
    by (simp add: publishReady_def andThen_def modify_def prod.case_eq_if)
  then show thesis using that by (metis prod.collapse sample_ready_def)
qed

lemma sample_reachable: "reachable sample_ip (run_specs sample_run) sample_ready"
proof -
  obtain r' where p: "publishReady 4711 sample_ip ''2'' ''4096'' (run_states sample_registered)
      sample_registered = (Inr (), r')" and r: "sample_ready = r'\<lparr>run_phase := Serving\<rparr>"
    by (rule sample_publish)
  show ?thesis unfolding r
    by (rule reachable.step [OF sample_reachable_registered], rule daemon_step.ready [OF _ _ _ p])
       (simp_all add: sample_registered_fields)
qed

lemma sample_ready_fields:
  "forwarderRegistry sample_ready = [(''db'', sample_forwarder)]" "forwardsReady sample_ready"
  "run_phase sample_ready = Serving" "forwardGuestHost sample_ready = sample_ip"
proof -
  obtain r' where p: "publishReady 4711 sample_ip ''2'' ''4096'' (run_states sample_registered)
      sample_registered = (Inr (), r')" and r: "sample_ready = r'\<lparr>run_phase := Serving\<rparr>"
    by (rule sample_publish)
  obtain r1 where w: "writeHealthyStartArtifacts 4711 sample_ip ''2'' ''4096'' sharedDirName
      (run_states sample_registered) sample_registered = (Inr (), r1)"
    and r': "r' = r1\<lparr>forwardGuestHost := sample_ip, forwardsReady := \<not> forwardsStopping r1\<rparr>"
    by (rule publishReady_ok [OF p])
  note d = daemon_of_more [OF writeHealthyStartArtifacts_ok(4) [OF w]]
  show "forwarderRegistry sample_ready = [(''db'', sample_forwarder)]" "forwardsReady sample_ready"
    "run_phase sample_ready = Serving" "forwardGuestHost sample_ready = sample_ip"
    by (simp_all add: r r' d sample_registered_fields)
qed

section \<open>A daemon that serves requests\<close>

definition sample_state :: "(string \<times> json) list" where
  "sample_state = [(''vm_name'', JStr ''exasol-local-vm''),
     (''forwards'', json_map encode_ForwardState [(''db'', forward_state sample_forwarder)])]"

definition sample_daemon :: daemon where
  "sample_daemon = \<lparr>files = [vm_state \<mapsto> text_file (json_indent (json_map id sample_state)) 420],
     faults = \<lambda>_. None, rands = \<lambda>_ _. 7, ephemeral = \<lambda>_. 49153, busy = \<lambda>_ _. False,
     listeners = [(''127.0.0.1'', 49152)], tick = 0, history = [],
     forwarderRegistry = [(''db'', sample_forwarder)], forwardGuestHost = sample_ip,
     forwardsReady = True, forwardsStopping = False\<rparr>"

definition request :: "string \<Rightarrow> string \<Rightarrow> int \<Rightarrow> int \<Rightarrow> string \<Rightarrow> forwardRequest" where
  "request kind name guestPort hostPort hostIP = \<lparr>req_Request = kind, req_Name = name,
     req_GuestPort = guestPort, req_HostPort = hostPort, req_HostIP = hostIP\<rparr>"

lemma sample_forwarder_ok: "forwarder_ok ''db'' sample_forwarder"
proof -
  have "valid_name ''db''" by code_simp
  then show ?thesis by (simp add: forwarder_ok_def sample_forwarder_def)
qed

lemma sample_registry_ok: "registry_ok (forwarderRegistry sample_daemon) (listeners sample_daemon)"
  using sample_forwarder_ok
  by (simp add: sample_daemon_def registry_ok_def endpoint_def) (simp add: sample_forwarder_def)

lemma sample_raw: "raw_field (files sample_daemon) = map_of sample_state"
  by (rule raw_field_text [of _ _ 420]) (simp_all add: sample_daemon_def sample_state_def)

lemma sample_published:
  "published (files sample_daemon) = Some (live_states (forwarderRegistry sample_daemon))"
proof -
  let ?m = "[(''db'', forward_state sample_forwarder)]"
  have "valid_forwards ?m"
    by (simp add: valid_forwards_def valid_state_def forward_state_def sample_forwarder_def int64_def
        int64_min_def int64_max_def)
  then show ?thesis
    by (simp add: published_def sample_raw decode_state_map_encode) 
       (simp add: sample_state_def decode_state_map_encode sample_daemon_def live_states_def fun_eq_iff)
qed

lemma sample_healthy: "healthy sample_daemon"
  using vm_state_not_temp
  by (auto simp: healthy_def no_faults_def temps_free_def sample_daemon_def)

end
