(* ===== verification/Forward_Claims.thy ===== *)
theory Forward_Claims
  imports Samples
begin

text \<open>
  The properties of live forwarding: over every interleaving of the daemon's startup, requests and
  stop signal, and for every single request under every pattern of system failures.
\<close>

section \<open>Over the life of a daemon\<close>

text \<open>C1: whenever the daemon accepts forward requests, \<open>vm-state.json\<close> lists exactly the live
  forwards with the addresses and ports they listen on, whatever requests, failures and signals came
  before.\<close>

theorem published_is_live:
  assumes "reachable vmIP specs r" and "forwardsReady r"
  shows "published (files r) = Some (\<lambda>name. map_option forward_state (map_of (forwarderRegistry r) name))"
  using reachable_ok [OF assms(1)] assms(2) by (simp add: run_ok_def live_states_def)

theorem published_is_live_witness:
  "\<exists>m. published (files sample_ready) = Some m \<and>
     m ''db'' = Some \<lparr>state_HostIP = ''127.0.0.1'', state_GuestPort = 8563, state_HostPort = 49152\<rparr>"
  using published_is_live [OF sample_reachable sample_ready_fields(2)]
  by (simp add: sample_ready_fields forward_state_def) (simp add: sample_forwarder_def)

text \<open>C2: at every moment the daemon's open TCP sockets are exactly those of the registered forwards
  and of the one being started, each on a loopback address and a real port, no two on the same, and
  no socket is leaked by a failed or interrupted request.\<close>

theorem only_loopback_sockets:
  assumes "reachable vmIP specs r"
  shows "set (listeners r) = endpoint ` set (forwarderRegistry r @ in_flight r) \<and>
    distinct (map endpoint (forwarderRegistry r @ in_flight r)) \<and>
    (\<forall>(ip, port) \<in> set (listeners r). loopback_text ip \<and> 1 \<le> port \<and> port \<le> 65535)"
proof -
  have ok: "registry_ok (forwarderRegistry r @ in_flight r) (listeners r)"
    using reachable_ok [OF assms] by (simp add: run_ok_def)
  then have "\<forall>e \<in> set (forwarderRegistry r @ in_flight r). forwarder_ok (fst e) (snd e)"
    by (auto simp: registry_ok_def)
  then show ?thesis using ok unfolding registry_ok_def by (auto simp: endpoint_def forwarder_ok_def)
qed

theorem only_loopback_sockets_witness:
  "set (listeners sample_bound) = {(''127.0.0.1'', 49152)} \<and>
     list_all (\<lambda>(ip, port). loopback_text ip \<and> 1 \<le> port \<and> port \<le> 65535) (listeners sample_bound)"
proof -
  have "in_flight sample_bound = [(''db'', sample_forwarder)] \<and> forwarderRegistry sample_bound = []"
    by (simp add: sample_bound_eq in_flight_def sample_run_def called_def)
  moreover have "endpoint (''db'', sample_forwarder) = (''127.0.0.1'', 49152)"
    by (simp add: endpoint_def sample_forwarder_def)
  ultimately show ?thesis using only_loopback_sockets [OF sample_reachable_bound]
    by (simp add: list_all_iff)
qed

text \<open>C3: after a stop signal the daemon never accepts a forward request again, also when the signal
  came while it was still starting: every request is refused and changes nothing.\<close>

theorem stop_is_final:
  assumes "reachable vmIP specs r" and "forwardsStopping r"
  shows "resp_Error (fst (handleForwardRequest req r)) \<noteq> [] \<and> snd (handleForwardRequest req r) = r"
  using reachable_ok [OF assms(1)] assms(2) by (simp add: run_ok_def handleForwardRequest_def)

lemma sample_stopped: "reachable sample_ip (run_specs sample_run) (snd (closeForwarders sample_ready))"
  by (rule reachable.step [OF sample_reachable], rule daemon_step.stop_signal [of _ "fst (closeForwarders sample_ready)"])
     (simp_all add: sample_ready_fields)

theorem stop_is_final_witness:
  "resp_Error (fst (handleForwardRequest (request ''forward-list'' [] 0 0 [])
     (snd (closeForwarders sample_ready)))) \<noteq> []"
proof -
  have "registry_ok (forwarderRegistry sample_ready @ []) (listeners sample_ready)"
    using run_ok_idle [OF reachable_ok [OF sample_reachable]] sample_ready_fields(3) by simp
  then have "forwardsStopping (snd (closeForwarders sample_ready))"
    by (intro closeForwarders_result(6) [where r = "fst (closeForwarders sample_ready)" and others = "[]"]) simp_all
  with stop_is_final [OF sample_stopped] show ?thesis by blast
qed

text \<open>C4: when the daemon's main function has returned, normally or with an error at any point of
  the startup, no forward is registered and no socket is open.\<close>

theorem returned_leaves_nothing:
  assumes "reachable vmIP specs r" and "run_phase r = Returned"
  shows "forwarderRegistry r = [] \<and> listeners r = []"
proof -
  have ok: "run_ok r" by (rule reachable_ok [OF assms(1)])
  then have "forwarderRegistry r = []" using assms(2) by (simp add: run_ok_def)
  then show ?thesis using run_ok_idle [OF ok] assms(2) by simp
qed

theorem returned_leaves_nothing_witness:
  "listeners (snd (closeForwarders sample_ready)\<lparr>run_phase := Returned\<rparr>) = []"
proof -
  have "reachable sample_ip (run_specs sample_run) (snd (closeForwarders sample_ready)\<lparr>run_phase := Returned\<rparr>)"
    by (rule reachable.step [OF sample_reachable],
        rule daemon_step.vm_stopped [of _ "fst (closeForwarders sample_ready)"])
       (simp_all add: sample_ready_fields)
  then show ?thesis using returned_leaves_nothing by fastforce
qed

section \<open>One request\<close>

text \<open>C5: whatever fails, every answer of \<open>handleForwardRequest\<close> keeps the promise of the forward
  commands: an error leaves the forwards as they were (a removal may have happened although closing
  the socket failed), a success lists all forwards after exactly the requested change.\<close>

theorem answers_keep_promise:
  assumes "registry_ok (forwarderRegistry d) (listeners d)"
    and "handleForwardRequest req d = (resp, d')"
  shows "promise req (view d) resp (view d')"
  by (rule handle_promise [OF assms(2)]) (use assms(1) in \<open>simp add: registry_ok_def\<close>)

theorem answers_keep_promise_witness:
  "\<exists>resp d'. handleForwardRequest (request ''forward-remove'' ''db'' 0 0 []) sample_daemon = (resp, d') \<and>
     promise (request ''forward-remove'' ''db'' 0 0 []) (view sample_daemon) resp (view d')"
  using answers_keep_promise [OF sample_registry_ok] by (metis prod.collapse)

text \<open>C6: an add that fails at any point (bad settings, port in use, \<open>vm-state.json\<close> unreadable or
  not writable) is rolled back: same forwards, same sockets, same files but for temporary ones, and at
  no moment in between did a reader of \<open>vm-state.json\<close> see anything else.\<close>

theorem failed_add_rolls_back:
  assumes "forward_add req d = (Inl e, d')"
  shows "view d' = view d \<and> listeners d' = listeners d \<and>
    (\<forall>p. p \<notin> temps \<longrightarrow> files d' p = files d p) \<and>
    (\<exists>h. history d' = h @ history d \<and> (\<forall>fs \<in> set h. fs vm_state = files d vm_state))"
proof -
  from assms have "unchanged d d'" by (cases rule: forward_add_cases) auto
  then show ?thesis by (simp add: unchanged_def view_def)
qed

definition full_disk :: daemon where
  "full_disk = sample_daemon\<lparr>faults := (\<lambda>n. if n = 3 then Some (ENOSPC, 10) else None)\<rparr>"

definition ui_spec :: ForwardSpec where
  "ui_spec = \<lparr>spec_Name = ''ui'', spec_GuestPort = 8080, spec_HostPort = 0\<rparr>"

lemma ui_spec_valid: "valid_spec ui_spec"
  by code_simp

lemma full_disk_write:
  assumes "faults w = faults full_disk" and "tick w = 2" and "temps_free w"
  shows "fst (writeVMState data w) = Inl (PathError ''write'' (temp_prefix @ nat_text (rands w 2 0)) ENOSPC)"
proof -
  let ?n = "temp_prefix @ nat_text (rands w 2 0)"
  have "files w ?n = None" using assms(3) by (simp add: temps_free_def temp_name_in_temps)
  then have "temp_name w temp_prefix 0 10000 = Some ?n" using temp_name_free [of w temp_prefix] assms(2) by simp
  then show ?thesis
    using assms(1,2) by (simp add: writeVMState_def os_CreateTemp_def andThen_def deferring_def
        file_Write_def full_disk_def prod.case_eq_if)
qed

lemma full_disk_add: "\<exists>e d'. forward_add (add_request ui_spec []) full_disk = (Inl e, d')"
proof -
  have name: "map_of (forwarderRegistry full_disk) (spec_Name ui_spec) = None"
    by (simp add: full_disk_def sample_daemon_def ui_spec_def)
  have start: "\<exists>f. startForwarder (spec_Name ui_spec) ''127.0.0.1'' (spec_HostPort ui_spec)
      (forwardGuestHost full_disk) (spec_GuestPort ui_spec) full_disk =
      (Inr f, called (full_disk\<lparr>listeners := (''127.0.0.1'', 49153) # listeners full_disk\<rparr>))"
    by (simp add: startForwarder_def andThen_def onErr_def net_Listen_def port_free_def Let_def ret_def
        full_disk_def sample_daemon_def ui_spec_def)
  then obtain f where f: "startForwarder (spec_Name ui_spec) ''127.0.0.1'' (spec_HostPort ui_spec)
      (forwardGuestHost full_disk) (spec_GuestPort ui_spec) full_disk =
      (Inr f, called (full_disk\<lparr>listeners := (''127.0.0.1'', 49153) # listeners full_disk\<rparr>))" ..
  let ?d = "called (full_disk\<lparr>listeners := (''127.0.0.1'', 49153) # listeners full_disk\<rparr>)
    \<lparr>forwarderRegistry := AList.update (spec_Name ui_spec) f (forwarderRegistry full_disk)\<rparr>"
  have free: "temps_free (called ?d)"
    using sample_healthy by (simp add: healthy_def temps_free_def full_disk_def)
  have t: "tick (called ?d) = 2" by (simp add: full_disk_def sample_daemon_def)
  obtain r d1 where sv: "saveForwardState ?d = (r, d1)" by (rule prod.exhaust)
  have "\<exists>e. r = Inl e"
  proof (cases r)
    case (Inr u)
    from saveForwardState_writes [OF sv [unfolded Inr]]
    obtain data where w: "writeVMState data (called ?d) = (Inr u, d1)" ..
    have "faults (called ?d) = faults full_disk" by simp
    from full_disk_write [OF this t free, of data] w show ?thesis by simp
  qed simp
  then obtain e where "saveForwardState ?d = (Inl e, d1)" using sv by blast
  then have "\<exists>e d'. open_and_publish ui_spec ''127.0.0.1'' full_disk = (Inl e, d')"
    by (auto simp: open_and_publish_def andThen_def gets_def f registerForwarder_eq attempt_def throw_def
        unregister_def modify_def prod.case_eq_if)
  then show ?thesis
    using forward_add_accepted [OF add_target_default [OF ui_spec_valid], of full_disk] name by simp
qed

theorem failed_add_rolls_back_witness:
  "\<exists>e d'. forward_add (add_request ui_spec []) full_disk = (Inl e, d') \<and>
     view d' = view full_disk \<and> listeners d' = listeners full_disk"
  using full_disk_add failed_add_rolls_back by metis

text \<open>C7: publication is atomic: whatever calls fail while a request is handled, a reader of
  \<open>vm-state.json\<close> sees the complete file of before the request or the complete file of after it.\<close>

theorem publication_is_atomic:
  assumes "registry_ok (forwarderRegistry d) (listeners d)" and "updateForward req d = (res, d')"
  shows "\<exists>h. history d' = h @ history d \<and>
    (\<forall>fs \<in> set h. fs vm_state = files d vm_state \<or> fs vm_state = files d' vm_state)"
  by (rule updateForward_observed [OF assms(2)]) (use assms(1) in \<open>simp add: registry_ok_def\<close>)

theorem publication_is_atomic_witness:
  "\<exists>res d' h. updateForward (request ''forward-remove'' ''db'' 0 0 []) full_disk = (res, d') \<and>
     history d' = h @ history full_disk \<and>
     list_all (\<lambda>fs. fs vm_state = files full_disk vm_state \<or> fs vm_state = files d' vm_state) h"
proof -
  have "registry_ok (forwarderRegistry full_disk) (listeners full_disk)"
    using sample_registry_ok by (simp add: full_disk_def)
  from publication_is_atomic [OF this] show ?thesis unfolding list_all_iff by (metis prod.collapse)
qed

text \<open>C8: on a running daemon, with a healthy system, a valid add for a new name on a free port
  succeeds: the answer lists the forward, on exactly the requested port when one was requested, and
  its socket is open.\<close>

theorem valid_add_succeeds:
  assumes "forwardsReady d" and "published (files d) \<noteq> None" and "healthy d"
    and "valid_spec spec" and "add_target (add_request spec hostIP) = Some (spec, ip)"
    and "view d (spec_Name spec) = None" and "free_endpoint spec ip d"
  shows "\<exists>m port d'. handleForwardRequest (add_request spec hostIP) d =
      (\<lparr>resp_Forwards = Some m, resp_Error = []\<rparr>, d') \<and>
    map_of m (spec_Name spec) = Some \<lparr>state_HostIP = ip, state_GuestPort = spec_GuestPort spec,
      state_HostPort = port\<rparr> \<and>
    (spec_HostPort spec \<noteq> 0 \<longrightarrow> port = spec_HostPort spec) \<and> (ip, port) \<in> set (listeners d')"
proof -
  have new: "map_of (forwarderRegistry d) (spec_Name spec) = None" using assms(6) by (simp add: view_def)
  have "fst (open_and_publish spec ip d) = Inr ()"
    by (rule open_and_publish_succeeds [OF assms(3,2,7,4)])
  then obtain d' where op: "open_and_publish spec ip d = (Inr (), d')" by (metis prod.collapse)
  then have "forward_add (add_request spec hostIP) d = (Inr (), d')"
    using forward_add_accepted [OF assms(5), of d] new by simp
  then have "handleForwardRequest (add_request spec hostIP) d =
      (\<lparr>resp_Forwards = Some (forwardStatesLocked (forwarderRegistry d')), resp_Error = []\<rparr>, d')"
    using assms(1) by (simp add: handleForwardRequest_def updateForward_def add_request_def)
  moreover obtain f where "same_settings spec ip f" and "view d' = (view d)(spec_Name spec \<mapsto> f)"
      and "fw_guestHost f = forwardGuestHost d" and "(ip, fw_Port f) \<in> set (listeners d')"
      and "spec_HostPort spec \<noteq> 0 \<longrightarrow> fw_Port f = spec_HostPort spec"
    by (rule added_view [OF open_and_publish_ok [OF op]])
  ultimately show ?thesis
    by (auto simp: forward_states_view forward_state_def same_settings_def)
qed

theorem valid_add_succeeds_witness:
  "\<exists>m port d'. handleForwardRequest (add_request ui_spec []) sample_daemon =
      (\<lparr>resp_Forwards = Some m, resp_Error = []\<rparr>, d') \<and>
    map_of m ''ui'' = Some \<lparr>state_HostIP = ''127.0.0.1'', state_GuestPort = 8080, state_HostPort = port\<rparr> \<and>
    (''127.0.0.1'', port) \<in> set (listeners d')"
proof -
  have "forwardsReady sample_daemon" "view sample_daemon (spec_Name ui_spec) = None"
    "free_endpoint ui_spec ''127.0.0.1'' sample_daemon"
    by (simp_all add: sample_daemon_def view_def ui_spec_def free_endpoint_def port_free_def)
  moreover have "published (files sample_daemon) \<noteq> None" by (simp add: sample_published)
  ultimately show ?thesis
    using valid_add_succeeds [OF _ _ sample_healthy ui_spec_valid add_target_default [OF ui_spec_valid]]
    by (fastforce simp: ui_spec_def)
qed

text \<open>C9: adding is idempotent: repeating an add that succeeded, as a client does that lost the
  answer, succeeds with the same answer and changes nothing, not even a file.\<close>

theorem add_is_idempotent:
  assumes "handleForwardRequest req d = (resp, d')" and "req_Request req = ''forward-add''"
    and "resp_Error resp = []" and "registry_ok (forwarderRegistry d) (listeners d)"
    and "published (files d) = Some (live_states (forwarderRegistry d))"
  shows "handleForwardRequest req d' = (resp, d')"
proof -
  have ready: "forwardsReady d"
    using assms(1,3) by (cases "forwardsReady d") (auto simp: handleForwardRequest_def)
  obtain res where up: "updateForward req d = (res, d')"
    using assms(1) ready by (auto simp: handleForwardRequest_def split: prod.splits sum.splits)
  have res: "res = Inr ()"
  proof (cases res)
    case (Inl e)
    then have "resp = error_response (error_text e)" using assms(1) ready up by (simp add: handleForwardRequest_def)
    then show ?thesis
      using assms(3) error_text_nonempty [OF errsD [OF updateForward_has_text up [unfolded Inl]]] by simp
  qed simp
  have resp: "resp = \<lparr>resp_Forwards = Some (forwardStatesLocked (forwarderRegistry d')), resp_Error = []\<rparr>"
    using assms(1) ready up res by (simp add: handleForwardRequest_def)
  have ready': "forwardsReady d'" using updateForward_live(3) [OF up assms(4,5)] ready by simp
  have dist: "distinct (map fst (forwarderRegistry d))" using assms(4) by (simp add: registry_ok_def)
  obtain spec ip f where t: "add_target req = Some (spec, ip)" and f: "same_settings spec ip f"
    and v: "view d' = (view d)(spec_Name spec \<mapsto> f)"
    using updateForward_done [OF up [unfolded res] dist] assms(2) by auto
  have "updateForward req d' = (Inr (), d')"
    using forward_add_accepted [OF t, of d'] f v assms(2) by (simp add: updateForward_def view_def fun_eq_iff)
  then show ?thesis using ready' resp by (simp add: handleForwardRequest_def)
qed

theorem add_is_idempotent_witness:
  "\<exists>resp d'. handleForwardRequest (add_request ui_spec []) sample_daemon = (resp, d') \<and>
     resp_Error resp = [] \<and> handleForwardRequest (add_request ui_spec []) d' = (resp, d')"
proof -
  have "free_endpoint ui_spec ''127.0.0.1'' sample_daemon"
    by (simp add: sample_daemon_def ui_spec_def free_endpoint_def port_free_def)
  then have "fst (open_and_publish ui_spec ''127.0.0.1'' sample_daemon) = Inr ()"
    by (intro open_and_publish_succeeds sample_healthy ui_spec_valid) (simp_all add: sample_published)
  then obtain d' where op: "open_and_publish ui_spec ''127.0.0.1'' sample_daemon = (Inr (), d')"
    by (metis prod.collapse)
  have "map_of (forwarderRegistry sample_daemon) (spec_Name ui_spec) = None" "forwardsReady sample_daemon"
    by (simp_all add: sample_daemon_def ui_spec_def)
  then have run: "handleForwardRequest (add_request ui_spec []) sample_daemon =
      (\<lparr>resp_Forwards = Some (forwardStatesLocked (forwarderRegistry d')), resp_Error = []\<rparr>, d')"
    using forward_add_accepted [OF add_target_default [OF ui_spec_valid], of sample_daemon] op
    by (simp add: handleForwardRequest_def updateForward_def add_request_def)
  have "req_Request (add_request ui_spec []) = ''forward-add''" by (simp add: add_request_def)
  from add_is_idempotent [OF run this _ sample_registry_ok sample_published] run show ?thesis by simp
qed

text \<open>An add for a name that is in use with other settings is refused and changes nothing at
  all, so a live forward is never silently redirected.\<close>

theorem conflicting_add_refused:
  assumes "add_target req = Some (spec, ip)" and "view d (spec_Name spec) = Some f"
    and "\<not> same_settings spec ip f" and "req_Request req = ''forward-add''"
  shows "resp_Error (fst (handleForwardRequest req d)) \<noteq> [] \<and> snd (handleForwardRequest req d) = d"
  using forward_add_accepted [OF assms(1), of d] assms(2-4)
  by (simp add: handleForwardRequest_def updateForward_def view_def)

theorem conflicting_add_refused_witness:
  "snd (handleForwardRequest (add_request \<lparr>spec_Name = ''db'', spec_GuestPort = 22, spec_HostPort = 0\<rparr> [])
     sample_daemon) = sample_daemon"
proof -
  let ?spec = "\<lparr>spec_Name = ''db'', spec_GuestPort = 22, spec_HostPort = 0\<rparr>"
  have "valid_spec ?spec" by code_simp
  from conflicting_add_refused [OF add_target_default [OF this], of sample_daemon sample_forwarder]
  show ?thesis
    by (simp add: add_request_def view_def same_settings_def sample_daemon_def sample_forwarder_def)
qed

text \<open>C10: a request for one name leaves all else alone: the other forwards, the other entries of
  \<open>vm-state.json\<close>, and every file but that one and temporary ones.\<close>

theorem requests_keep_the_rest:
  assumes "registry_ok (forwarderRegistry d) (listeners d)" and "updateForward req d = (res, d')"
    and "name \<noteq> req_Name req" and "\<And>spec ip. add_target req = Some (spec, ip) \<Longrightarrow> name \<noteq> spec_Name spec"
    and "entry \<noteq> ''forwards''" and "p \<notin> insert vm_state temps"
  shows "view d' name = view d name \<and> raw_field (files d') entry = raw_field (files d) entry \<and>
    files d' p = files d p"
proof -
  have dist: "distinct (map fst (forwarderRegistry d))" using assms(1) by (simp add: registry_ok_def)
  from assms(2) dist have "view d' name = view d name"
  proof (cases rule: updateForward_cases)
    case (new spec ip)
    obtain f where "view d' = (view d)(spec_Name spec \<mapsto> f)" by (rule added_view [OF new(5)])
    then show ?thesis using assms(4) [OF new(3)] by simp
  qed (simp_all add: unchanged_view removed_view assms(3))
  then show ?thesis
    using updateForward_other_entries [OF assms(2) dist assms(5)]
      updateForward_other_files [OF assms(2) dist assms(6)] by simp
qed

theorem requests_keep_the_rest_witness:
  "\<exists>d'. updateForward (request ''forward-remove'' ''db'' 0 0 []) sample_daemon = (Inr (), d') \<and>
     raw_field (files d') ''vm_name'' = Some (JStr ''exasol-local-vm'')"
proof -
  let ?req = "request ''forward-remove'' ''db'' 0 0 []"
  have "fst (forward_remove ?req sample_daemon) = Inr ()"
    by (rule forward_remove_succeeds [OF sample_healthy]) (simp add: sample_published)
  moreover have "updateForward ?req = forward_remove ?req" by (simp add: updateForward_def request_def)
  ultimately obtain d' where run: "updateForward ?req sample_daemon = (Inr (), d')"
    by (metis prod.collapse)
  have "add_target ?req = None" by code_simp
  then have "raw_field (files d') ''vm_name'' = raw_field (files sample_daemon) ''vm_name''"
    using requests_keep_the_rest [OF sample_registry_ok run, where name = "''x''" and entry = "''vm_name''"
        and p = "''disk''"]
    by (simp add: request_def vm_state_def temps_def temp_prefix_def has_prefix_def)
  then show ?thesis using run by (simp add: sample_raw sample_state_def)
qed

end
