(* ===== verification/Go_Flag.thy ===== *)
theory Go_Flag
  imports Go_Text
begin

text \<open>
  \<open>flag.FlagSet.Parse\<close> with \<open>flag.ContinueOnError\<close>, the part of the standard library every command of the
  launcher reads its arguments with: flags stop at the first argument that is none or after \<open>--\<close>; one
  or two dashes are the same; a value follows after \<open>=\<close> or as the next argument; a boolean flag takes
  a value only after \<open>=\<close>.
\<close>

datatype 's flag_value = Bool_flag "bool \<Rightarrow> 's \<Rightarrow> 's" | Value_flag "string \<Rightarrow> 's \<Rightarrow> 's result"

type_synonym 's flags = "(string \<times> 's flag_value) list"

definition parse_bool :: "string \<Rightarrow> bool option" where
  "parse_bool s = (if s \<in> {''1'', ''t'', ''T'', ''true'', ''TRUE'', ''True''} then Some True
     else if s \<in> {''0'', ''f'', ''F'', ''false'', ''FALSE'', ''False''} then Some False else None)"

definition ErrHelp :: go_error where
  "ErrHelp = ErrorString ''flag: help requested''"

text \<open>Name and value of \<open>name=value\<close>; the equals sign cannot come first.\<close>

definition split_flag :: "string \<Rightarrow> string \<times> string option" where
  "split_flag s = (case split_at_first CHR ''='' (tl s) of
     [n, v] \<Rightarrow> (hd s # n, Some v) | _ \<Rightarrow> (s, None))"

definition invalid_value :: "string \<Rightarrow> string \<Rightarrow> go_error \<Rightarrow> go_error" where
  "invalid_value name v e =
     ErrorString (''invalid value '' @ go_quote v @ '' for flag -'' @ name @ '': '' @ error_text e)"

fun flag_parse :: "'s flags \<Rightarrow> 's \<Rightarrow> string list \<Rightarrow> ('s \<times> string list) result" where
  "flag_parse flags st [] = Inr (st, [])"
| "flag_parse flags st (s # args) =
     (if length s < 2 \<or> hd s \<noteq> CHR ''-'' then Inr (st, s # args)
      else if s = ''--'' then Inr (st, args)
      else let name = (if hd (tl s) = CHR ''-'' then drop 2 s else drop 1 s) in
        if name = [] \<or> hd name = CHR ''-'' \<or> hd name = CHR ''=''
        then Inl (ErrorString (''bad flag syntax: '' @ s))
        else let (n, v) = split_flag name in
          (case map_of flags n of
             None \<Rightarrow> Inl (if n = ''help'' \<or> n = ''h'' then ErrHelp
               else ErrorString (''flag provided but not defined: -'' @ n))
           | Some (Bool_flag set_bool) \<Rightarrow>
               (case v of
                  None \<Rightarrow> flag_parse flags (set_bool True st) args
                | Some t \<Rightarrow> (case parse_bool t of
                    None \<Rightarrow> Inl (ErrorString (''invalid boolean value '' @ go_quote t @ '' for -'' @ n @
                      '': parse error''))
                  | Some b \<Rightarrow> flag_parse flags (set_bool b st) args))
           | Some (Value_flag set_value) \<Rightarrow>
               (case v of
                  Some t \<Rightarrow> (case set_value t st of
                    Inl e \<Rightarrow> Inl (invalid_value n t e) | Inr st' \<Rightarrow> flag_parse flags st' args)
                | None \<Rightarrow> (case args of
                    [] \<Rightarrow> Inl (ErrorString (''flag needs an argument: -'' @ n))
                  | t # rest \<Rightarrow> (case set_value t st of
                      Inl e \<Rightarrow> Inl (invalid_value n t e) | Inr st' \<Rightarrow> flag_parse flags st' rest)))))"

declare flag_parse.simps(2) [simp del]

definition is_flag_text :: "string \<Rightarrow> bool" where
  "is_flag_text s \<longleftrightarrow> 2 \<le> length s \<and> hd s = CHR ''-''"

lemma flag_parse_positional: "\<not> is_flag_text s \<Longrightarrow> flag_parse flags st (s # args) = Inr (st, s # args)"
  by (subst flag_parse.simps) (auto simp: is_flag_text_def)

text \<open>A value flag given with two dashes and its value as the next argument.\<close>

lemma flag_parse_value:
  assumes "map_of flags n = Some (Value_flag set_value)" and "n \<noteq> []" and "CHR ''='' \<notin> set n"
    and "hd n \<noteq> CHR ''-''"
  shows "flag_parse flags st ((''--'' @ n) # t # args) = (case set_value t st of
    Inl e \<Rightarrow> Inl (invalid_value n t e) | Inr st' \<Rightarrow> flag_parse flags st' args)"
proof -
  have "split_at_first d u = [u]" if "d \<notin> set u" for d and u :: string
    using that by (induction u) auto
  then have "split_flag n = (n, None)" using assms(2,3) by (cases n) (simp_all add: split_flag_def)
  moreover have "hd n \<noteq> CHR ''=''" using assms(2,3) by (cases n) auto
  ultimately show ?thesis using assms by (subst flag_parse.simps) (simp add: Let_def)
qed

text \<open>What every setting of a flag keeps holds of the parsed flags.\<close>

definition flags_keep :: "('s \<Rightarrow> bool) \<Rightarrow> 's flags \<Rightarrow> bool" where
  "flags_keep P flags \<longleftrightarrow> (\<forall>(n, f) \<in> set flags. case f of
     Bool_flag set_bool \<Rightarrow> \<forall>b st. P st \<longrightarrow> P (set_bool b st)
   | Value_flag set_value \<Rightarrow> \<forall>v st st'. P st \<longrightarrow> set_value v st = Inr st' \<longrightarrow> P st')"

lemma flags_keepD:
  assumes "flags_keep P flags"
  shows "map_of flags n = Some (Bool_flag set_bool) \<Longrightarrow> P st \<Longrightarrow> P (set_bool b st)"
    and "map_of flags n = Some (Value_flag set_value) \<Longrightarrow> P st \<Longrightarrow> set_value v st = Inr st' \<Longrightarrow> P st'"
  using assms by (fastforce simp: flags_keep_def dest: map_of_SomeD)+

lemma flag_parse_keeps:
  "flag_parse flags st args = Inr (st', rest) \<Longrightarrow> flags_keep P flags \<Longrightarrow> P st \<Longrightarrow> P st'"
proof (induction flags st args rule: flag_parse.induct)
  case (2 flags st s args)
  note run = "2.prems"(1) [unfolded flag_parse.simps(2) [of flags st s args] Let_def]
  let ?name = "if hd (tl s) = CHR ''-'' then drop 2 s else drop 1 s"
  obtain n v where nv: "split_flag ?name = (n, v)" by (cases "split_flag ?name")
  show ?case
  proof (cases "length s < 2 \<or> hd s \<noteq> CHR ''-'' \<or> s = ''--''")
    case True
    then show ?thesis using run "2.prems"(3) by (auto split: if_splits)
  next
    case False
    then have syn: "\<not> (?name = [] \<or> hd ?name = CHR ''-'' \<or> hd ?name = CHR ''='')"
      using run by (auto split: if_splits)
    note IH = "2.IH" [OF _ _ refl syn refl nv [symmetric]]
    from run False syn nv obtain f where f: "map_of flags n = Some f" by (auto split: option.splits)
    note keep = flags_keepD [OF "2.prems"(2)]
    show ?thesis
    proof (cases f)
      case (Bool_flag set_bool)
      then show ?thesis
        using run False syn nv f IH(1,2) [OF _ _ f Bool_flag] keep(1) [of n set_bool st] "2.prems"(2,3)
        by (auto split: option.splits)
    next
      case (Value_flag set_value)
      then show ?thesis
        using run False syn nv f IH(3,4) [OF _ _ f Value_flag] keep(2) [of n set_value st] "2.prems"(2,3)
        by (auto split: option.splits sum.splits list.splits)
    qed
  qed
qed simp

end
