(* ===== verification/Health.thy ===== *)
theory Health
  imports Forward_Registry "HOL-Library.Multiset"
begin

text \<open>
  Probing the forwards (\<open>launcher/mac/forwarding.go\<close>): \<open>classifyDialErr\<close> reduces what \<open>net.Dialer\<close>
  reports to four words, \<open>Probe\<close> dials the guest side of one forward, \<open>probeForwarders\<close> probes all of
  them at once. What a dial reports is the argument \<open>dial\<close>: from the address and the timeout to
  \<open>nil\<close> or an error. The probes run concurrently and finish in any order.
\<close>

section \<open>The state vocabulary\<close>

definition classifyDialErr :: "go_error option \<Rightarrow> string" where
  "classifyDialErr err = (case err of
     None \<Rightarrow> ''reachable''
   | Some e \<Rightarrow>
       if (case errors_As is_net_Error e of Some netErr \<Rightarrow> has_Timeout netErr | None \<Rightarrow> False)
       then ''timeout''
       else if errors_Is e DeadlineExceeded then ''timeout''
       else if errors_Is e (Errno ECONNREFUSED) then ''refused''
       else if errors_Is e (Errno EPERM) \<or> errors_Is e (Errno EACCES) \<or>
               errors_Is e (Errno EHOSTUNREACH) \<or> errors_Is e (Errno ENETUNREACH)
       then ''blocked''
       else ''blocked'')"

definition dial_states :: "string set" where
  "dial_states = {''reachable'', ''refused'', ''blocked'', ''timeout''}"

text \<open>\<open>fmt.Sprintf("%s:%d", host, port)\<close>, the address of the guest side.\<close>

definition guest_address :: "string \<Rightarrow> int \<Rightarrow> string" where
  "guest_address host port = host @ '':'' @ itoa port"

type_synonym dial = "string \<Rightarrow> int \<Rightarrow> go_error option"

definition healthCheckPerPortTimeout :: int where
  "healthCheckPerPortTimeout = 2000"

definition Probe :: "dial \<Rightarrow> forwarder \<Rightarrow> int \<Rightarrow> string" where
  "Probe dial f timeout = classifyDialErr (dial (guest_address (fw_guestHost f) (fw_guestPort f)) timeout)"

record portHealthResponse =
  port_State :: string

text \<open>The goroutines of \<open>probeForwarders\<close> in the order they store their results.\<close>

definition store_probe :: "dial \<Rightarrow> string \<times> forwarder \<Rightarrow> (string \<times> portHealthResponse) list \<Rightarrow>
    (string \<times> portHealthResponse) list" where
  "store_probe dial e result =
     AList.update (fst e) \<lparr>port_State = Probe dial (snd e) healthCheckPerPortTimeout\<rparr> result"

definition probeForwarders :: "dial \<Rightarrow> (registry \<Rightarrow> registry) \<Rightarrow> 'z daemon_scheme \<Rightarrow>
    (string \<times> portHealthResponse) list" where
  "probeForwarders dial completion d = fold (store_probe dial) (completion (forwarderSnapshot d)) []"

section \<open>Laws\<close>

lemma classify_vocabulary: "classifyDialErr err \<in> dial_states"
  by (simp add: classifyDialErr_def dial_states_def split: option.split)

lemma classify_reachable: "classifyDialErr err = ''reachable'' \<longleftrightarrow> err = None"
  by (simp add: classifyDialErr_def split: option.split)

lemma classify_Wrapped: "classifyDialErr (Some (Wrapped s e)) = classifyDialErr (Some e)"
  by (simp add: classifyDialErr_def)

text \<open>The error of a failed dial: \<open>*net.OpError\<close> over \<open>*os.SyscallError\<close> over the errno.\<close>

lemma classify_connect:
  "classifyDialErr (Some (OpError op (SyscallError call n))) =
     (if n = ETIMEDOUT \<or> n = EAGAIN then ''timeout''
      else if n = ECONNREFUSED then ''refused'' else ''blocked'')"
  by (auto simp: classifyDialErr_def errors_As_def errors_Is_def)

lemma store_probe_keys: "fst ` set (fold (store_probe dial) es m) = fst ` set es \<union> fst ` set m"
  by (induction es arbitrary: m) (auto simp: store_probe_def dom_update)

lemma store_probes_other:
  "k \<notin> fst ` set es \<Longrightarrow> map_of (fold (store_probe dial) es m) k = map_of m k"
  by (induction es arbitrary: m) (auto simp: store_probe_def update_conv')

lemma store_probes_lookup:
  "distinct (map fst es) \<Longrightarrow> (k, f) \<in> set es \<Longrightarrow>
     map_of (fold (store_probe dial) es m) k = Some \<lparr>port_State = Probe dial f healthCheckPerPortTimeout\<rparr>"
proof (induction es arbitrary: m)
  case (Cons e es)
  show ?case
  proof (cases "e = (k, f)")
    case True
    with Cons.prems(1) have "k \<notin> fst ` set es" by auto
    then show ?thesis by (simp add: True store_probes_other) (simp add: store_probe_def update_conv')
  qed (use Cons in auto)
qed simp

lemma probes_any_order:
  assumes perm: "mset (completion reg) = mset reg" and dist: "distinct (map fst reg)"
  shows "map_of (fold (store_probe dial) (completion reg) []) =
     (\<lambda>k. map_option (\<lambda>f. \<lparr>port_State = Probe dial f healthCheckPerPortTimeout\<rparr>) (map_of reg k))"
proof
  fix k
  have set: "set (completion reg) = set reg" using perm by (rule mset_eq_setD)
  have "mset (map fst (completion reg)) = mset (map fst reg)" using perm by (simp add: mset_map)
  with dist have d: "distinct (map fst (completion reg))" by (metis mset_eq_imp_distinct_iff)
  show "map_of (fold (store_probe dial) (completion reg) []) k =
     map_option (\<lambda>f. \<lparr>port_State = Probe dial f healthCheckPerPortTimeout\<rparr>) (map_of reg k)"
  proof (cases "map_of reg k")
    case None
    then have "k \<notin> fst ` set (completion reg)" by (simp add: set map_of_eq_None_iff)
    then show ?thesis using None by (simp add: store_probes_other)
  next
    case (Some f)
    then have "(k, f) \<in> set (completion reg)" by (simp add: set map_of_SomeD)
    from store_probes_lookup [OF d this] show ?thesis by (simp add: Some)
  qed
qed

section \<open>Guest addresses\<close>

text \<open>\<open>net.SplitHostPort\<close> on an address without brackets: the last colon separates the port, and
  another colon before it makes the address invalid. \<open>net.Dial\<close> splits every address this way.\<close>

definition SplitHostPort :: "string \<Rightarrow> (string \<times> string) result" where
  "SplitHostPort addr = (case rev (split_on CHR '':'' addr) of
     [] \<Rightarrow> Inl (ErrorString ''missing port in address'')
   | [_] \<Rightarrow> Inl (ErrorString ''missing port in address'')
   | [port, host] \<Rightarrow> Inr (host, port)
   | _ \<Rightarrow> Inl (ErrorString ''too many colons in address''))"

lemma split_guest_address:
  assumes "CHR '':'' \<notin> set host"
  shows "SplitHostPort (guest_address host port) = Inr (host, itoa port)"
proof -
  have "CHR '':'' \<notin> set (itoa port)" using itoa_no_sep by blast
  then show ?thesis
    by (simp add: SplitHostPort_def guest_address_def split_on_append [OF assms] split_on_none)
qed

lemma split_guest_address_colon:
  assumes "CHR '':'' \<in> set host"
  shows "\<exists>e. SplitHostPort (guest_address host port) = Inl e"
proof -
  obtain h1 h2 where h: "host = h1 @ CHR '':'' # h2" and "CHR '':'' \<notin> set h1"
    using assms by (meson split_list_first)
  then have "split_on CHR '':'' (guest_address host port) = h1 # split_on CHR '':'' (h2 @ '':'' @ itoa port)"
    by (simp add: guest_address_def split_on_append)
  moreover have "2 \<le> length (split_on CHR '':'' (h2 @ '':'' @ itoa port))"
    by (simp add: split_on_length)
  then obtain a b r where "rev (split_on CHR '':'' (h2 @ '':'' @ itoa port)) = a # b # r"
    by (cases "rev (split_on CHR '':'' (h2 @ '':'' @ itoa port))" rule: remdups_adj.cases)
       (auto dest: arg_cong [where f = length])
  ultimately show ?thesis by (cases r) (auto simp: SplitHostPort_def)
qed

section \<open>Properties\<close>

text \<open>The reported word depends on the cause of a dial error only, however it is wrapped: no answer
  in time, connection refused, or otherwise blocked; and \<open>reachable\<close> is said of a successful dial only.\<close>

theorem dial_classification:
  "classifyDialErr err \<in> {''reachable'', ''refused'', ''blocked'', ''timeout''} \<and>
   (classifyDialErr err = ''reachable'') = (err = None) \<and>
   classifyDialErr (Some (foldr Wrapped prefixes (OpError op (SyscallError call n)))) =
     (if n = ETIMEDOUT \<or> n = EAGAIN then ''timeout''
      else if n = ECONNREFUSED then ''refused'' else ''blocked'')"
proof -
  have "classifyDialErr (Some (foldr Wrapped prefixes e)) = classifyDialErr (Some e)" for e
    by (induction prefixes) (simp_all add: classify_Wrapped)
  then show ?thesis
    using classify_vocabulary [of err] by (auto simp: classify_reachable classify_connect dial_states_def)
qed

text \<open>The address \<open>host:port\<close> built for the guest can be dialled exactly when the host has no colon;
  an IPv6 guest address, which \<open>waitForInitOutput\<close> accepts, yields an address no dial can use.\<close>

theorem guest_address_dialable:
  "(SplitHostPort (guest_address host port) = Inr (host, itoa port)) = (CHR '':'' \<notin> set host)"
  using split_guest_address [of host port] split_guest_address_colon [of host port] by auto

end
