(* ===== verification/Control_Socket.thy ===== *)
theory Control_Socket
  imports Forward_Contract Health
begin

text \<open>
  Both ends of \<open>vm.sock\<close> (\<open>launcher/mac/main.go\<close>): the daemon's handler of one connection
  (\<open>startStatusListener\<close>), and the clients \<open>isVMRunning\<close>, \<open>queryHealthCheck\<close>, \<open>healthCheckCmd\<close>,
  \<open>statusCmd\<close> and the check of \<open>startCmd\<close>. A connection carries one request and one reply. A client
  sees the socket as an argument \<open>ask\<close>: what becomes of the bytes it sends. The lemmas connect the two
  ends.
\<close>

section \<open>The daemon's end\<close>

definition encode_portHealthResponse :: "portHealthResponse \<Rightarrow> json" where
  "encode_portHealthResponse p = JObj [(''state'', JStr (port_State p))]"

text \<open>A nil map of ports prints as \<open>null\<close>.\<close>

definition encode_ports :: "(string \<times> portHealthResponse) list option \<Rightarrow> json" where
  "encode_ports ports = json_map id [(''ports'',
     case ports of None \<Rightarrow> JNull | Some m \<Rightarrow> json_map encode_portHealthResponse m)]"

definition request_limit :: nat where
  "request_limit = 4096"

text \<open>What is written back for the bytes a client sent; nothing for a request that does not decode.\<close>

definition handleConnection :: "dial \<Rightarrow> (registry \<Rightarrow> registry) \<Rightarrow> string \<Rightarrow> 'z daemon_scheme \<Rightarrow>
    string \<times> 'z daemon_scheme" where
  "handleConnection dial completion bytes d =
     (case decode_forwardRequest (take request_limit bytes) of
        Inl e \<Rightarrow> ([], d)
      | Inr req \<Rightarrow>
          if req_Request req \<in> {''forward-add'', ''forward-remove'', ''forward-list''}
          then (case handleForwardRequest req d of
            (resp, d') \<Rightarrow> (encode_line (encode_forwardResponse resp), d'))
          else if req_Request req = ''status''
          then (encode_line (json_map JStr [(''status'', ''running'')]), d)
          else if req_Request req = ''health-check''
          then (encode_line (encode_ports (Some (probeForwarders dial completion d))), d)
          else ([], d))"

section \<open>The clients' end\<close>

text \<open>No connection, a connection that fails while the request is sent, or the bytes received before
  the daemon closed it or the deadline passed.\<close>

datatype socket = Unreachable go_error | Send_failed go_error | Replied string

type_synonym ask = "string \<Rightarrow> socket"

definition simple_request :: "string \<Rightarrow> string" where
  "simple_request kind = encode_line (json_map JStr [(''request'', kind)])"

definition status_fields :: "(string \<times> string decoder) list" where
  "status_fields = [(''status'', string_field (\<lambda>v s. v))]"

definition isVMRunning :: "ask \<Rightarrow> bool" where
  "isVMRunning ask = (case ask (simple_request ''status'') of
     Unreachable e \<Rightarrow> False
   | Send_failed e \<Rightarrow> False
   | Replied bytes \<Rightarrow> (case decode_stream (decode_struct status_fields) [] bytes of
       Inl e \<Rightarrow> False | Inr status \<Rightarrow> status = ''running''))"

text \<open>The same question in \<open>startCmd\<close>, where a reply that does not decode counts as far as it went.\<close>

definition start_sees_running :: "ask \<Rightarrow> bool" where
  "start_sees_running ask = (case ask (simple_request ''status'') of
     Unreachable e \<Rightarrow> False
   | Send_failed e \<Rightarrow> False
   | Replied bytes \<Rightarrow> (case json_first bytes of
       Inl e \<Rightarrow> False | Inr v \<Rightarrow> fst (decode_struct status_fields v []) = ''running''))"

definition port_fields :: "(string \<times> portHealthResponse decoder) list" where
  "port_fields = [(''state'', string_field (\<lambda>v s. s\<lparr>port_State := v\<rparr>))]"

type_synonym ports = "(string \<times> portHealthResponse) list option"

definition decode_ports :: "ports decoder" where
  "decode_ports v r = (case v of
     JObj kvs \<Rightarrow> (let (m, e) = decode_entries (decode_struct port_fields) \<lparr>port_State = []\<rparr> kvs
         (case r of None \<Rightarrow> [] | Some m \<Rightarrow> m) in (Some m, e))
   | JNull \<Rightarrow> (None, None)
   | _ \<Rightarrow> (r, Some type_error))"

definition queryHealthCheck :: "ask \<Rightarrow> ports result" where
  "queryHealthCheck ask = (case ask (simple_request ''health-check'') of
     Unreachable e \<Rightarrow> Inl (Wrapped ''failed to connect to VM socket: '' e)
   | Send_failed e \<Rightarrow> Inl (Wrapped ''failed to send health-check request: '' e)
   | Replied bytes \<Rightarrow> (case decode_stream (decode_struct [(''ports'', decode_ports)]) None bytes of
       Inl e \<Rightarrow> Inl (Wrapped ''failed to decode health-check response: '' e) | Inr ports \<Rightarrow> Inr ports))"

text \<open>The printed line, or the error.\<close>

definition healthCheckCmd :: "ask \<Rightarrow> string result" where
  "healthCheckCmd ask = (case queryHealthCheck ask of
     Inl e \<Rightarrow> Inl e | Inr ports \<Rightarrow> Inr (encode_line (encode_ports ports)))"

definition statusCmd :: "ask \<Rightarrow> string result" where
  "statusCmd ask = Inr (encode_line (json_map JBool [(''running'', isVMRunning ask)]))"

section \<open>Both ends together\<close>

text \<open>The daemon's socket as a client sees it: the reply to what it sends, and the daemon afterwards.\<close>

definition daemon_socket :: "dial \<Rightarrow> (registry \<Rightarrow> registry) \<Rightarrow> 'z daemon_scheme \<Rightarrow> ask" where
  "daemon_socket dial completion d = (\<lambda>bytes. Replied (fst (handleConnection dial completion bytes d)))"

lemma json_map_one: "json_map enc [(k, v)] = JObj [(k, enc v)]"
  by (simp add: json_map_def)

lemma length_simple_request: "length (simple_request ''status'') \<le> request_limit"
  "length (simple_request ''health-check'') \<le> request_limit"
  by (code_simp, code_simp)

lemma decode_simple_request:
  "decode_forwardRequest (simple_request kind) = Inr (zero_request\<lparr>req_Request := kind\<rparr>)"
  by (simp add: decode_forwardRequest_def simple_request_def encode_line_def decode_stream_text json_map_one
      decode_struct_def forwardRequest_fields_def find_field_def string_field_def first_error_def
      decode_result_def zero_request_def)

lemma handle_status:
  "handleConnection dial completion (simple_request ''status'') d =
     (encode_line (json_map JStr [(''status'', ''running'')]), d)"
  using length_simple_request(1) decode_simple_request [of "''status''"]
  by (simp add: handleConnection_def zero_request_def)

lemma handle_health:
  "handleConnection dial completion (simple_request ''health-check'') d =
     (encode_line (encode_ports (Some (probeForwarders dial completion d))), d)"
  using length_simple_request(2) decode_simple_request [of "''health-check''"]
  by (simp add: handleConnection_def zero_request_def)

lemma decode_status_reply:
  "decode_stream (decode_struct status_fields) [] (encode_line (json_map JStr [(''status'', s)])) = Inr s"
  by (simp add: encode_line_def decode_stream_text json_map_one decode_struct_def status_fields_def
      find_field_def string_field_def first_error_def decode_result_def)

lemma isVMRunning_daemon: "isVMRunning (daemon_socket dial completion d)"
  by (simp add: isVMRunning_def daemon_socket_def handle_status decode_status_reply)

lemma isVMRunning_dead: "(\<And>bytes. \<exists>e. ask bytes = Unreachable e) \<Longrightarrow> \<not> isVMRunning ask"
  unfolding isVMRunning_def by (metis socket.simps(10))

lemma start_sees_isVMRunning: "isVMRunning ask \<Longrightarrow> start_sees_running ask"
  by (auto simp: isVMRunning_def start_sees_running_def decode_stream_def decode_result_def
      split: socket.splits sum.splits prod.splits option.splits)

lemma decode_ports_encode:
  assumes "distinct (map fst m)"
  shows "decode_stream (decode_struct [(''ports'', decode_ports)]) None (encode_line (encode_ports (Some m))) =
     Inr (Some (sort_key fst m))"
proof -
  have p: "decode_struct port_fields (encode_portHealthResponse x) \<lparr>port_State = []\<rparr> = (x, None)" for x
    by (cases x) (simp add: port_fields_def encode_portHealthResponse_def wire_simps)
  have "decode_entries (decode_struct port_fields) \<lparr>port_State = []\<rparr>
      (map (\<lambda>(k, v). (k, encode_portHealthResponse v)) (sort_key fst m)) [] = (sort_key fst m, None)"
    by (rule decode_entries_json_map) (use p assms in auto)
  then have "decode_ports (json_map encode_portHealthResponse m) None = (Some (sort_key fst m), None)"
    by (simp add: decode_ports_def json_map_def)
  moreover have "valid_json (encode_ports (Some m))"
    by (auto simp: encode_ports_def json_map_def encode_portHealthResponse_def)
  ultimately show ?thesis
    by (simp add: encode_line_def decode_stream_text)
       (simp add: encode_ports_def json_map_one decode_struct_def find_field_def first_error_def decode_result_def)
qed

lemma distinct_store_probes:
  "distinct (map fst m) \<Longrightarrow> distinct (map fst (fold (store_probe dial) es m))"
  by (induction es arbitrary: m) (auto simp: store_probe_def distinct_update)

lemma queryHealthCheck_daemon:
  "queryHealthCheck (daemon_socket dial completion d) =
     Inr (Some (sort_key fst (probeForwarders dial completion d)))"
proof -
  have "distinct (map fst (probeForwarders dial completion d))"
    by (simp add: probeForwarders_def distinct_store_probes)
  then show ?thesis
    by (simp add: queryHealthCheck_def daemon_socket_def handle_health decode_ports_encode)
qed

text \<open>A forward request within the size limit is handled as it was sent.\<close>

lemma handle_forward:
  assumes "valid_request req" and "length (encode_line (encode_forwardRequest req)) \<le> request_limit"
    and "req_Request req \<in> {''forward-add'', ''forward-remove'', ''forward-list''}"
  shows "handleConnection dial completion (encode_line (encode_forwardRequest req)) d =
    (case handleForwardRequest req d of (resp, d') \<Rightarrow> (encode_line (encode_forwardResponse resp), d'))"
  using assms by (simp add: handleConnection_def decode_request_encode)

section \<open>Properties\<close>


definition guest_forward :: "string \<Rightarrow> int \<Rightarrow> forwarder" where
  "guest_forward name port = \<lparr>fw_hostIP = ''127.0.0.1'', fw_requestedPort = 0, fw_name = name,
     fw_guestHost = ''192.168.64.5'', fw_guestPort = port, fw_Port = 49152\<rparr>"

definition two_forwards :: daemon where
  "two_forwards = \<lparr>files = Map.empty, faults = \<lambda>_. None, rands = \<lambda>_ _. 0, ephemeral = \<lambda>_. 0,
     busy = \<lambda>_ _. False, listeners = [], tick = 0, history = [],
     forwarderRegistry = [(''db'', guest_forward ''db'' 8563), (''ssh'', guest_forward ''ssh'' 22)],
     forwardGuestHost = [], forwardsReady = True, forwardsStopping = False\<rparr>"


text \<open>\<open>status\<close> says \<open>running\<close> whenever a daemon serves the socket, whatever its state, and does not when
  no daemon can be reached or the peer closes the connection without a reply; asking changes nothing.\<close>

theorem status_tells_the_truth:
  "isVMRunning (daemon_socket dial completion d) \<and> start_sees_running (daemon_socket dial completion d) \<and>
   \<not> isVMRunning (\<lambda>_. Unreachable e) \<and> \<not> isVMRunning (\<lambda>_. Send_failed e) \<and> \<not> isVMRunning (\<lambda>_. Replied []) \<and>
   snd (handleConnection dial completion (simple_request ''status'') d) = d \<and>
   statusCmd (daemon_socket dial completion d) = Inr (encode_line (JObj [(''running'', JBool True)]))"
proof -
  have "isl (decode_stream (decode_struct status_fields) [] [])" by code_simp
  then have "\<not> isVMRunning (\<lambda>_. Replied [])" by (auto simp: isVMRunning_def isl_def)
  moreover have "\<not> isVMRunning (\<lambda>_. Unreachable e)" "\<not> isVMRunning (\<lambda>_. Send_failed e)"
    by (simp_all add: isVMRunning_def)
  ultimately show ?thesis
    by (simp add: isVMRunning_daemon start_sees_isVMRunning handle_status statusCmd_def json_map_one)
qed

end
