(* ===== verification/Forward_Command.thy ===== *)
theory Forward_Command
  imports Go_Flag Control_Socket
begin

text \<open>
  \<open>launcher forward add | remove | list\<close> (\<open>launcher/mac/forward_commands.go\<close>): from the arguments to the
  request (\<open>parseForwardCommand\<close>), and the exchange with the daemon (\<open>forwardCmd\<close>). The lemmas show that
  client and daemon agree on which requests are valid, and compose the client with the daemon's end of
  the socket.
\<close>

section \<open>The command\<close>

definition forward_usage :: go_error where
  "forward_usage = ErrorString (''usage: launcher forward add [--host-ip <loopback-ip>] '' @
     ''<name>:<guest-port>:<host-port> | remove <name> | list'')"

definition plain_request :: "string \<Rightarrow> string \<Rightarrow> forwardRequest" where
  "plain_request kind name = \<lparr>req_Request = kind, req_Name = name, req_GuestPort = 0, req_HostPort = 0,
     req_HostIP = []\<rparr>"

definition host_ip_flag :: "string flags" where
  "host_ip_flag = [(''host-ip'', Value_flag (\<lambda>v _. Inr v))]"

definition parseForwardCommand :: "string list \<Rightarrow> forwardRequest result" where
  "parseForwardCommand args = (case args of
     [] \<Rightarrow> Inl forward_usage
   | cmd # rest \<Rightarrow>
       if cmd = ''add'' then
         (case flag_parse host_ip_flag ''127.0.0.1'' rest of
            Inl err \<Rightarrow> Inl err
          | Inr (hostIP, [arg]) \<Rightarrow>
              (case parseForwardSpec arg of
                 Inl err \<Rightarrow> Inl err
               | Inr spec \<Rightarrow>
                   let request = \<lparr>req_Request = ''forward-add'', req_Name = spec_Name spec,
                     req_GuestPort = spec_GuestPort spec, req_HostPort = spec_HostPort spec,
                     req_HostIP = hostIP\<rparr> in
                   case ParseIP hostIP of
                     None \<Rightarrow> Inl not_loopback
                   | Some ip \<Rightarrow> if IsLoopback ip then Inr request else Inl not_loopback)
          | Inr _ \<Rightarrow> Inl forward_usage)
       else if cmd = ''remove'' then
         (case rest of
            [name] \<Rightarrow> (case parseForwardSpec (name @ '':1:0'') of
               Inl err \<Rightarrow> Inl err | Inr spec \<Rightarrow> Inr (plain_request ''forward-remove'' (spec_Name spec)))
          | _ \<Rightarrow> Inl forward_usage)
       else if cmd = ''list'' then
         (if rest = [] then Inr (plain_request ''forward-list'' []) else Inl forward_usage)
       else Inl forward_usage)"

text \<open>The printed line, or the error.\<close>

definition forwardCmd :: "ask \<Rightarrow> string list \<Rightarrow> string result" where
  "forwardCmd ask args = (case parseForwardCommand args of
     Inl err \<Rightarrow> Inl err
   | Inr request \<Rightarrow> (case ask (encode_line (encode_forwardRequest request)) of
       Unreachable err \<Rightarrow> Inl (Wrapped ''cannot contact VM; start it before managing forwards: '' err)
     | Send_failed err \<Rightarrow> Inl (Wrapped ''cannot send forward request: '' err)
     | Replied bytes \<Rightarrow> (case decode_forwardResponse bytes of
         Inl err \<Rightarrow> Inl (Wrapped (''cannot read forward response; ensure the running launcher '' @
           ''supports live forwards: '') err)
       | Inr response \<Rightarrow> if resp_Error response \<noteq> [] then Inl (ErrorString (resp_Error response))
           else Inr (encode_line (encode_forwardResponse response)))))"

section \<open>Client and daemon agree\<close>

lemma loopback_nonempty: "ParseIP ip = Some a \<Longrightarrow> ip \<noteq> []"
proof
  assume "ParseIP ip = Some a" and "ip = []"
  moreover have "ParseIP [] = None" by code_simp
  ultimately show False by simp
qed

lemma parseForwardCommand_cases:
  assumes "parseForwardCommand args = Inr req"
  obtains (add) spec hostIP ip where "req = add_request spec hostIP" and "valid_spec spec"
      and "ParseIP hostIP = Some ip" and "IsLoopback ip"
  | (remove) name where "req = plain_request ''forward-remove'' name" and "valid_name name"
  | (list) "req = plain_request ''forward-list'' []"
  using assms
  by (auto simp: parseForwardCommand_def Let_def add_request_def valid_spec_def dest!: parseForwardSpec_valid
      split: list.splits if_splits sum.splits option.splits prod.splits)

lemma accepted_add_target:
  assumes "parseForwardCommand args = Inr req" and "req_Request req = ''forward-add''"
  shows "\<exists>spec ip. add_target req = Some (spec, ip) \<and> valid_spec spec \<and> loopback_text ip"
  using assms(1)
proof (cases rule: parseForwardCommand_cases)
  case (add spec hostIP ip)
  then have "add_target req = Some (spec, IP_String ip)"
    using loopback_nonempty by (auto simp: add_target_add_request)
  then show ?thesis using add_target_ok by blast
qed (use assms(2) in \<open>simp_all add: plain_request_def\<close>)

lemma accepted_valid: "parseForwardCommand args = Inr req \<Longrightarrow> valid_request req"
  by (erule parseForwardCommand_cases)
     (auto simp: valid_request_def plain_request_def add_request_def valid_spec_def int64_def int64_min_def
       int64_max_def)

lemma accepted_kind:
  "parseForwardCommand args = Inr req \<Longrightarrow>
     req_Request req \<in> {''forward-add'', ''forward-remove'', ''forward-list''}"
  by (erule parseForwardCommand_cases) (auto simp: plain_request_def add_request_def)

lemma not_flag_spec:
  assumes "hd (spec_Name spec) \<noteq> CHR ''-''" and "valid_spec spec"
  shows "\<not> is_flag_text (encodeForwardSpec spec)"
proof -
  have "spec_Name spec \<noteq> []" using assms(2) by (simp add: valid_spec_def valid_name_def)
  then show ?thesis using assms(1) by (simp add: is_flag_text_def encodeForwardSpec_def hd_append)
qed

lemma parse_add_command:
  assumes v: "valid_spec spec" and n: "hd (spec_Name spec) \<noteq> CHR ''-''"
    and ip: "ParseIP hostIP = Some ip" "IsLoopback ip"
  shows "parseForwardCommand [''add'', ''--host-ip'', hostIP, encodeForwardSpec spec] =
    Inr (add_request spec hostIP)"
proof -
  have "flag_parse host_ip_flag ''127.0.0.1'' [''--'' @ ''host-ip'', hostIP, encodeForwardSpec spec] =
      Inr (hostIP, [encodeForwardSpec spec])"
    by (subst flag_parse_value [where set_value = "\<lambda>v _. Inr v"])
       (simp_all add: host_ip_flag_def flag_parse_positional not_flag_spec [OF n v])
  then show ?thesis
    using ip by (simp add: parseForwardCommand_def parse_encode_spec [OF v] Let_def add_request_def)
qed

lemma parse_remove_command:
  assumes "valid_name name"
  shows "parseForwardCommand [''remove'', name] = Inr (plain_request ''forward-remove'' name)"
proof -
  let ?spec = "\<lparr>spec_Name = name, spec_GuestPort = 1, spec_HostPort = 0\<rparr>"
  have "encodeForwardSpec ?spec = name @ '':1:0''" by (simp add: encodeForwardSpec_def text_simps)
  moreover have "valid_spec ?spec" using assms by (simp add: valid_spec_def)
  ultimately have "parseForwardSpec (name @ '':1:0'') = Inr ?spec" using parse_encode_spec by metis
  then show ?thesis by (simp add: parseForwardCommand_def)
qed

section \<open>The whole exchange\<close>

lemma json_map_sorted: "json_map enc (sort_key fst m) = json_map enc m"
  by (simp add: json_map_def sort_key_id_if_sorted)

lemma forwardCmd_daemon:
  assumes p: "parseForwardCommand args = Inr req"
    and len: "length (encode_line (encode_forwardRequest req)) \<le> request_limit"
    and ok: "\<And>m. resp_Forwards (fst (handleForwardRequest req d)) = Some m \<Longrightarrow> valid_forwards m"
  shows "forwardCmd (daemon_socket dial completion d) args =
    (let resp = fst (handleForwardRequest req d) in
     if resp_Error resp \<noteq> [] then Inl (ErrorString (resp_Error resp))
     else Inr (encode_line (encode_forwardResponse resp)))"
proof -
  obtain resp d' where h: "handleForwardRequest req d = (resp, d')" by (cases "handleForwardRequest req d")
  have "handleConnection dial completion (encode_line (encode_forwardRequest req)) d =
      (encode_line (encode_forwardResponse resp), d')"
    by (simp add: handle_forward [OF accepted_valid [OF p] len accepted_kind [OF p]] h)
  moreover have "decode_forwardResponse (encode_line (encode_forwardResponse resp)) =
      Inr (resp\<lparr>resp_Forwards := map_option (sort_key fst) (resp_Forwards resp)\<rparr>)"
    using ok h by (intro decode_response_encode) auto
  moreover have "encode_forwardResponse (resp\<lparr>resp_Forwards := map_option (sort_key fst) (resp_Forwards resp)\<rparr>) =
      encode_forwardResponse resp"
    by (cases "resp_Forwards resp") (simp_all add: encode_forwardResponse_def encode_forwards_def json_map_sorted)
  ultimately show ?thesis by (simp add: forwardCmd_def p daemon_socket_def h)
qed

lemma handle_valid_forwards:
  assumes "registry_ok (forwarderRegistry d) (listeners d)"
    and "resp_Forwards (fst (handleForwardRequest req d)) = Some m"
  shows "valid_forwards m"
proof -
  obtain res d' where up: "updateForward req d = (res, d')" by (cases "updateForward req d")
  have "registry_ok (forwarderRegistry d') (listeners d')" by (rule updateForward_registry_ok [OF up assms(1)])
  then have "valid_forwards (forwardStatesLocked (forwarderRegistry d'))" by (rule registry_ok_valid_forwards)
  then show ?thesis using assms(2) up
    by (auto simp: handleForwardRequest_def split: if_splits sum.splits)
qed

section \<open>Properties\<close>



text \<open>C38: end to end, \<open>launcher forward\<close> against a running daemon prints the daemon's answer to exactly the
  request its arguments describe, or fails with the daemon's error text.\<close>

theorem forward_command_end_to_end:
  assumes "registry_ok (forwarderRegistry d) (listeners d)" and "parseForwardCommand args = Inr req"
    and "length (encode_line (encode_forwardRequest req)) \<le> 4096"
  shows "forwardCmd (daemon_socket dial completion d) args =
    (let resp = fst (handleForwardRequest req d) in
     if resp_Error resp \<noteq> [] then Inl (ErrorString (resp_Error resp))
     else Inr (encode_line (encode_forwardResponse resp)))"
  by (rule forwardCmd_daemon) (use assms handle_valid_forwards in \<open>auto simp: request_limit_def\<close>)

theorem forward_command_end_to_end_witness:
  "forwardCmd (daemon_socket (\<lambda>_ _. None) id (two_forwards\<lparr>forwardsReady := False, forwarderRegistry := []\<rparr>))
     [''list''] =
   Inl (ErrorString ''VM is not ready; wait for a successful start before managing forwards'')"
proof -
  let ?d = "two_forwards\<lparr>forwardsReady := False, forwarderRegistry := []\<rparr>"
  have p: "parseForwardCommand [''list''] = Inr (plain_request ''forward-list'' [])"
    by (simp add: parseForwardCommand_def)
  have l: "length (encode_line (encode_forwardRequest (plain_request ''forward-list'' []))) \<le> 4096" by code_simp
  have "registry_ok (forwarderRegistry ?d) (listeners ?d)" by (simp add: two_forwards_def)
  from forward_command_end_to_end [OF this p l] show ?thesis
    by (simp add: handleForwardRequest_def error_response_def Let_def)
qed

end
