(* ===== verification/Ssh_Command.thy ===== *)
theory Ssh_Command
  imports Runtime_Files
begin

text \<open>
  Running a command in the guest (\<open>launcher/mac/main.go\<close>): quoting for the remote shell, the
  arguments of \<open>ssh\<close>, \<open>runCmd\<close> and \<open>setGuestClock\<close>. \<open>ssh\<close> sends its command argument to the guest's
  POSIX shell, which splits it into words again; \<open>sh_words\<close> models that splitting, and the lemmas show
  that the words are exactly the arguments the user gave. Running \<open>ssh\<close> itself is the argument
  \<open>exec\<close>: from the argument vector to \<open>nil\<close> or an error.
\<close>

section \<open>Quoting\<close>

definition quoteShellArgument :: "string \<Rightarrow> string" where
  "quoteShellArgument value =
     [CHR 0x27] @ replace_all CHR 0x27 [CHR 0x27, CHR 0x22, CHR 0x27, CHR 0x22, CHR 0x27] value @ [CHR 0x27]"

definition remoteCommand :: "string list \<Rightarrow> string" where
  "remoteCommand command = join '' '' (map quoteShellArgument command)"

section \<open>The arguments of ssh\<close>

definition sshArgs :: "VMRuntimeState \<Rightarrow> RuntimeConfig \<Rightarrow> string list \<Rightarrow> bool \<Rightarrow> string list" where
  "sshArgs state config command allocateTTY =
     [''-i'', config_SSHPrivateKey config,
      ''-o'', ''StrictHostKeyChecking=no'',
      ''-o'', ''UserKnownHostsFile=/dev/null'',
      ''-o'', ''BatchMode=yes'',
      ''-o'', ''LogLevel=ERROR''] @
     (if allocateTTY then [''-t''] else []) @
     [''root@'' @ runtime_IP state] @
     (if command \<noteq> [] then [remoteCommand command] else [])"

type_synonym exec = "string list \<Rightarrow> go_error option"

definition runCmd :: "exec \<Rightarrow> string list \<Rightarrow> bool \<Rightarrow> ('z, unit) os" where
  "runCmd exec command allocateTTY =
     andThen loadVMRuntimeState (\<lambda>state.
     andThen loadRuntimeConfig (\<lambda>config.
       case exec (''ssh'' # sshArgs state config command allocateTTY) of
         Some err \<Rightarrow> throw (Wrapped ''command execution in VM failed: '' err)
       | None \<Rightarrow> ret ()))"

definition clock_command :: "int \<Rightarrow> string list" where
  "clock_command unix = [''date'', ''-u'', ''-s'', ''@'' @ itoa unix]"

definition setGuestClock :: "exec \<Rightarrow> VMRuntimeState \<Rightarrow> RuntimeConfig \<Rightarrow> int \<Rightarrow> go_error option" where
  "setGuestClock exec state config unix =
     exec (''ssh'' # sshArgs state config (clock_command unix) False)"

section \<open>The guest's shell\<close>

text \<open>
  Word splitting and quote removal of the POSIX shell. \<open>None\<close> stands for input with an unquoted or
  double-quoted character that is special to the shell, or an unfinished quote.
\<close>

datatype sh_state = Blank | Unquoted string | Single string | Double string

definition sh_special :: "char \<Rightarrow> bool" where
  "sh_special c \<longleftrightarrow> c \<in> set (''|&;<>()$`*?[#~=%!{}'' @ [CHR 0x5C])"

definition sh_blank :: "char \<Rightarrow> bool" where
  "sh_blank c \<longleftrightarrow> c = CHR '' '' \<or> c = CHR 0x09"

definition sh_open :: "char \<Rightarrow> string \<Rightarrow> sh_state option" where
  "sh_open c w = (if c = CHR 0x27 then Some (Single w) else if c = CHR 0x22 then Some (Double w)
     else if sh_special c \<or> c = CHR 0x0A then None else Some (Unquoted (w @ [c])))"

fun sh_scan :: "sh_state \<Rightarrow> string list \<Rightarrow> string \<Rightarrow> string list option" where
  "sh_scan Blank ws [] = Some ws"
| "sh_scan (Unquoted w) ws [] = Some (ws @ [w])"
| "sh_scan (Single w) ws [] = None"
| "sh_scan (Double w) ws [] = None"
| "sh_scan Blank ws (c # s) = (if sh_blank c then sh_scan Blank ws s
     else case sh_open c [] of None \<Rightarrow> None | Some st \<Rightarrow> sh_scan st ws s)"
| "sh_scan (Unquoted w) ws (c # s) = (if sh_blank c then sh_scan Blank (ws @ [w]) s
     else case sh_open c w of None \<Rightarrow> None | Some st \<Rightarrow> sh_scan st ws s)"
| "sh_scan (Single w) ws (c # s) =
     (if c = CHR 0x27 then sh_scan (Unquoted w) ws s else sh_scan (Single (w @ [c])) ws s)"
| "sh_scan (Double w) ws (c # s) =
     (if c = CHR 0x22 then sh_scan (Unquoted w) ws s
      else if c = CHR ''$'' \<or> c = CHR ''`'' \<or> c = CHR 0x5C then None
      else sh_scan (Double (w @ [c])) ws s)"

definition sh_words :: "string \<Rightarrow> string list option" where
  "sh_words s = sh_scan Blank [] s"

lemma sh_open_quotes [simp]:
  "sh_open CHR 0x27 w = Some (Single w)" "sh_open CHR 0x22 w = Some (Double w)"
  by (simp_all add: sh_open_def)

lemma sh_blank_simps [simp]: "\<not> sh_blank CHR 0x27" "\<not> sh_blank CHR 0x22" "sh_blank CHR '' ''"
  by (simp_all add: sh_blank_def)

lemma scan_quoted_body:
  "sh_scan (Single w) ws (replace_all CHR 0x27 [CHR 0x27, CHR 0x22, CHR 0x27, CHR 0x22, CHR 0x27] v @ [CHR 0x27] @ s)
     = sh_scan (Unquoted (w @ v)) ws s"
  by (induction v arbitrary: w) (auto simp: replace_all_def)

lemma scan_quoted: "sh_scan Blank ws (quoteShellArgument v @ s) = sh_scan (Unquoted v) ws s"
  using scan_quoted_body [of "[]" ws v s] by (simp add: quoteShellArgument_def)

lemma scan_remote: "sh_scan Blank ws (remoteCommand command) = Some (ws @ command)"
  unfolding remoteCommand_def
proof (induction command arbitrary: ws)
  case (Cons v vs)
  show ?case
  proof (cases vs)
    case Nil
    then show ?thesis using scan_quoted [of ws v "[]"] by simp
  next
    case (Cons u us)
    then show ?thesis using Cons.IH [of "ws @ [v]"] by (simp add: scan_quoted)
  qed
qed simp

lemma sh_words_remote: "sh_words (remoteCommand command) = Some command"
  by (simp add: sh_words_def scan_remote)

lemma remoteCommand_inj: "remoteCommand c = remoteCommand c' \<Longrightarrow> c = c'"
  using sh_words_remote by (metis option.inject)

section \<open>What ssh is asked to do\<close>

text \<open>How \<open>ssh\<close> reads its arguments: options first (\<open>-i\<close> and \<open>-o\<close> take a value), then the
  destination, then the command words.\<close>

record ssh_call =
  ssh_key :: string
  ssh_options :: "string list"
  ssh_tty :: bool
  ssh_destination :: string
  ssh_command :: "string list"

fun ssh_parse :: "ssh_call \<Rightarrow> string list \<Rightarrow> ssh_call option" where
  "ssh_parse call [] = None"
| "ssh_parse call (a # as) =
     (if a = ''-i'' then (case as of [] \<Rightarrow> None | v # vs \<Rightarrow> ssh_parse (call\<lparr>ssh_key := v\<rparr>) vs)
      else if a = ''-o'' then (case as of [] \<Rightarrow> None
        | v # vs \<Rightarrow> ssh_parse (call\<lparr>ssh_options := ssh_options call @ [v]\<rparr>) vs)
      else if a = ''-t'' then ssh_parse (call\<lparr>ssh_tty := True\<rparr>) as
      else if has_prefix ''-'' a then None
      else Some (call\<lparr>ssh_destination := a, ssh_command := as\<rparr>))"

definition ssh_read :: "string list \<Rightarrow> ssh_call option" where
  "ssh_read as = ssh_parse \<lparr>ssh_key = [], ssh_options = [], ssh_tty = False, ssh_destination = [],
     ssh_command = []\<rparr> as"

lemma ssh_read_sshArgs:
  "ssh_read (sshArgs state config command tty) = Some
     \<lparr>ssh_key = config_SSHPrivateKey config,
      ssh_options = [''StrictHostKeyChecking=no'', ''UserKnownHostsFile=/dev/null'', ''BatchMode=yes'',
        ''LogLevel=ERROR''],
      ssh_tty = tty, ssh_destination = ''root@'' @ runtime_IP state,
      ssh_command = (if command = [] then [] else [remoteCommand command])\<rparr>"
  by (simp add: ssh_read_def sshArgs_def has_prefix_def)

lemma runCmd_cases:
  assumes "runCmd exec command tty w = (r, w')"
  obtains (state) e where "loadVMRuntimeState w = (Inl e, w')" and "r = Inl e"
  | (config) state w1 e where "loadVMRuntimeState w = (Inr state, w1)" and "loadRuntimeConfig w1 = (Inl e, w')"
      and "r = Inl e"
  | (ran) state w1 config where "loadVMRuntimeState w = (Inr state, w1)"
      and "loadRuntimeConfig w1 = (Inr config, w')"
      and "r = (case exec (''ssh'' # sshArgs state config command tty) of
        Some err \<Rightarrow> Inl (Wrapped ''command execution in VM failed: '' err) | None \<Rightarrow> Inr ())"
  using assms by (auto simp: runCmd_def andThen_def throw_def ret_def split: prod.splits sum.splits option.splits)

section \<open>Keeping the guest's clock\<close>

text \<open>\<open>startGuestClockSynchronization\<close>: one synchronisation at once, then one whenever the select
  takes a tick, until it takes the cancelled context. When both are ready it may take either.
  \<open>sync\<close> gives the outcome of the n-th synchronisation. The result is the number of synchronisations,
  the warnings printed, and whether the done channel is closed. A warning is printed only when the
  context is alive after the synchronisation; \<open>CancelDuring\<close> is a tick whose synchronisation a
  cancellation interrupts.\<close>

datatype clock_event = Tick | CancelDuring | Cancel | TakeDone

fun clock_loop :: "(nat \<Rightarrow> go_error option) \<Rightarrow> bool \<Rightarrow> nat \<Rightarrow> go_error list \<Rightarrow> clock_event list \<Rightarrow>
    nat \<times> go_error list \<times> bool" where
  "clock_loop sync alive n warnings [] = (n, warnings, False)"
| "clock_loop sync alive n warnings (Tick # es) = clock_loop sync alive (Suc n)
     (if alive then (case sync n of None \<Rightarrow> warnings | Some e \<Rightarrow> warnings @ [e]) else warnings) es"
| "clock_loop sync alive n warnings (CancelDuring # es) = clock_loop sync False (Suc n) warnings es"
| "clock_loop sync alive n warnings (Cancel # es) = clock_loop sync False n warnings es"
| "clock_loop sync alive n warnings (TakeDone # es) =
     (if alive then clock_loop sync alive n warnings es else (n, warnings, True))"

definition startGuestClockSynchronization ::
    "(nat \<Rightarrow> go_error option) \<Rightarrow> clock_event list \<Rightarrow> nat \<times> go_error list \<times> bool" where
  "startGuestClockSynchronization sync events =
     clock_loop sync True 1 (case sync 0 of None \<Rightarrow> [] | Some e \<Rightarrow> [e]) events"

lemma clock_loop_ticks:
  "clock_loop sync True n ws (replicate k Tick @ es) =
     clock_loop sync True (n + k) (ws @ List.map_filter sync [n ..< n + k]) es"
proof (induction k arbitrary: n ws)
  case (Suc k)
  have "[n ..< n + Suc k] = n # [Suc n ..< Suc n + k]" by (simp add: upt_conv_Cons)
  with Suc show ?case by (simp add: List.map_filter_def split: option.split)
qed (simp add: List.map_filter_def)

text \<open>A cancelled context prints no warning any more.\<close>

lemma clock_loop_cancelled: "fst (snd (clock_loop sync False n ws es)) = ws"
  by (induction sync "False" n ws es rule: clock_loop.induct) auto

section \<open>Properties\<close>

text \<open>C31: the guest's shell runs exactly the argument vector the user gave to \<open>run\<close>, for every byte
  string, quotes, spaces, newlines and empty arguments included; \<open>ssh\<close> gets it as one argument, reads no
  argument as an option, and without a command opens a shell.\<close>

theorem guest_runs_given_arguments:
  "\<exists>call line. ssh_read (sshArgs state config command tty) = Some call \<and>
     ssh_key call = config_SSHPrivateKey config \<and> ssh_destination call = ''root@'' @ runtime_IP state \<and>
     ssh_tty call = tty \<and> ssh_command call = (if command = [] then [] else [line]) \<and>
     sh_words line = Some command"
  by (simp add: ssh_read_sshArgs sh_words_remote exI [of _ "remoteCommand command"])

text \<open>A command is run in the guest only with a state file that names a valid address and with a key;
  otherwise \<open>ssh\<close> is never started, whatever it would have done.\<close>

theorem run_needs_started_vm:
  assumes "runCmd exec command tty w = (r, w')" and "runCmd exec' command tty w \<noteq> (r, w')"
  shows "\<exists>state w1 config. loadVMRuntimeState w = (Inr state, w1) \<and> ParseIP (runtime_IP state) \<noteq> None \<and>
    loadRuntimeConfig w1 = (Inr config, w') \<and> config_SSHPrivateKey config \<noteq> []"
  using assms(1)
proof (cases rule: runCmd_cases)
  case (state e)
  then show ?thesis using assms(2) by (simp add: runCmd_def andThen_def)
next
  case (config state w1 e)
  then show ?thesis using assms(2) by (simp add: runCmd_def andThen_def)
next
  case (ran state w1 config)
  then show ?thesis
    using loadVMRuntimeState_parses [OF ran(1)] loadRuntimeConfig_nonempty [OF ran(2)] by blast
qed

definition started_vm :: world where
  "started_vm = \<lparr>files = [vmRuntimeStatePath \<mapsto>
       text_file (json_indent (encode_VMRuntimeState \<lparr>runtime_IP = ''127.0.0.1''\<rparr>)) 384],
     faults = \<lambda>_. None, rands = \<lambda>_ _. 0, ephemeral = \<lambda>_. 0, busy = \<lambda>_ _. False, listeners = [],
     tick = 0, history = []\<rparr>"

lemma started_vm_loads:
  "loadVMRuntimeState started_vm = (Inr \<lparr>runtime_IP = ''127.0.0.1''\<rparr>, called started_vm)"
  by (rule loadVMRuntimeState_text [where m = 384])
     (use loopback_text_default in \<open>auto simp: started_vm_def loopback_text_def split: option.splits\<close>)

lemma started_vm_config:
  "loadRuntimeConfig (called started_vm) =
     (Inr \<lparr>config_SSHPrivateKey = defaultSSHPrivateKeyPath\<rparr>, called (called started_vm))"
  by (simp add: loadRuntimeConfig_def attempt_def os_ReadFile_def started_vm_def Let_def ret_def
      runtimeConfigPath_def vmRuntimeStatePath_def)

theorem run_needs_started_vm_witness:
  "\<exists>state w1 config w2. loadVMRuntimeState started_vm = (Inr state, w1) \<and> ParseIP (runtime_IP state) \<noteq> None \<and>
     loadRuntimeConfig w1 = (Inr config, w2)"
proof -
  let ?fail = "\<lambda>_. Some (ExitError 255)" and ?ok = "\<lambda>_. None"
  have "runCmd ?ok [''true''] False started_vm = (Inr (), called (called started_vm))"
    and "runCmd ?fail [''true''] False started_vm \<noteq> (Inr (), called (called started_vm))"
    by (simp_all add: runCmd_def andThen_def started_vm_loads started_vm_config ret_def throw_def)
  from run_needs_started_vm [OF this] show ?thesis by blast
qed

text \<open>The guest clock is synchronised once at the start and once per tick; the failures before the
  cancellation are reported, in order, and none after it; when the loop takes the cancellation, the done
  channel is closed, so that the daemon's wait for it ends.\<close>

theorem clock_synchronisation:
  "startGuestClockSynchronization sync (replicate k Tick @ Cancel # replicate l Tick @ [TakeDone]) =
     (1 + k + l, List.map_filter sync [0 ..< 1 + k], True)"
proof -
  have late: "clock_loop sync False n ws (replicate l Tick @ [TakeDone]) = (n + l, ws, True)" for n ws
    by (induction l arbitrary: n) auto
  have "[0 ..< 1 + k] = 0 # [1 ..< 1 + k]" by (simp add: upt_conv_Cons)
  then have first: "(case sync 0 of None \<Rightarrow> [] | Some e \<Rightarrow> [e]) @ List.map_filter sync [1 ..< 1 + k] =
      List.map_filter sync [0 ..< 1 + k]"
    by (simp only:) (simp add: List.map_filter_def split: option.split)
  show ?thesis
    unfolding startGuestClockSynchronization_def clock_loop_ticks clock_loop.simps late first by simp
qed

end
