(* ===== verification/Launcher_Main.thy ===== *)
theory Launcher_Main
  imports Forward_Command Ssh_Command
begin

text \<open>
  The command line of the launcher (\<open>main\<close> of \<open>launcher/mac/main.go\<close>): which command an argument vector
  selects, with which arguments, the exit codes of usage errors, and the exit code of a command that
  returned. Usage texts on standard error are left out. \<open>tty\<close> says whether standard input is a terminal.
\<close>

section \<open>Selecting the command\<close>

datatype command =
    Forward "string list"
  | Init string
  | Start string string int forwardSpecList
  | Daemon string string string
  | Stop
  | RunCommand "string list" bool
  | Status
  | Health_check
  | Resize_data string
  | Version

definition init_flags :: "string flags" where
  "init_flags = [(''ssh-key'', Value_flag (\<lambda>v _. Inr v))]"

definition start_flags :: "forwardSpecList flags" where
  "start_flags = [(''forward'', Value_flag (\<lambda>v forwards. forwardSpecList_Set forwards v))]"

definition run_flags :: "bool flags" where
  "run_flags = [(''tty'', Bool_flag (\<lambda>b _. b)), (''t'', Bool_flag (\<lambda>b _. b))]"

text \<open>\<open>Inl code\<close>: the process exits with this code before any command runs.\<close>

definition parse_args :: "bool \<Rightarrow> string list \<Rightarrow> int + command" where
  "parse_args tty args = (case args of
     exe # cmd # rest \<Rightarrow>
       if cmd = ''forward'' then Inr (Forward rest)
       else if cmd = ''init'' then
         (case flag_parse init_flags [] rest of
            Inl e \<Rightarrow> Inl 2
          | Inr (sshKeyPath, pos) \<Rightarrow> if pos \<noteq> [] then Inl 2 else Inr (Init sshKeyPath))
       else if cmd = ''start'' then
         (case flag_parse start_flags [] rest of
            Inl e \<Rightarrow> Inl 2
          | Inr (forwards, [cpu, ram, size_arg]) \<Rightarrow>
              (case atoi size_arg of
                 Inl e \<Rightarrow> Inl 1
               | Inr dataSizeGB \<Rightarrow> if dataSizeGB \<le> 0 then Inl 1
                   else Inr (Start cpu ram dataSizeGB forwards))
          | Inr _ \<Rightarrow> Inl 2)
       else if cmd = ''__daemon__'' then
         (case rest of
            cpu # ram # extra \<Rightarrow> Inr (Daemon cpu ram (case extra of [] \<Rightarrow> [] | encoded # _ \<Rightarrow> encoded))
          | _ \<Rightarrow> Inl 1)
       else if cmd = ''stop'' then Inr Stop
       else if cmd = ''run'' then
         (case flag_parse run_flags False rest of
            Inl e \<Rightarrow> Inl 2
          | Inr (allocateTTY, words) \<Rightarrow>
              if words = [] \<and> \<not> tty then Inl 2
              else Inr (RunCommand words (allocateTTY \<or> words = [])))
       else if cmd = ''status'' then Inr Status
       else if cmd = ''health-check'' then Inr Health_check
       else if cmd = ''resize-data'' then
         (case rest of [] \<Rightarrow> Inl 1 | newSize # _ \<Rightarrow> Inr (Resize_data newSize))
       else if cmd = ''version'' then Inr Version
       else Inl 1
   | _ \<Rightarrow> Inl 1)"

definition launcherVersion :: string where
  "launcherVersion = ''dev''"

definition versionCmd :: string where
  "versionCmd = launcherVersion @ [CHR 0x0A]"

section \<open>The exit code\<close>

text \<open>\<open>os.Exit\<close> hands the low 8 bits of the code to the parent.\<close>

definition main_exit :: "go_error option \<Rightarrow> int" where
  "main_exit err = (case err of
     None \<Rightarrow> 0
   | Some e \<Rightarrow> (case errors_As is_ExitError e of Some (ExitError c) \<Rightarrow> c | _ \<Rightarrow> 1))"

section \<open>Laws\<close>

lemma flag_parse_forwards:
  assumes "valid_specs (seen @ specs)"
  shows "flag_parse start_flags seen (concat (map (\<lambda>s. [''--forward'', encodeForwardSpec s]) specs) @ rest) =
    flag_parse start_flags (seen @ specs) rest"
  using assms
proof (induction specs arbitrary: seen)
  case (Cons s specs)
  have v: "valid_spec s" and "spec_Name s \<notin> set (map spec_Name seen)"
    using Cons.prems by (auto simp: valid_specs_def)
  then have set: "forwardSpecList_Set seen (encodeForwardSpec s) = Inr (seen @ [s])"
    by (simp add: forwardSpecList_Set_def parse_encode_spec configured_iff)
  have "flag_parse start_flags seen ((''--'' @ ''forward'') # encodeForwardSpec s # args) =
      flag_parse start_flags (seen @ [s]) args" for args
    by (subst flag_parse_value [where set_value = "\<lambda>v forwards. forwardSpecList_Set forwards v"])
       (simp_all add: start_flags_def set)
  then show ?case using Cons.IH [of "seen @ [s]"] Cons.prems by simp
qed simp

lemma parse_start:
  assumes "valid_specs specs" and "\<not> is_flag_text cpu" and "1 \<le> gb" and "gb \<le> int64_max"
  shows "parse_args tty ([exe, ''start''] @ concat (map (\<lambda>s. [''--forward'', encodeForwardSpec s]) specs) @
     [cpu, ram, itoa gb]) = Inr (Start cpu ram gb specs)"
proof -
  have "flag_parse start_flags [] (concat (map (\<lambda>s. [''--forward'', encodeForwardSpec s]) specs) @
      [cpu, ram, itoa gb]) = Inr (specs, [cpu, ram, itoa gb])"
    using flag_parse_forwards [of "[]" specs] assms(1,2) by (simp add: flag_parse_positional)
  moreover have "atoi (itoa gb) = Inr gb" using assms(3,4) by (intro atoi_itoa) (auto simp: int64_min_def)
  ultimately show ?thesis using assms(3) by (simp add: parse_args_def)
qed

lemma start_flags_valid:
  assumes "flag_parse start_flags [] args = Inr (forwards, rest)"
  shows "valid_specs forwards"
proof (rule flag_parse_keeps [OF assms])
  have "valid_specs fs'" if "valid_specs fs" and "forwardSpecList_Set fs v = Inr fs'" for fs v fs'
    using that by (auto simp: forwardSpecList_Set_def configured_iff valid_specs_def
        dest: parseForwardSpec_valid split: sum.splits if_splits)
  then show "flags_keep valid_specs start_flags" by (simp add: flags_keep_def start_flags_def)
qed simp

definition err_of :: "'a result \<Rightarrow> go_error option" where
  "err_of r = (case r of Inl e \<Rightarrow> Some e | Inr _ \<Rightarrow> None)"

lemma main_exit_ExitError: "main_exit (Some (ExitError c)) = c"
  by (simp add: main_exit_def errors_As_def)

lemma main_exit_Wrapped: "main_exit (Some (Wrapped s e)) = main_exit (Some e)"
  by (simp add: main_exit_def)

lemma parse_args_start:
  assumes "parse_args tty args = Inr (Start cpu ram gb forwards)"
  shows "1 \<le> gb \<and> gb \<le> int64_max \<and> valid_specs forwards"
  using assms
  by (auto simp: parse_args_def dest: atoi_range start_flags_valid
      split: list.splits if_splits sum.splits prod.splits)

section \<open>Properties\<close>

text \<open>The exit code of the guest command is the exit code of \<open>launcher run\<close>, through every error the
  launcher wraps around it; a command that ran without error exits with 0.\<close>

theorem exit_code_is_the_guests:
  assumes "loadVMRuntimeState w = (Inr state, w1)" and "loadRuntimeConfig w1 = (Inr config, w2)"
  shows "main_exit (err_of (fst (runCmd (\<lambda>_. Some (ExitError code)) command tty w))) = code \<and>
    main_exit (err_of (fst (runCmd (\<lambda>_. None) command tty w))) = 0"
  using assms
  by (simp add: runCmd_def andThen_def throw_def ret_def err_of_def main_exit_Wrapped main_exit_ExitError)
     (simp add: main_exit_def)

theorem exit_code_is_the_guests_witness:
  "main_exit (err_of (fst (runCmd (\<lambda>_. Some (ExitError 42)) [''false''] False started_vm))) = 42"
  using exit_code_is_the_guests [OF started_vm_loads started_vm_config] by blast

text \<open>C40: what \<open>start\<close> is run with is checked: a positive data size that fits 64 bits, and forwards with
  distinct valid names and ports in range, however the arguments are written.\<close>

theorem start_arguments_checked:
  assumes "parse_args tty args = Inr (Start cpu ram gb forwards)"
  shows "1 \<le> gb \<and> gb \<le> int64_max \<and> distinct (map spec_Name forwards) \<and> list_all valid_spec forwards"
  using parse_args_start [OF assms] by (simp add: valid_specs_def)

theorem start_arguments_checked_witness:
  "\<exists>gb forwards. parse_args False [''launcher'', ''start'', ''--forward'', ''db:8563:0'', ''2'', ''4096'', ''20'']
     = Inr (Start ''2'' ''4096'' gb forwards) \<and> 1 \<le> gb \<and> distinct (map spec_Name forwards)"
proof -
  let ?specs = "[\<lparr>spec_Name = ''db'', spec_GuestPort = 8563, spec_HostPort = 0\<rparr>]"
  have "valid_specs ?specs" by code_simp
  moreover have "encodeForwardSpec (hd ?specs) = ''db:8563:0''" and "itoa 20 = ''20''"
    by (simp_all add: encodeForwardSpec_def text_simps)
  ultimately have "parse_args False [''launcher'', ''start'', ''--forward'', ''db:8563:0'', ''2'', ''4096'', ''20'']
      = Inr (Start ''2'' ''4096'' 20 ?specs)"
    using parse_start [of ?specs "''2''" 20 False "''launcher''" "''4096''"]
    by (simp add: is_flag_text_def int64_max_def)
  from start_arguments_checked [OF this] this show ?thesis by blast
qed

end
