(* ===== verification/Go_Path.thy ===== *)
theory Go_Path
  imports Os
begin

text \<open>
  Parts of the standard library the launcher uses on paths: \<open>filepath.Clean\<close>, \<open>filepath.Join\<close>,
  \<open>filepath.Abs\<close>, and \<open>os.MkdirAll\<close> on the file system of \<open>Os\<close>. A relative path that climbs above
  the working directory with \<open>..\<close> names a file outside the model; such parents count as existing.
\<close>

section \<open>Clean and Join\<close>

definition path_parts :: "path \<Rightarrow> string list" where
  "path_parts p = filter (\<lambda>c. c \<noteq> [] \<and> c \<noteq> ''.'') (split_on CHR ''/'' p)"

definition is_rooted :: "path \<Rightarrow> bool" where
  "is_rooted p \<longleftrightarrow> has_prefix ''/'' p"

text \<open>One component, on the stack of those kept so far.\<close>

definition clean_step :: "bool \<Rightarrow> string \<Rightarrow> string list \<Rightarrow> string list" where
  "clean_step rooted c stack =
     (if c \<noteq> ''..'' then c # stack
      else case stack of
        [] \<Rightarrow> if rooted then [] else [''..'']
      | s # rest \<Rightarrow> if s = ''..'' then ''..'' # stack else rest)"

definition filepath_Clean :: "path \<Rightarrow> path" where
  "filepath_Clean p =
     (let body = join ''/'' (rev (fold (clean_step (is_rooted p)) (path_parts p) [])) in
      if is_rooted p then ''/'' @ body else if body = [] then ''.'' else body)"

text \<open>Leading empty elements are dropped; the others are joined and cleaned.\<close>

definition filepath_Join :: "string list \<Rightarrow> path" where
  "filepath_Join elems = (case dropWhile (\<lambda>e. e = []) elems of
     [] \<Rightarrow> [] | es \<Rightarrow> filepath_Clean (join ''/'' es))"

text \<open>\<open>getwd\<close> is what \<open>os.Getwd\<close> returns.\<close>

definition filepath_Abs :: "path result \<Rightarrow> path \<Rightarrow> path result" where
  "filepath_Abs getwd p =
     (if is_rooted p then Inr (filepath_Clean p)
      else case getwd of Inl e \<Rightarrow> Inl e | Inr wd \<Rightarrow> Inr (filepath_Join [wd, p]))"

section \<open>MkdirAll\<close>

text \<open>The directories from the top down to a cleaned path.\<close>

definition dir_prefixes :: "path \<Rightarrow> path list" where
  "dir_prefixes p = (let ps = path_parts p in
     map (\<lambda>k. (if is_rooted p then ''/'' else []) @ join ''/'' (take k ps))
       (filter (\<lambda>k. ps ! (k - 1) \<noteq> ''..'') [1 ..< Suc (length ps)]))"

fun make_dirs :: "path list \<Rightarrow> 'z world_scheme \<Rightarrow> unit result \<times> 'z world_scheme" where
  "make_dirs [] w = (Inr (), w)"
| "make_dirs (d # ds) w = (case files w d of
     None \<Rightarrow> make_dirs ds (put d (Some Dir) w)
   | Some Dir \<Rightarrow> make_dirs ds w
   | Some (File data sz mode) \<Rightarrow> (Inl (PathError ''mkdir'' d ENOTDIR), w))"

text \<open>A failing call may have created some of the directories.\<close>

definition os_MkdirAll :: "path \<Rightarrow> ('z, unit) os" where
  "os_MkdirAll p = (\<lambda>w. case faults w (tick w) of
     Some (e, k) \<Rightarrow> (Inl (PathError ''mkdir'' p e), called (snd (make_dirs (take k (dir_prefixes p)) w)))
   | None \<Rightarrow> (case make_dirs (dir_prefixes p) w of (r, w') \<Rightarrow> (r, called w')))"

section \<open>Names that stay inside a directory\<close>

text \<open>\<open>plain d\<close>: a single proper name; \<open>tame name\<close>: a name without \<open>..\<close> components.\<close>

definition plain :: "string \<Rightarrow> bool" where
  "plain d \<longleftrightarrow> d \<noteq> [] \<and> CHR ''/'' \<notin> set d \<and> d \<noteq> ''.'' \<and> d \<noteq> ''..''"

definition tame :: "string \<Rightarrow> bool" where
  "tame name \<longleftrightarrow> ''..'' \<notin> set (split_on CHR ''/'' name)"

definition below :: "string \<Rightarrow> path \<Rightarrow> bool" where
  "below d p \<longleftrightarrow> p = d \<or> has_prefix (d @ ''/'') p"

lemma clean_fold: "''..'' \<notin> set cs \<Longrightarrow> fold (clean_step r) cs st = rev cs @ st"
  by (induction cs arbitrary: st) (auto simp: clean_step_def)

lemma clean_step_name: "c \<noteq> ''..'' \<Longrightarrow> clean_step r c st = c # st"
  by (simp add: clean_step_def)

lemma tame_parts: "tame name \<Longrightarrow> ''..'' \<notin> set (path_parts name)"
  by (simp add: tame_def path_parts_def)

lemma path_parts_plain: "plain d \<Longrightarrow> path_parts (d @ CHR ''/'' # name) = d # path_parts name"
  by (simp add: path_parts_def plain_def split_on_append)

lemma plain_not_rooted: "plain d \<Longrightarrow> \<not> is_rooted (d @ s)"
  by (cases d) (auto simp: plain_def is_rooted_def has_prefix_def)

lemma join_nonempty: "c \<noteq> [] \<Longrightarrow> join s (c # cs) \<noteq> []"
  by (cases cs) auto

lemma Join_tame:
  assumes "plain d" and "tame name"
  shows "filepath_Join [d, name] = join ''/'' (d # path_parts name)"
proof -
  have d: "d \<noteq> []" "d \<noteq> ''..''" using assms(1) by (simp_all add: plain_def)
  then have "filepath_Join [d, name] = filepath_Clean (d @ CHR ''/'' # name)" by (simp add: filepath_Join_def)
  also have "\<dots> = join ''/'' (d # path_parts name)"
    using clean_step_name [of d False "[]"] tame_parts [OF assms(2)] d join_nonempty [of d "''/''" "path_parts name"]
    by (simp add: filepath_Clean_def plain_not_rooted [OF assms(1)] path_parts_plain [OF assms(1)]
        clean_fold Let_def)
  finally show ?thesis .
qed

lemma below_join: "below d (join ''/'' (d # cs))"
  by (cases cs) (auto simp: below_def has_prefix_iff)

lemma parts_no_slash: "c \<in> set (path_parts p) \<Longrightarrow> CHR ''/'' \<notin> set c \<and> c \<noteq> [] \<and> c \<noteq> ''.''"
  by (auto simp: path_parts_def dest: split_on_parts)

lemma path_parts_join:
  assumes "cs \<noteq> []" and "\<And>c. c \<in> set cs \<Longrightarrow> CHR ''/'' \<notin> set c \<and> c \<noteq> [] \<and> c \<noteq> ''.''"
  shows "path_parts (join ''/'' cs) = cs"
  using assms by (simp add: path_parts_def split_on_join filter_id_conv)

text \<open>Every directory on the way to such a path, and its parent, is inside as well.\<close>

definition inside :: "string \<Rightarrow> path \<Rightarrow> bool" where
  "inside d p \<longleftrightarrow> (\<exists>cs. p = join ''/'' (d # cs) \<and> (\<forall>c \<in> set cs. CHR ''/'' \<notin> set c \<and> c \<noteq> [] \<and> c \<noteq> ''.''))"

lemma inside_below: "inside d p \<Longrightarrow> below d p"
  by (auto simp: inside_def simp del: join.simps intro: below_join)

lemma inside_Join: "plain d \<Longrightarrow> tame name \<Longrightarrow> inside d (filepath_Join [d, name])"
  unfolding inside_def Join_tame by (blast dest: parts_no_slash)

lemma plain_part: "plain d \<Longrightarrow> CHR ''/'' \<notin> set d \<and> d \<noteq> [] \<and> d \<noteq> ''.''"
  by (simp add: plain_def)

lemma dir_prefixes_inside:
  assumes "plain d" and "inside d p" and "q \<in> set (dir_prefixes p)"
  shows "below d q"
proof -
  obtain cs where p: "p = join ''/'' (d # cs)"
    and cs: "\<forall>c \<in> set cs. CHR ''/'' \<notin> set c \<and> c \<noteq> [] \<and> c \<noteq> ''.''"
    using assms(2) by (auto simp: inside_def)
  have root: "\<not> is_rooted d" using plain_not_rooted [OF assms(1), of "[]"] by simp
  have parts: "path_parts p = d # cs"
    unfolding p by (rule path_parts_join) (use cs plain_part [OF assms(1)] in auto)
  have "\<not> is_rooted p" using plain_not_rooted [OF assms(1)] root by (cases cs) (auto simp: p)
  with assms(3) parts obtain k where "q = join ''/'' (take k (d # cs))" "1 \<le> k"
    by (auto simp: dir_prefixes_def Let_def simp del: upt_Suc)
  then show ?thesis by (cases k) (auto simp del: join.simps intro: below_join)
qed

lemma path_dir_parts:
  assumes "split_on CHR ''/'' p = ds @ [c]" and "ds \<noteq> []" and "ds \<noteq> [[]]"
  shows "path_dir p = join ''/'' ds"
proof (cases "rev ds")
  case (Cons x xs)
  moreover have "rev ds \<noteq> [[]]" using assms(3) by (metis rev_rev_ident rev_singleton_conv)
  ultimately show ?thesis using assms(1) by (simp add: path_dir_def del: rev_rev_ident) (metis Cons rev_rev_ident)
qed (use assms(2) in simp)

lemma path_dir_inside:
  assumes "plain d" and "inside d p"
  shows "path_dir p = ''.'' \<or> inside d (path_dir p)"
proof -
  obtain cs where p: "p = join ''/'' (d # cs)"
    and cs: "\<forall>c \<in> set cs. CHR ''/'' \<notin> set c \<and> c \<noteq> [] \<and> c \<noteq> ''.''"
    using assms(2) by (auto simp: inside_def)
  have sp: "split_on CHR ''/'' p = d # cs"
    unfolding p by (rule split_on_join) (use cs plain_part [OF assms(1)] in auto)
  show ?thesis
  proof (cases cs rule: rev_cases)
    case Nil
    then show ?thesis by (simp add: path_dir_def sp)
  next
    case (snoc cs' c)
    have "path_dir p = join ''/'' (d # cs')"
      by (rule path_dir_parts [where c = c]) (use plain_part [OF assms(1)] in \<open>simp_all add: sp snoc\<close>)
    then show ?thesis using cs snoc unfolding inside_def by auto
  qed
qed

section \<open>What MkdirAll leaves alone\<close>

lemma make_dirs_frame:
  "make_dirs ds w = (r, w') \<Longrightarrow> listeners w' = listeners w \<and> world.more w' = world.more w \<and>
     busy w' = busy w \<and> history w' = history w \<and> faults w' = faults w \<and> tick w' = tick w \<and>
     (\<forall>p. p \<notin> set ds \<longrightarrow> files w' p = files w p) \<and> (\<forall>p n. files w p = Some n \<longrightarrow> files w' p = Some n)"
proof (induction ds arbitrary: w)
  case (Cons d ds)
  show ?case
  proof (cases "files w d")
    case None
    then have "make_dirs ds (put d (Some Dir) w) = (r, w')" using Cons.prems by simp
    from Cons.IH [OF this] None show ?thesis by (auto split: if_splits) (metis option.distinct(1))
  next
    case (Some n)
    then show ?thesis using Cons by (cases n) auto
  qed
qed simp

lemma untouched_MkdirAll [keeps_intros]:
  assumes "set (dir_prefixes p) \<subseteq> A"
  shows "keeps (untouched A) (os_MkdirAll p)"
proof (rule keeps_called)
  fix w :: "'z world_scheme"
  have sub: "q \<notin> set (take k (dir_prefixes p))" if "q \<notin> A" for q k
    using assms that by (meson in_set_takeD subsetD)
  show "\<exists>w1 r. os_MkdirAll p w = (r, called w1) \<and> listeners w1 = listeners w \<and>
      world.more w1 = world.more w \<and> busy w1 = busy w \<and> history w1 = history w \<and>
      (\<forall>p. p \<notin> A \<longrightarrow> files w1 p = files w p)"
  proof (cases "faults w (tick w)")
    case None
    obtain r w1 where m: "make_dirs (dir_prefixes p) w = (r, w1)" by (cases "make_dirs (dir_prefixes p) w")
    then show ?thesis
      using make_dirs_frame [OF m] assms None by (auto simp: os_MkdirAll_def)
  next
    case (Some f)
    obtain e k where f: "f = (e, k)" by (cases f)
    obtain r w1 where m: "make_dirs (take k (dir_prefixes p)) w = (r, w1)"
      by (cases "make_dirs (take k (dir_prefixes p)) w")
    then show ?thesis
      using make_dirs_frame [OF m] sub Some by (auto simp: os_MkdirAll_def f)
  qed
qed

text \<open>It replaces nothing that exists.\<close>

lemma MkdirAll_keeps_nodes:
  assumes "os_MkdirAll p w = (r, w')" and "files w q = Some n"
  shows "files w' q = Some n"
proof (cases "faults w (tick w)")
  case None
  obtain r1 w1 where m: "make_dirs (dir_prefixes p) w = (r1, w1)" by (cases "make_dirs (dir_prefixes p) w")
  then show ?thesis using make_dirs_frame [OF m] assms None by (auto simp: os_MkdirAll_def)
next
  case (Some f)
  obtain e k where f: "f = (e, k)" by (cases f)
  obtain r1 w1 where m: "make_dirs (take k (dir_prefixes p)) w = (r1, w1)"
    by (cases "make_dirs (take k (dir_prefixes p)) w")
  then show ?thesis using make_dirs_frame [OF m] assms Some by (auto simp: os_MkdirAll_def f)
qed

lemma same_faults_MkdirAll [keeps_intros]: "keeps same_faults (os_MkdirAll p)"
  unfolding keeps_def same_faults_def
proof
  fix w :: "'z world_scheme"
  have "faults (snd (make_dirs ds w)) = faults w" for ds
    using make_dirs_frame [of ds w "fst (make_dirs ds w)" "snd (make_dirs ds w)"] by simp
  then show "faults (snd (os_MkdirAll p w)) = faults w"
    by (simp add: os_MkdirAll_def prod.case_eq_if split: option.split)
qed

end
