(* ===== verification/Data_Disk.thy ===== *)
theory Data_Disk
  imports Runtime_Files "HOL-Library.Word"
begin

text \<open>
  The data disk image (\<open>launcher/mac/main.go\<close>): creating, growing and resizing the sparse file
  \<open>vm/data.img\<close>. Sizes are 64-bit signed integers that wrap around. A file keeps its bytes up to the
  last one written, so a disk survives an operation when these bytes are still there and the size
  has not shrunk.
\<close>

section \<open>Sizes\<close>

text \<open>\<open>int64(sizeGB) * 1024 * 1024 * 1024\<close>.\<close>

definition gb_bytes :: "int \<Rightarrow> int" where
  "gb_bytes sizeGB = sint (word_of_int sizeGB * 1024 * 1024 * 1024 :: 64 word)"

text \<open>The largest size whose byte count an \<open>int64\<close> holds.\<close>

definition max_gb :: int where
  "max_gb = 2 ^ 33 - 1"

lemma gb_bytes_wrap: "gb_bytes gb = (gb * 2 ^ 30 + 2 ^ 63) mod 2 ^ 64 - 2 ^ 63"
proof -
  have "(word_of_int gb * 1024 * 1024 * 1024 :: 64 word) = word_of_int (gb * 2 ^ 30)"
    by (simp add: mult.commute)
  then show ?thesis unfolding gb_bytes_def int_word_sint by (simp only:) (simp add: int_word_sint del: of_int_mult)
qed

lemma gb_bytes_exact:
  assumes "0 \<le> gb" and "gb \<le> max_gb"
  shows "gb_bytes gb = gb * 2 ^ 30"
proof -
  have "gb * 2 ^ 30 + 2 ^ 63 < 2 ^ 64" using assms(2) by (simp add: max_gb_def)
  then show ?thesis using assms(1) by (simp add: gb_bytes_wrap)
qed

text \<open>\<open>info.Size()\<close>; the size a file system reports for a directory is taken as 0.\<close>

definition node_size :: "node \<Rightarrow> int" where
  "node_size n = (case n of Dir \<Rightarrow> 0 | File data sz mode \<Rightarrow> sz)"

section \<open>Operations\<close>

definition createSparseDataDisk :: "path \<Rightarrow> int \<Rightarrow> ('z, unit) os" where
  "createSparseDataDisk path sizeGB =
     andThen (onErr (Wrapped ''failed to create disk file: '') (os_open_trunc path 438)) (\<lambda>_.
       deferring
         (onErr (Wrapped ''failed to set disk size: '') (file_Truncate path (gb_bytes sizeGB)))
         (file_Close path))"

definition ensureDataDisk :: "path \<Rightarrow> int \<Rightarrow> ('z, unit) os" where
  "ensureDataDisk path requestedSizeGB =
     (let requestedBytes = gb_bytes requestedSizeGB in
      attempt (os_Stat path) (\<lambda>r. case r of
        Inl err \<Rightarrow>
          if os_IsNotExist err
          then onErr (Wrapped ''failed to create data disk: '') (createSparseDataDisk path requestedSizeGB)
          else throw (Wrapped ''failed to stat data disk: '' err)
      | Inr info \<Rightarrow>
          let currentBytes = node_size info in
          if currentBytes = requestedBytes then ret ()
          else if currentBytes < requestedBytes then
            andThen (onErr (Wrapped ''failed to open data disk: '') (os_open_existing path)) (\<lambda>_.
              deferring
                (onErr (Wrapped ''failed to grow data disk: '') (file_Truncate path requestedBytes))
                (file_Close path))
          else throw (ErrorString (''existing data disk is '' @ itoa (currentBytes div 2 ^ 30) @
            ''GB, larger than requested '' @ itoa requestedSizeGB @
            ''GB; shrinking data disks is not supported''))))"

definition dataDiskPath :: path where
  "dataDiskPath = ''vm/data.img''"

text \<open>\<open>running\<close> is the answer of \<open>isVMRunning\<close>. The size is read by a second \<open>Stat\<close>.\<close>

definition resizeDataDiskCmd :: "bool \<Rightarrow> string \<Rightarrow> ('z, unit) os" where
  "resizeDataDiskCmd running newSizeStr =
     (if running then throw (ErrorString (''VM is currently running. Stop the VM first with 'mac-launcher stop'' @ [CHR 0x27]))
      else andThen (onErr (Wrapped ''invalid size: '') (lift (atoi newSizeStr))) (\<lambda>newSizeGB.
        attempt (os_Stat dataDiskPath) (\<lambda>r.
          if (case r of Inl err \<Rightarrow> os_IsNotExist err | Inr _ \<Rightarrow> False)
          then throw (ErrorString (''data disk not found: '' @ dataDiskPath @
            ''. Initialize VM first with 'mac-launcher init'' @ [CHR 0x27]))
          else andThen (onErr (Wrapped ''failed to stat data disk: '') (os_Stat dataDiskPath)) (\<lambda>fileInfo.
            let currentSizeGB = node_size fileInfo div 2 ^ 30 in
            if newSizeGB \<le> currentSizeGB
            then throw (ErrorString (''new size ('' @ itoa newSizeGB @
              ''GB) must be larger than current size ('' @ itoa currentSizeGB @
              ''GB). Shrinking is not supported''))
            else andThen (onErr (Wrapped ''failed to open disk: '') (os_open_existing dataDiskPath)) (\<lambda>_.
              deferring
                (onErr (Wrapped ''failed to resize disk: '')
                  (file_Truncate dataDiskPath (gb_bytes newSizeGB)))
                (file_Close dataDiskPath))))))"

section \<open>What they do to the image\<close>

text \<open>\<open>disk_kept old new\<close>: the image still holds every byte it held, and its size is at least what it was.\<close>

definition disk_kept :: "node option \<Rightarrow> node option \<Rightarrow> bool" where
  "disk_kept old new \<longleftrightarrow> (case old of
     Some (File data sz mode) \<Rightarrow> (case new of Some (File data' sz' mode') \<Rightarrow>
       data' = data \<and> sz \<le> sz' \<and> mode' = mode | _ \<Rightarrow> False)
   | _ \<Rightarrow> True)"

text \<open>A file never holds more bytes than its size says.\<close>

definition disk_wf :: "node option \<Rightarrow> bool" where
  "disk_wf n \<longleftrightarrow> (case n of Some (File data sz mode) \<Rightarrow> int (length data) \<le> sz | _ \<Rightarrow> True)"

definition has_size :: "int \<Rightarrow> node option \<Rightarrow> bool" where
  "has_size sz n \<longleftrightarrow> (case n of Some (File data s mode) \<Rightarrow> s = sz | _ \<Rightarrow> False)"

lemma disk_kept_refl: "disk_kept n n"
  by (simp add: disk_kept_def split: option.split node.split)

lemma file_Truncate_grow:
  assumes "file_Truncate p sz w = (r, w')" and "files w p = Some (File data s mode)"
    and "int (length data) \<le> s" and "s \<le> sz"
  shows "disk_kept (files w p) (files w' p) \<and> (r = Inr u \<longrightarrow> has_size sz (files w' p))"
  using assms by (auto simp: file_Truncate_def disk_kept_def has_size_def split: option.splits if_splits)

lemma deferred_close:
  "deferring m (file_Close p) w = (r, w') \<Longrightarrow> \<exists>w1. m w = (r, w1) \<and> w' = called w1"
  by (auto simp: deferring_def file_Close_def split: prod.splits)

lemma createSparseDataDisk_new:
  assumes "createSparseDataDisk p gb w = (r, w')" and "files w p = None"
  shows "r = Inr u \<Longrightarrow> has_size (gb_bytes gb) (files w' p)"
  using assms
  by (auto simp: createSparseDataDisk_def andThen_def onErr_def os_open_trunc_def file_Truncate_def has_size_def
      split: option.splits if_splits prod.splits sum.splits dest!: deferred_close)

lemma untouched_disk [keeps_intros]:
  "keeps (untouched {p}) (createSparseDataDisk p gb)" "keeps (untouched {p}) (ensureDataDisk p gb)"
proof -
  show c: "keeps (untouched {p}) (createSparseDataDisk p gb)" for gb
    unfolding createSparseDataDisk_def by (intro untouched.keeps_rules keeps_intros) simp_all
  show "keeps (untouched {p}) (ensureDataDisk p gb)"
    unfolding ensureDataDisk_def Let_def
    by (intro untouched.keeps_rules keeps_intros)
       (auto split: sum.split node.split intro!: untouched.keeps_rules keeps_intros c)
qed

text \<open>Failures never report a missing file that exists: \<open>ENOENT\<close> is for missing files only.\<close>

definition honest_faults :: "'z world_scheme \<Rightarrow> bool" where
  "honest_faults w \<longleftrightarrow> (\<forall>n k. faults w n \<noteq> Some (ENOENT, k))"

lemma os_Stat_missing:
  "os_Stat p w = (Inl e, w') \<Longrightarrow> os_IsNotExist e \<Longrightarrow> honest_faults w \<Longrightarrow> files w p = None \<and> w' = called w"
  by (auto simp: os_Stat_def honest_faults_def split: option.splits)

lemma os_Stat_found: "os_Stat p w = (Inr n, w') \<Longrightarrow> files w p = Some n \<and> w' = called w"
  by (auto simp: os_Stat_def split: option.splits)

lemma os_Stat_world: "snd (os_Stat p w) = called w"
  by (simp add: os_Stat_def)

text \<open>Opening an existing image and setting a size that is not smaller.\<close>

lemma grow_result:
  assumes "andThen (onErr g (os_open_existing p)) (\<lambda>_. deferring (onErr h (file_Truncate p sz)) (file_Close p)) w
      = (r, w')"
    and wf: "disk_wf (files w p)" and le: "\<And>n. files w p = Some n \<Longrightarrow> node_size n \<le> sz"
  shows "disk_kept (files w p) (files w' p) \<and> (r = Inr u \<longrightarrow> has_size sz (files w' p))"
proof (cases "os_open_existing p w")
  case (Pair r1 w1)
  have w1: "w1 = called w" using Pair by (auto simp: os_open_existing_def)
  show ?thesis
  proof (cases r1)
    case (Inl e)
    then have "w' = w1" "r = Inl (g e)" using assms(1) Pair by (auto simp: andThen_def onErr_def)
    then show ?thesis by (simp add: w1 disk_kept_refl)
  next
    case (Inr v)
    then obtain data s mode where f: "files w p = Some (File data s mode)"
      using Pair by (auto simp: os_open_existing_def split: option.splits node.splits)
    obtain w2 where t: "onErr h (file_Truncate p sz) w1 = (r, w2)" and w': "w' = called w2"
      using assms(1) Pair Inr by (auto simp: andThen_def onErr_def [of g] dest!: deferred_close)
    obtain r2 where t2: "file_Truncate p sz w1 = (r2, w2)" and r2: "r = Inr u \<Longrightarrow> r2 = Inr u"
      using t by (auto simp: onErr_def split: prod.splits sum.splits)
    have "int (length data) \<le> s" "s \<le> sz" using wf le [OF f] by (simp_all add: f disk_wf_def node_size_def)
    with file_Truncate_grow [OF t2, where u = u] f show ?thesis
      using r2 by (simp add: w' w1)
  qed
qed

lemma createSparse_kept: "files w p = None \<Longrightarrow> disk_kept (files w p) n"
  by (simp add: disk_kept_def)

lemma ensureDataDisk_result:
  assumes run: "ensureDataDisk p gb w = (r, w')" and wf: "disk_wf (files w p)" and honest: "honest_faults w"
    and gb: "1 \<le> gb" "gb \<le> max_gb"
  shows "disk_kept (files w p) (files w' p) \<and> (r = Inr u \<longrightarrow> has_size (gb * 2 ^ 30) (files w' p))"
proof -
  have b: "gb_bytes gb = gb * 2 ^ 30" using gb by (simp add: gb_bytes_exact)
  obtain s w1 where st: "os_Stat p w = (s, w1)" by (cases "os_Stat p w")
  have w1: "w1 = called w" using os_Stat_world [of p w] st by simp
  show ?thesis
  proof (cases s)
    case (Inl e)
    show ?thesis
    proof (cases "os_IsNotExist e")
      case True
      then have none: "files w p = None" using os_Stat_missing st Inl honest by blast
      have "onErr (Wrapped ''failed to create data disk: '') (createSparseDataDisk p gb) w1 = (r, w')"
        using run st Inl True by (simp add: ensureDataDisk_def Let_def attempt_def)
      then have "r = Inr u \<Longrightarrow> createSparseDataDisk p gb w1 = (Inr u, w')"
        by (auto simp: onErr_def split: prod.splits sum.splits)
      then show ?thesis
        using none createSparseDataDisk_new [of p gb w1 "Inr u" w' u] by (simp add: w1 b disk_kept_def)
    next
      case False
      then have "w' = w1" "r \<noteq> Inr u"
        using run st Inl by (auto simp: ensureDataDisk_def Let_def attempt_def throw_def)
      then show ?thesis by (simp add: w1 disk_kept_refl)
    qed
  next
    case (Inr info)
    have f: "files w p = Some info" using os_Stat_found st Inr by blast
    consider (same) "node_size info = gb * 2 ^ 30" | (grow) "node_size info < gb * 2 ^ 30"
      | (big) "node_size info > gb * 2 ^ 30" by linarith
    then show ?thesis
    proof cases
      case same
      then have "w' = w1" using run st Inr b by (simp add: ensureDataDisk_def Let_def attempt_def ret_def)
      moreover have "info \<noteq> Dir" using same gb by (auto simp: node_size_def)
      ultimately show ?thesis
        using same f by (cases info) (auto simp: w1 has_size_def node_size_def disk_kept_refl)
    next
      case grow
      then have "andThen (onErr (Wrapped ''failed to open data disk: '') (os_open_existing p)) (\<lambda>_.
          deferring (onErr (Wrapped ''failed to grow data disk: '') (file_Truncate p (gb * 2 ^ 30)))
            (file_Close p)) w1 = (r, w')"
        using run st Inr b by (simp add: ensureDataDisk_def Let_def attempt_def)
      from grow_result [OF this, where u = u] show ?thesis using wf f grow by (simp add: w1)
    next
      case big
      then have "w' = w1" "r \<noteq> Inr u"
        using run st Inr b by (auto simp: ensureDataDisk_def Let_def attempt_def throw_def)
      then show ?thesis by (simp add: w1 disk_kept_refl)
    qed
  qed
qed

lemma ensureDataDisk_succeeds:
  assumes h: "no_faults w" and d: "dir_exists w (path_dir p)" and gb: "1 \<le> gb" "gb \<le> max_gb"
    and n: "files w p = None \<or> (\<exists>data s mode. files w p = Some (File data s mode) \<and> s \<le> gb * 2 ^ 30)"
  shows "fst (ensureDataDisk p gb w) = Inr ()"
proof -
  have b: "gb_bytes gb = gb * 2 ^ 30" using gb by (simp add: gb_bytes_exact)
  have d': "dir_exists (called w) q = dir_exists w q" for q by (simp add: dir_exists_def)
  from n show ?thesis
  proof (elim disjE exE conjE)
    assume "files w p = None"
    then show ?thesis using h d gb
      by (simp add: ensureDataDisk_def Let_def attempt_def os_Stat_def b onErr_def createSparseDataDisk_def andThen_def
          os_open_trunc_def d' deferring_def file_Truncate_def prod.case_eq_if)
  next
    fix data s mode assume "files w p = Some (File data s mode)" and "s \<le> gb * 2 ^ 30"
    then show ?thesis using h gb
      by (simp add: ensureDataDisk_def Let_def attempt_def os_Stat_def b onErr_def andThen_def node_size_def ret_def
          os_open_existing_def deferring_def file_Truncate_def prod.case_eq_if)
  qed
qed

section \<open>Resizing\<close>

lemma resizeDataDiskCmd_result:
  assumes run: "resizeDataDiskCmd running str w = (r, w')" and wf: "disk_wf (files w dataDiskPath)"
    and gb: "\<And>gb. atoi str = Inr gb \<Longrightarrow> gb \<le> max_gb"
  shows "disk_kept (files w dataDiskPath) (files w' dataDiskPath) \<and>
    (r = Inr u \<longrightarrow> \<not> running \<and> (\<exists>gb. atoi str = Inr gb \<and> has_size (gb * 2 ^ 30) (files w' dataDiskPath)))"
proof (cases "running \<or> (\<exists>e. atoi str = Inl e)")
  case True
  then show ?thesis using run
    by (auto simp: resizeDataDiskCmd_def andThen_def onErr_def lift_def throw_def disk_kept_refl split: if_splits)
next
  case False
  then obtain n where n: "atoi str = Inr n" and nr: "\<not> running" by (cases "atoi str") auto
  let ?w = "called w" let ?p = dataDiskPath
  show ?thesis
  proof (cases "os_Stat ?p ?w")
    case (Pair r2 w2)
    have w2: "w2 = called ?w" using os_Stat_world [of ?p ?w] Pair by simp
    have st: "os_Stat ?p w = (fst (os_Stat ?p w), ?w)" using os_Stat_world [of ?p w] by (metis prod.collapse)
    show ?thesis
    proof (cases "(case fst (os_Stat ?p w) of Inl err \<Rightarrow> os_IsNotExist err | Inr _ \<Rightarrow> False) \<or> (\<exists>e. r2 = Inl e)")
      case True
      then have "w' = ?w \<or> w' = w2" "r \<noteq> Inr u"
        using run nr n st Pair
        by (auto simp: resizeDataDiskCmd_def andThen_def onErr_def lift_def attempt_def throw_def
            split: prod.splits if_splits)
      then show ?thesis by (auto simp: w2 disk_kept_refl)
    next
      case False
      then obtain info where info: "r2 = Inr info" by (cases r2) auto
      have f: "files w ?p = Some info" using os_Stat_found Pair info by (metis called_simps(1))
      show ?thesis
      proof (cases "n \<le> node_size info div 2 ^ 30")
        case True
        then have "w' = w2" "r \<noteq> Inr u"
          using run nr n st Pair False info
          by (auto simp: resizeDataDiskCmd_def andThen_def onErr_def lift_def attempt_def throw_def
              Let_def split: prod.splits if_splits)
        then show ?thesis by (simp add: w2 disk_kept_refl)
      next
        case big: False
        have size0: "0 \<le> node_size info" using wf f by (cases info) (auto simp: disk_wf_def node_size_def)
        then have "0 \<le> n" using big by (metis dual_order.trans linear pos_imp_zdiv_nonneg_iff zero_less_numeral zero_less_power)
        then have b: "gb_bytes n = n * 2 ^ 30" using gb [OF n] by (rule gb_bytes_exact)
        have le: "node_size info \<le> n * 2 ^ 30" using big by simp
        have "andThen (onErr (Wrapped ''failed to open disk: '') (os_open_existing ?p)) (\<lambda>_.
            deferring (onErr (Wrapped ''failed to resize disk: '') (file_Truncate ?p (n * 2 ^ 30)))
              (file_Close ?p)) w2 = (r, w')"
        proof -
          let ?m = "onErr (Wrapped ''failed to stat data disk: '') (os_Stat ?p)"
          have st2: "?m ?w = (Inr info, w2)" using Pair info by simp
          have c: "(case fst (os_Stat ?p w) of Inl err \<Rightarrow> os_IsNotExist err | Inr _ \<Rightarrow> False) = False"
            using False by blast
          have g: "(n \<le> node_size info div 2 ^ 30) = False" using big by blast
          show ?thesis
            using run nr unfolding resizeDataDiskCmd_def n onErr_lift_Inr
            by (simp only: if_False c g andThen_lift_Inr attempt_eq [where m = "os_Stat ?p", OF st] andThen_Inr [where m = ?m, OF st2] Let_def b)
        qed
        from grow_result [OF this, where u = u] show ?thesis using wf f le n nr by (simp add: w2)
      qed
    qed
  qed
qed

text \<open>Beyond \<open>max_gb\<close> the byte count wraps around while the comparison does not.\<close>

lemma resize_overflow:
  assumes h: "no_faults w" and f: "files w dataDiskPath = Some (File data s mode)"
    and s: "0 \<le> s" "s < 2 ^ 63" and k: "0 \<le> k" "k \<le> max_gb" and str: "atoi str = Inr (2 ^ 34 + k)"
  shows "\<exists>w'. resizeDataDiskCmd False str w = (Inr (), w') \<and>
    files w' dataDiskPath = Some (File (take (nat (k * 2 ^ 30)) data) (k * 2 ^ 30) mode)"
proof -
  have "gb_bytes (2 ^ 34 + k) = gb_bytes k"
  proof -
    have "(2 ^ 34 + k) * 2 ^ 30 + 2 ^ 63 = (k * 2 ^ 30 + 2 ^ 63) + 2 ^ 64" for k :: int by simp
    then show ?thesis unfolding gb_bytes_wrap by (metis mod_add_self2)
  qed
  then have b: "gb_bytes (17179869184 + k) = k * 1073741824" using k gb_bytes_exact [of k] by simp
  have "\<not> 2 ^ 34 + k \<le> s div 2 ^ 30" using s k by simp
  then show ?thesis using h f str k b
    by (simp add: resizeDataDiskCmd_def andThen_def onErr_def lift_def attempt_def Let_def os_Stat_def
        node_size_def os_open_existing_def deferring_def file_Truncate_def file_Close_def)
qed

section \<open>Properties\<close>

text \<open>C34: starting the VM never harms the data disk: for every requested size up to 8388607 TB and
  whatever call fails, the image keeps every byte and never shrinks, no other file changes, and when
  the step succeeds the image has exactly the requested size.\<close>

theorem ensure_keeps_disk:
  assumes "ensureDataDisk p gb w = (r, w')" and "disk_wf (files w p)" and "honest_faults w"
    and "1 \<le> gb" and "gb \<le> max_gb"
  shows "disk_kept (files w p) (files w' p) \<and> (\<forall>q. q \<noteq> p \<longrightarrow> files w' q = files w q) \<and>
    (r = Inr () \<longrightarrow> has_size (gb * 2 ^ 30) (files w' p))"
  using ensureDataDisk_result [OF assms, of "()"] keepsD_eq [OF untouched_disk(2) assms(1)]
  by (simp add: untouched_def)

definition disk_world :: "int \<Rightarrow> world" where
  "disk_world sz = \<lparr>files = [''vm'' \<mapsto> Dir, dataDiskPath \<mapsto> File ''superblock'' sz 420],
     faults = \<lambda>n. if n = 7 then Some (ENOSPC, 0) else None, rands = \<lambda>_ _. 0, ephemeral = \<lambda>_. 0,
     busy = \<lambda>_ _. False, listeners = [], tick = 8, history = []\<rparr>"

theorem ensure_keeps_disk_witness:
  "\<exists>w'. ensureDataDisk dataDiskPath 20 (disk_world (10 * 2 ^ 30)) = (Inr (), w') \<and>
     files w' dataDiskPath = Some (File ''superblock'' (20 * 2 ^ 30) 420)"
proof -
  let ?w = "disk_world (10 * 2 ^ 30)"
  have run: "ensureDataDisk dataDiskPath 20 ?w = (Inr (), snd (ensureDataDisk dataDiskPath 20 ?w))"
    by (simp add: disk_world_def ensureDataDisk_def Let_def attempt_def os_Stat_def node_size_def
        gb_bytes_exact max_gb_def andThen_def onErr_def os_open_existing_def deferring_def file_Truncate_def
        file_Close_def called_def put_def)
  have "disk_wf (files ?w dataDiskPath)" "honest_faults ?w"
    by (simp_all add: disk_world_def disk_wf_def honest_faults_def)
  from ensure_keeps_disk [OF run this] have
    "disk_kept (files ?w dataDiskPath) (files (snd (ensureDataDisk dataDiskPath 20 ?w)) dataDiskPath)"
    "has_size (20 * 2 ^ 30) (files (snd (ensureDataDisk dataDiskPath 20 ?w)) dataDiskPath)"
    by (simp_all add: max_gb_def)
  then have "files (snd (ensureDataDisk dataDiskPath 20 ?w)) dataDiskPath =
      Some (File ''superblock'' (20 * 2 ^ 30) 420)"
    by (auto simp: disk_world_def disk_kept_def has_size_def split: option.splits node.splits)
  with run show ?thesis by blast
qed

text \<open>Without failures, a start whose image is missing or not larger than requested gets its image,
  also after earlier starts were interrupted at any point.\<close>

theorem ensure_succeeds:
  assumes "no_faults w" and "dir_exists w (path_dir p)" and "1 \<le> gb" and "gb \<le> max_gb"
    and "files w p = None \<or> (\<exists>data s mode. files w p = Some (File data s mode) \<and> s \<le> gb * 2 ^ 30)"
  shows "fst (ensureDataDisk p gb w) = Inr ()"
  by (rule ensureDataDisk_succeeds [OF assms])

theorem ensure_succeeds_witness:
  "fst (ensureDataDisk dataDiskPath 20 ((disk_world 0)\<lparr>faults := (\<lambda>_. None)\<rparr>)) = Inr ()"
proof (rule ensure_succeeds)
  show "dir_exists ((disk_world 0)\<lparr>faults := (\<lambda>_. None)\<rparr>) (path_dir dataDiskPath)" by code_simp
qed (simp_all add: no_faults_def max_gb_def, simp add: disk_world_def)

text \<open>C35: \<open>resize-data\<close> keeps every byte of the image and never shrinks it, for every requested size an
  \<open>int64\<close> byte count can hold; it works on a stopped VM only, and when it succeeds the image has
  exactly the new size.\<close>

theorem resize_keeps_disk:
  assumes "resizeDataDiskCmd running str w = (r, w')" and "disk_wf (files w dataDiskPath)"
    and "\<And>gb. atoi str = Inr gb \<Longrightarrow> gb \<le> max_gb"
  shows "disk_kept (files w dataDiskPath) (files w' dataDiskPath) \<and>
    (r = Inr () \<longrightarrow> \<not> running \<and> (\<exists>gb. atoi str = Inr gb \<and> has_size (gb * 2 ^ 30) (files w' dataDiskPath)))"
  by (rule resizeDataDiskCmd_result [OF assms])

theorem resize_keeps_disk_witness:
  "\<exists>r w'. resizeDataDiskCmd False ''20'' (disk_world (10 * 2 ^ 30)) = (r, w') \<and>
     disk_kept (Some (File ''superblock'' (10 * 2 ^ 30) 420)) (files w' dataDiskPath)"
proof -
  have "atoi ''20'' = Inr 20" by code_simp
  then have "disk_kept (files (disk_world (10 * 2 ^ 30)) dataDiskPath)
      (files (snd (resizeDataDiskCmd False ''20'' (disk_world (10 * 2 ^ 30)))) dataDiskPath)"
    using resize_keeps_disk [of False "''20''" "disk_world (10 * 2 ^ 30)", OF prod.collapse [symmetric]]
    by (simp add: max_gb_def disk_world_def disk_wf_def)
  then show ?thesis by (simp add: disk_world_def) (metis prod.collapse)
qed

text \<open>C36: beyond that bound the byte count wraps around while the check compares gigabytes: a request for
  \<open>2^34 + k\<close> GB passes the check, reports success, and cuts the image down to \<open>k\<close> GB.\<close>

theorem resize_overflow_truncates:
  assumes "no_faults w" and "files w dataDiskPath = Some (File data s mode)"
    and "0 \<le> s" and "s < 2 ^ 63" and "0 \<le> k" and "k \<le> max_gb" and "atoi str = Inr (2 ^ 34 + k)"
  shows "\<exists>w'. resizeDataDiskCmd False str w = (Inr (), w') \<and>
    files w' dataDiskPath = Some (File (take (nat (k * 2 ^ 30)) data) (k * 2 ^ 30) mode)"
  by (rule resize_overflow [OF assms])

theorem resize_overflow_truncates_witness:
  "\<exists>w'. resizeDataDiskCmd False ''17179869184'' ((disk_world (2 ^ 30))\<lparr>faults := (\<lambda>_. None)\<rparr>) = (Inr (), w') \<and>
     files w' dataDiskPath = Some (File [] 0 420)"
proof -
  have "itoa 17179869184 = ''17179869184''" by (simp add: text_simps)
  then have "atoi ''17179869184'' = Inr (2 ^ 34 + 0)"
    using atoi_itoa [of 17179869184] by (simp add: int64_min_def int64_max_def)
  from resize_overflow_truncates [OF _ _ _ _ _ _ this, of "(disk_world (2 ^ 30))\<lparr>faults := (\<lambda>_. None)\<rparr>"]
  show ?thesis by (simp add: disk_world_def no_faults_def max_gb_def)
qed

end
