(* ===== verification/Archive.thy ===== *)
theory Archive
  imports Go_Path Data_Disk
begin

text \<open>
  Unpacking the embedded archives (\<open>launcher/mac/main.go\<close>): \<open>extractTarXZ\<close> and \<open>refreshInitAssets\<close>.
  Decompression and the tar format are the libraries' work; what they yield is an argument: the
  error of the xz reader, or the entries in order and how the stream ends (\<open>None\<close> for \<open>io.EOF\<close>).
\<close>

unbundle bit_operations_syntax

section \<open>Archives\<close>

datatype tar_type = TypeDir | TypeReg | TypeOther

text \<open>\<open>tar_BodyErr\<close> is the error reading the body ends with after \<open>tar_Body\<close>.\<close>

record tar_entry =
  tar_Name :: string
  tar_Typeflag :: tar_type
  tar_Mode :: int
  tar_Body :: string
  tar_BodyErr :: "go_error option"

type_synonym archive = "(tar_entry list \<times> go_error option) result"

type_synonym path_transform = "(string \<Rightarrow> string) option"

section \<open>Extraction\<close>

text \<open>Where an entry goes; nowhere when the transformation yields the empty path.\<close>

definition entry_path :: "path \<Rightarrow> path_transform \<Rightarrow> tar_entry \<Rightarrow> path option" where
  "entry_path outputDir pathTransform e = (case pathTransform of
     None \<Rightarrow> Some (filepath_Join [outputDir, tar_Name e])
   | Some f \<Rightarrow> if f (tar_Name e) = [] then None else Some (filepath_Join [outputDir, f (tar_Name e)]))"

text \<open>\<open>io.Copy(outFile, tarReader)\<close>.\<close>

definition copy_body :: "path \<Rightarrow> tar_entry \<Rightarrow> ('z, unit) os" where
  "copy_body p e =
     andThen (if tar_Body e = [] then ret () else file_Write p (tar_Body e)) (\<lambda>_.
       case tar_BodyErr e of None \<Rightarrow> ret () | Some err \<Rightarrow> throw err)"

text \<open>The copy into the open file, its \<open>Close\<close>, and the mode of an executable.\<close>

definition fill_file :: "path \<Rightarrow> tar_entry \<Rightarrow> ('z, unit) os" where
  "fill_file outputPath e =
     attempt (copy_body outputPath e) (\<lambda>r.
     attempt (file_Close outputPath) (\<lambda>_.
       case r of Inl err \<Rightarrow> throw (Wrapped (''failed to write file '' @ outputPath @ '': '') err)
       | Inr _ \<Rightarrow> if tar_Mode e AND 73 \<noteq> 0
           then attempt (file_Chmod outputPath 493) (\<lambda>_. ret ()) else ret ()))"

definition extract_file :: "path \<Rightarrow> tar_entry \<Rightarrow> ('z, unit) os" where
  "extract_file outputPath e =
     andThen (onErr (Wrapped (''failed to create parent directory for '' @ outputPath @ '': ''))
         (os_MkdirAll (path_dir outputPath))) (\<lambda>_.
     andThen (onErr (Wrapped (''failed to create file '' @ outputPath @ '': ''))
         (os_open_trunc outputPath 438)) (\<lambda>_. fill_file outputPath e))"

definition extract_entry :: "path \<Rightarrow> tar_entry \<Rightarrow> ('z, unit) os" where
  "extract_entry outputPath e = (case tar_Typeflag e of
     TypeDir \<Rightarrow> onErr (Wrapped (''failed to create directory '' @ outputPath @ '': '')) (os_MkdirAll outputPath)
   | TypeReg \<Rightarrow> extract_file outputPath e
   | TypeOther \<Rightarrow> ret ())"

fun extract_entries :: "path \<Rightarrow> path_transform \<Rightarrow> tar_entry list \<Rightarrow> go_error option \<Rightarrow> ('z, unit) os" where
  "extract_entries outputDir f [] ending = (case ending of
     None \<Rightarrow> ret () | Some err \<Rightarrow> throw (Wrapped ''failed to read tar header: '' err))"
| "extract_entries outputDir f (e # es) ending = (case entry_path outputDir f e of
     None \<Rightarrow> extract_entries outputDir f es ending
   | Some outputPath \<Rightarrow>
       andThen (extract_entry outputPath e) (\<lambda>_. extract_entries outputDir f es ending))"

definition extractTarXZ :: "archive \<Rightarrow> path \<Rightarrow> path_transform \<Rightarrow> ('z, unit) os" where
  "extractTarXZ data outputDir pathTransform = (case data of
     Inl err \<Rightarrow> throw (Wrapped ''failed to create xz reader: '' err)
   | Inr (entries, ending) \<Rightarrow> extract_entries outputDir pathTransform entries ending)"

section \<open>Refreshing the assets of a start\<close>

definition legacyPaths :: "path \<Rightarrow> path list" where
  "legacyPaths sharedDir =
     [filepath_Join [sharedDir, ''init'', ''init-db.sh''],
      filepath_Join [sharedDir, ''init'', ''config.json''],
      filepath_Join [sharedDir, ''init'', ''exasol-nano-db.tar.gz''],
      filepath_Join [sharedDir, ''init'', ''exasol-nano-db.tar.gz.metadata''],
      filepath_Join [sharedDir, ''version-check.json''],
      filepath_Join [sharedDir, ''slc.json'']]"

text \<open>\<open>errors.Is(err, os.ErrNotExist)\<close>.\<close>

definition is_ErrNotExist :: "go_error \<Rightarrow> bool" where
  "is_ErrNotExist err = errors_Is err (Errno ENOENT)"

definition remove_legacy :: "path \<Rightarrow> ('z, unit) os" where
  "remove_legacy p = attempt (os_Remove p) (\<lambda>r. case r of
     Inl err \<Rightarrow> if is_ErrNotExist err then ret ()
       else throw (Wrapped (''failed to remove legacy database asset '' @ p @ '': '') err)
   | Inr _ \<Rightarrow> ret ())"

definition refreshInitAssets :: "archive \<Rightarrow> path \<Rightarrow> ('z, unit) os" where
  "refreshInitAssets initAssets sharedDir =
     andThen (onErr (Wrapped ''failed to refresh VM initialization assets: '')
         (extractTarXZ initAssets sharedDir None)) (\<lambda>_.
       forEach (legacyPaths sharedDir) remove_legacy)"

section \<open>Extraction stays inside its directory\<close>

definition tree :: "string \<Rightarrow> path set" where
  "tree d = {p. below d p}"

lemma dir_prefixes_tree: "plain d \<Longrightarrow> inside d p \<Longrightarrow> set (dir_prefixes p) \<subseteq> tree d"
  by (auto simp: tree_def dest: dir_prefixes_inside)

lemma dir_prefixes_dot: "dir_prefixes ''.'' = []"
  by code_simp

lemma path_dir_prefixes_tree: "plain d \<Longrightarrow> inside d p \<Longrightarrow> set (dir_prefixes (path_dir p)) \<subseteq> tree d"
  using path_dir_inside [of d p] dir_prefixes_tree [of d "path_dir p"] dir_prefixes_dot by fastforce

lemma inside_tree: "inside d p \<Longrightarrow> p \<in> tree d"
  by (simp add: tree_def inside_below)

lemma untouched_extract_entry:
  assumes "plain d" and "inside d p"
  shows "keeps (untouched (tree d)) (extract_entry p e)"
proof -
  note ins = dir_prefixes_tree [OF assms] path_dir_prefixes_tree [OF assms] inside_tree [OF assms(2)]
  have "keeps (untouched (tree d)) (copy_body p e)"
    unfolding copy_body_def
    by (cases "tar_BodyErr e"; cases "tar_Body e = []")
       (auto intro!: untouched.keeps_rules keeps_intros ins)
  then show ?thesis
    unfolding extract_entry_def extract_file_def fill_file_def
    by (cases "tar_Typeflag e")
       (auto intro!: untouched.keeps_rules keeps_intros ins split: sum.split)
qed

text \<open>\<open>strip_top\<close> is what \<open>initCmd\<close> does to the names of the VM package: the first component goes.\<close>

definition strip_top :: "string \<Rightarrow> string" where
  "strip_top path = (case split_at_first CHR ''/'' path of [_, rest] \<Rightarrow> rest | _ \<Rightarrow> [])"

lemma split_on_prefix: "split_on d (a @ d # b) = split_on d a @ split_on d b"
proof (induction a)
  case (Cons c a)
  then show ?case
    using split_on_nonempty [of d a] by (cases "split_on d a") (auto split: list.splits)
qed simp

lemma split_at_first_cases:
  "split_at_first d s = [s] \<and> d \<notin> set s \<or> (\<exists>a b. s = a @ d # b \<and> split_at_first d s = [a, b])"
proof (induction s)
  case (Cons c s)
  then show ?case by (auto simp: Cons_eq_append_conv) 
qed simp

lemma strip_top_tame:
  assumes "tame name"
  shows "tame (strip_top name)"
proof (cases "CHR ''/'' \<in> set name")
  case True
  then obtain a b where ab: "name = a @ CHR ''/'' # b" "split_at_first CHR ''/'' name = [a, b]"
    using split_at_first_cases by blast
  then show ?thesis using assms by (simp add: strip_top_def tame_def split_on_prefix)
next
  case False
  then have "split_at_first CHR ''/'' name = [name]" using split_at_first_cases [of "CHR ''/''" name] by auto
  then show ?thesis by (simp add: strip_top_def tame_def)
qed

text \<open>The two ways the launcher names the files of an archive.\<close>

definition launcher_transform :: "path_transform \<Rightarrow> bool" where
  "launcher_transform f \<longleftrightarrow> f = None \<or> f = Some strip_top"

lemma entry_path_inside:
  assumes "plain d" and "launcher_transform f" and "tame (tar_Name e)" and "entry_path d f e = Some p"
  shows "inside d p"
  using assms inside_Join [OF assms(1)] strip_top_tame
  by (auto simp: entry_path_def launcher_transform_def split: if_splits)

lemma untouched_extract_entries:
  assumes "plain d" and "launcher_transform f" and "list_all (\<lambda>e. tame (tar_Name e)) es"
  shows "keeps (untouched (tree d)) (extract_entries d f es ending)"
  using assms(3)
proof (induction es)
  case Nil
  show ?case by (cases ending) (auto intro: untouched.keeps_rules)
next
  case (Cons e es)
  show ?case
  proof (cases "entry_path d f e")
    case (Some p)
    from entry_path_inside [OF assms(1,2) _ this] Cons.prems have "inside d p" by simp
    with Cons Some assms(1) show ?thesis
      by (auto intro!: untouched.keeps_rules untouched_extract_entry)
  qed (use Cons in simp)
qed

definition tame_archive :: "archive \<Rightarrow> bool" where
  "tame_archive a \<longleftrightarrow> (case a of Inl e \<Rightarrow> True | Inr (es, ending) \<Rightarrow> list_all (\<lambda>e. tame (tar_Name e)) es)"

lemma untouched_extractTarXZ:
  "plain d \<Longrightarrow> launcher_transform f \<Longrightarrow> tame_archive a \<Longrightarrow> keeps (untouched (tree d)) (extractTarXZ a d f)"
  unfolding extractTarXZ_def tame_archive_def
  by (auto intro!: untouched.keeps_rules untouched_extract_entries split: sum.split prod.split)

section \<open>What a successful extraction leaves\<close>

text \<open>The specification: the bytes of the last regular entry that goes to a path.\<close>

fun unpacked :: "path \<Rightarrow> path_transform \<Rightarrow> tar_entry list \<Rightarrow> path \<Rightarrow> string option" where
  "unpacked d f [] p = None"
| "unpacked d f (e # es) p = (case unpacked d f es p of
     Some data \<Rightarrow> Some data
   | None \<Rightarrow> if tar_Typeflag e = TypeReg \<and> entry_path d f e = Some p then Some (tar_Body e) else None)"

definition holds :: "'z world_scheme \<Rightarrow> path \<Rightarrow> string \<Rightarrow> bool" where
  "holds w p data \<longleftrightarrow> (\<exists>mode. files w p = Some (text_file data mode))"

lemma copy_body_ok:
  assumes "copy_body p e w = (Inr u, w')" and "files w p = Some (File [] 0 m)"
  shows "holds w' p (tar_Body e) \<and> (\<forall>q. q \<noteq> p \<longrightarrow> files w' q = files w q)"
  using assms
  by (auto simp: copy_body_def holds_def text_file_def andThen_def ret_def throw_def file_Write_def
      split: if_splits option.splits)

lemma chmod_other: "q \<noteq> p \<Longrightarrow> files (snd (file_Chmod p m w)) q = files w q"
  by (simp add: file_Chmod_def split: option.split node.split)

lemma chmod_holds: "holds w p data \<Longrightarrow> holds (snd (file_Chmod q m w)) p data"
  by (auto simp: holds_def file_Chmod_def text_file_def split: option.split node.split)

lemma fill_file_ok:
  assumes "fill_file p e w = (Inr u, w')" and "files w p = Some (File [] 0 m)"
  shows "holds w' p (tar_Body e) \<and> (\<forall>q. q \<noteq> p \<longrightarrow> files w' q = files w q)"
proof -
  obtain r w1 where c: "copy_body p e w = (r, w1)" by (cases "copy_body p e w")
  have r: "r = Inr ()"
    using assms(1) c by (cases r) (auto simp: fill_file_def attempt_def throw_def file_Close_def)
  have "w' = called w1 \<or> w' = snd (file_Chmod p 493 (called w1))"
  proof (cases "tar_Mode e AND 73 \<noteq> 0")
    case True
    then have "snd (file_Chmod p 493 (called w1)) = w'"
      using assms(1) unfolding fill_file_def attempt_eq [where m = "copy_body p e", OF c] r
      by (simp only: attempt_def file_Close_def sum.case True not_False_eq_True if_True prod.case_eq_if ret_def
          snd_conv prod.inject simp_thms)
    then show ?thesis by simp
  next
    case False
    then show ?thesis
      using assms(1) unfolding fill_file_def attempt_eq [where m = "copy_body p e", OF c] r
      by (simp only: attempt_def file_Close_def sum.case False if_False prod.case_eq_if ret_def snd_conv
          prod.inject simp_thms)
  qed
  then consider (same) "w' = called w1" | (chmod) "w' = snd (file_Chmod p 493 (called w1))" by blast
  then have "(holds w1 p (tar_Body e) \<longrightarrow> holds w' p (tar_Body e)) \<and> (\<forall>q. q \<noteq> p \<longrightarrow> files w' q = files w1 q)"
  proof cases
    case chmod
    show ?thesis unfolding chmod using chmod_holds [of "called w1" p "tar_Body e" p 493]
      by (simp add: holds_def chmod_other)
  qed (simp add: holds_def)
  then show ?thesis using copy_body_ok [OF c [unfolded r] assms(2)] by simp
qed

lemma extract_file_ok:
  assumes "extract_file p e w = (Inr u, w')"
  shows "holds w' p (tar_Body e) \<and> (\<forall>q n. q \<noteq> p \<longrightarrow> files w q = Some n \<longrightarrow> files w' q = Some n)"
proof -
  obtain u1 w1 u2 w2 where m: "os_MkdirAll (path_dir p) w = (Inr u1, w1)"
    and o: "os_open_trunc p 438 w1 = (Inr u2, w2)" and c: "fill_file p e w2 = (Inr u, w')"
    using assms unfolding extract_file_def by (elim andThen_InrE) (simp only: onErr_Inr)
  obtain k where f2: "files w2 p = Some (File [] 0 k)" and other: "\<forall>q. q \<noteq> p \<longrightarrow> files w2 q = files w1 q"
    using o by (auto simp: os_open_trunc_def split: option.splits node.splits if_splits)
  show ?thesis using fill_file_ok [OF c f2] other MkdirAll_keeps_nodes [OF m] by metis
qed

lemma extract_entries_ok:
  assumes "extract_entries d f es ending w = (Inr u, w')"
  shows "ending = None \<and> (\<forall>p data. unpacked d f es p = Some data \<longrightarrow> holds w' p data) \<and>
    (\<forall>p n. unpacked d f es p = None \<longrightarrow> files w p = Some n \<longrightarrow> files w' p = Some n)"
  using assms
proof (induction es arbitrary: w)
  case Nil
  then show ?case by (cases ending) (auto simp: ret_def throw_def)
next
  case (Cons e es)
  show ?case
  proof (cases "entry_path d f e")
    case None
    then show ?thesis using Cons by (auto split: option.splits)
  next
    case (Some p)
    then obtain u1 w1 where one: "extract_entry p e w = (Inr u1, w1)"
      and rest: "extract_entries d f es ending w1 = (Inr u, w')"
      using Cons.prems by (auto elim!: andThen_InrE)
    have reg: "tar_Typeflag e = TypeReg \<Longrightarrow> holds w1 p (tar_Body e)"
      and keep: "files w q = Some n \<Longrightarrow> tar_Typeflag e = TypeReg \<longrightarrow> q \<noteq> p \<Longrightarrow> files w1 q = Some n" for q n
      using one extract_file_ok [of p e w u1 w1] MkdirAll_keeps_nodes [of p w "Inr u1" w1 q n]
      by (auto simp: extract_entry_def ret_def split: tar_type.splits)
    note IH = Cons.IH [OF rest]
    have "holds w' q data" if "unpacked d f (e # es) q = Some data" for q data
    proof (cases "unpacked d f es q")
      case None
      then have "tar_Typeflag e = TypeReg" "q = p" "data = tar_Body e"
        using that Some by (auto split: if_splits)
      then show ?thesis using reg IH None by (auto simp: holds_def)
    qed (use that IH in auto)
    moreover have "files w' q = Some n" if "unpacked d f (e # es) q = None" and "files w q = Some n" for q n
    proof -
      have "unpacked d f es q = None" "tar_Typeflag e = TypeReg \<longrightarrow> q \<noteq> p"
        using that(1) Some by (auto split: option.splits if_splits)
      with keep [OF that(2)] IH show ?thesis by blast
    qed
    ultimately show ?thesis using IH by blast
  qed
qed

section \<open>Refreshing\<close>

lemma remove_legacy_ok:
  assumes "remove_legacy p w = (Inr u, w')" and "honest_faults w"
  shows "files w' p = None \<and> (\<forall>q. files w q = None \<longrightarrow> files w' q = None)"
  using assms
  by (auto simp: remove_legacy_def attempt_def ret_def throw_def os_Remove_def is_ErrNotExist_def errors_Is_def
      honest_faults_def split: option.splits node.splits if_splits)

lemma same_faults_remove_legacy [keeps_intros]: "keeps same_faults (remove_legacy p)"
  unfolding remove_legacy_def
  by (intro same_faults.keeps_rules keeps_intros) (auto intro!: same_faults.keeps_rules split: sum.split)

lemma honest_faults_kept: "keeps same_faults m \<Longrightarrow> m w = (r, w') \<Longrightarrow> honest_faults w' = honest_faults w"
  using keepsD_eq [of same_faults m w r w'] by (simp add: same_faults_def honest_faults_def)

lemma remove_all_legacy:
  "forEach ps remove_legacy w = (Inr u, w') \<Longrightarrow> honest_faults w \<Longrightarrow>
     (\<forall>p \<in> set ps. files w' p = None) \<and> (\<forall>q. files w q = None \<longrightarrow> files w' q = None)"
proof (induction ps arbitrary: w)
  case (Cons p ps)
  from Cons.prems(1) obtain u1 w1 where one: "remove_legacy p w = (Inr u1, w1)"
    and rest: "forEach ps remove_legacy w1 = (Inr u, w')"
    by (auto elim!: andThen_InrE)
  have "honest_faults w1" using honest_faults_kept [OF same_faults_remove_legacy one] Cons.prems(2) by simp
  from Cons.IH [OF rest this] remove_legacy_ok [OF one Cons.prems(2)] show ?case by simp
qed (simp add: ret_def)

lemma same_faults_extract_entries [keeps_intros]: "keeps same_faults (extract_entries d f es ending)"
proof (induction es)
  case Nil
  show ?case by (cases ending) (auto intro: same_faults.keeps_rules)
next
  case (Cons e es)
  have "keeps same_faults (copy_body p e)" for p
    unfolding copy_body_def
    by (cases "tar_BodyErr e"; cases "tar_Body e = []") (auto intro!: same_faults.keeps_rules keeps_intros)
  then have "keeps same_faults (extract_entry p e)" for p
    unfolding extract_entry_def extract_file_def fill_file_def
    by (cases "tar_Typeflag e") (auto intro!: same_faults.keeps_rules keeps_intros split: sum.split)
  with Cons show ?case by (cases "entry_path d f e") (auto intro!: same_faults.keeps_rules)
qed

lemma same_faults_extractTarXZ [keeps_intros]: "keeps same_faults (extractTarXZ a d f)"
  unfolding extractTarXZ_def
  by (auto intro!: same_faults.keeps_rules keeps_intros split: sum.split prod.split)

lemma legacy_inside: "plain d \<Longrightarrow> p \<in> set (legacyPaths d) \<Longrightarrow> inside d p"
proof -
  assume d: "plain d" and p: "p \<in> set (legacyPaths d)"
  have three: "filepath_Join [d, a, b] = filepath_Join [d, a @ ''/'' @ b]" for a b
    using d by (simp add: filepath_Join_def plain_def)
  show ?thesis
    using p unfolding legacyPaths_def three
    by (auto intro!: inside_Join [OF d] simp: tame_def)
qed

lemma untouched_refreshInitAssets [keeps_intros]:
  assumes "plain d" and "tame_archive a"
  shows "keeps (untouched (tree d)) (refreshInitAssets a d)"
proof -
  have "keeps (untouched (tree d)) (remove_legacy p)" if "p \<in> tree d" for p
    unfolding remove_legacy_def
    by (intro untouched.keeps_rules keeps_intros that)
      (auto intro!: untouched.keeps_rules split: sum.split)
  then have "keeps (untouched (tree d)) (forEach ps remove_legacy)" if "set ps \<subseteq> tree d" for ps
    using that by (induction ps) (auto intro!: untouched.keeps_ret untouched.keeps_andThen)
  then show ?thesis
    unfolding refreshInitAssets_def
    using untouched_extractTarXZ [OF assms(1) _ assms(2), of None] legacy_inside [OF assms(1)]
    by (auto intro!: untouched.keeps_andThen untouched.keeps_onErr simp: launcher_transform_def dest: inside_tree)
qed

section \<open>Claims\<close>

text \<open>C29: Unpacking an archive whose names have no \<open>..\<close> component touches nothing outside the output directory,
  whatever call fails and wherever the archive breaks off, both with and without the launcher's
  stripping of the first component.\<close>

theorem extraction_stays_inside:
  assumes "extractTarXZ data outputDir f w = (r, w')" and "plain outputDir" and "tame_archive data"
    and "f = None \<or> f = Some strip_top"
  shows "\<forall>p. below outputDir p \<or> files w' p = files w p"
proof -
  have "untouched (tree outputDir) w w'"
    using keepsD_eq [OF untouched_extractTarXZ assms(1)] assms(2-4) by (simp add: launcher_transform_def)
  then show ?thesis by (auto simp: untouched_def tree_def)
qed

definition sample_archive :: archive where
  "sample_archive = Inr (
     [\<lparr>tar_Name = ''mac-arm64/'', tar_Typeflag = TypeDir, tar_Mode = 493, tar_Body = [], tar_BodyErr = None\<rparr>,
      \<lparr>tar_Name = ''mac-arm64/disk.img'', tar_Typeflag = TypeReg, tar_Mode = 420, tar_Body = ''efi'', tar_BodyErr = None\<rparr>,
      \<lparr>tar_Name = ''mac-arm64/bin/tool'', tar_Typeflag = TypeReg, tar_Mode = 493, tar_Body = ''elf'', tar_BodyErr = None\<rparr>],
     None)"

definition empty_dir :: world where
  "empty_dir = \<lparr>files = [''vm-ssh-key'' \<mapsto> File ''key'' 3 384], faults = \<lambda>n. None, rands = \<lambda>_ _. 0,
     ephemeral = \<lambda>_. 0, busy = \<lambda>_ _. False, listeners = [], tick = 0, history = []\<rparr>"

lemma sample_archive_tame: "tame_archive sample_archive"
  by code_simp

lemma extraction_stays_inside_witness:
  "files (snd (extractTarXZ sample_archive ''vm'' (Some strip_top) empty_dir)) ''vm-ssh-key'' = Some (File ''key'' 3 384)"
proof -
  have "plain ''vm''" "\<not> below ''vm'' ''vm-ssh-key''" by code_simp+
  then show ?thesis
    using extraction_stays_inside [OF prod.collapse [symmetric] _ sample_archive_tame,
      of "''vm''" "Some strip_top" empty_dir] by (auto simp: empty_dir_def)
qed

text \<open>C30: A successful extraction has read the archive to its end and every path holds exactly the bytes of the
  last regular entry that goes there; no file the archive does not name is replaced or removed.\<close>

theorem extraction_unpacks_all:
  assumes "extractTarXZ (Inr (entries, ending)) outputDir f w = (Inr u, w')"
  shows "ending = None \<and> (\<forall>p. case unpacked outputDir f entries p of
     Some data \<Rightarrow> \<exists>mode. files w' p = Some (text_file data mode)
   | None \<Rightarrow> files w p = None \<or> files w' p = files w p)"
proof -
  have "extract_entries outputDir f entries ending w = (Inr u, w')" using assms by (simp add: extractTarXZ_def)
  note ok = extract_entries_ok [OF this]
  have "files w p = None \<or> files w' p = files w p" if "unpacked outputDir f entries p = None" for p
    using ok that by (cases "files w p") auto
  with ok show ?thesis by (auto simp: holds_def split: option.split)
qed

lemma extraction_unpacks_all_witness:
  "\<exists>mode. files (snd (extractTarXZ sample_archive ''vm'' (Some strip_top) empty_dir)) ''vm/bin/tool'' =
     Some (text_file ''elf'' mode)"
proof -
  obtain es where es: "sample_archive = Inr (es, None)" by (simp add: sample_archive_def)
  have run: "fst (extractTarXZ sample_archive ''vm'' (Some strip_top) empty_dir) = Inr ()" by code_simp
  have out: "unpacked ''vm'' (Some strip_top) (fst (projr sample_archive)) ''vm/bin/tool'' = Some ''elf''" by code_simp
  from run have "extractTarXZ (Inr (es, None)) ''vm'' (Some strip_top) empty_dir =
      (Inr (), snd (extractTarXZ sample_archive ''vm'' (Some strip_top) empty_dir))"
    by (metis es prod.collapse)
  from extraction_unpacks_all [OF this] have "case unpacked ''vm'' (Some strip_top) es ''vm/bin/tool'' of
      Some data \<Rightarrow> \<exists>mode. files (snd (extractTarXZ sample_archive ''vm'' (Some strip_top) empty_dir)) ''vm/bin/tool'' =
        Some (text_file data mode)
    | None \<Rightarrow> files empty_dir ''vm/bin/tool'' = None \<or>
        files (snd (extractTarXZ sample_archive ''vm'' (Some strip_top) empty_dir)) ''vm/bin/tool'' =
        files empty_dir ''vm/bin/tool''" by blast
  then show ?thesis using out by (simp add: es)
qed

text \<open>After a successful refresh none of the legacy database assets is left in the shared directory, even
  when the archive brought one along, and nothing outside the shared directory changed.\<close>

theorem refresh_removes_legacy:
  assumes "refreshInitAssets initAssets sharedDir w = (r, w')" and "plain sharedDir"
    and "tame_archive initAssets" and "honest_faults w"
  shows "(isl r \<or> list_all (\<lambda>p. files w' p = None) (legacyPaths sharedDir)) \<and>
    (\<forall>p. below sharedDir p \<or> files w' p = files w p)"
proof
  show "\<forall>p. below sharedDir p \<or> files w' p = files w p"
    using keepsD_eq [OF untouched_refreshInitAssets [OF assms(2,3)] assms(1)] by (auto simp: untouched_def tree_def)
  show "isl r \<or> list_all (\<lambda>p. files w' p = None) (legacyPaths sharedDir)"
  proof (cases r)
    case (Inr u)
    then obtain u1 w1 where ex: "extractTarXZ initAssets sharedDir None w = (Inr u1, w1)"
      and rm: "forEach (legacyPaths sharedDir) remove_legacy w1 = (Inr u, w')"
      using assms(1) [unfolded refreshInitAssets_def Inr] by (elim andThen_InrE) (simp only: onErr_Inr)
    have "honest_faults w1" using honest_faults_kept [OF same_faults_extractTarXZ ex] assms(4) by simp
    from remove_all_legacy [OF rm this] show ?thesis by (simp add: list_all_iff)
  qed simp
qed

definition old_shared :: world where
  "old_shared = empty_dir\<lparr>files := [''vm-shared'' \<mapsto> Dir, ''vm-shared/slc.json'' \<mapsto> File ''{}'' 2 420]\<rparr>"

lemma refresh_removes_legacy_witness:
  "files (snd (refreshInitAssets sample_archive ''vm-shared'' old_shared)) ''vm-shared/slc.json'' = None"
proof -
  have "\<not> isl (fst (refreshInitAssets sample_archive ''vm-shared'' old_shared))" by code_simp
  moreover have "plain ''vm-shared''" by code_simp
  moreover have "honest_faults old_shared" by (simp add: honest_faults_def old_shared_def empty_dir_def)
  moreover have "''vm-shared/slc.json'' \<in> set (legacyPaths ''vm-shared'')" by code_simp
  ultimately show ?thesis
    using refresh_removes_legacy [OF prod.collapse [symmetric] _ sample_archive_tame]
    by (auto simp: list_all_iff)
qed

end
