(* ===== verification/Init.thy ===== *)
theory Init
  imports Archive
begin

text \<open>
  \<open>launcher init\<close> (\<open>launcher/mac/main.go\<close>): the SSH key of the user or a new key pair, the two
  archives, the guest's \<open>authorized_keys\<close> and \<open>vm-config.json\<close>. The key formats are the work of the
  \<open>ssh\<close>, \<open>ed25519\<close> and \<open>pem\<close> packages and an argument of the model. A path the user gives may be absolute
  or relative; \<open>local_name\<close> finds the file of the model it names.
\<close>

section \<open>The surroundings\<close>

text \<open>The home directory as \<open>os.UserHomeDir\<close> reports it, the working directory, and whether \<open>os.Getwd\<close>
  fails.\<close>

record host =
  host_home :: "path result"
  host_wd :: path
  host_wdErr :: "go_error option"

definition os_Getwd :: "host \<Rightarrow> path result" where
  "os_Getwd h = (case host_wdErr h of Some e \<Rightarrow> Inl e | None \<Rightarrow> Inr (host_wd h))"

text \<open>The key operations: a new key pair, the private key as a PEM block and as bytes, the public key in
  SSH form, the public key of a private key file, and the line for \<open>authorized_keys\<close>.\<close>

record ('pub, 'priv, 'block, 'ssh) crypto =
  GenerateKey :: "('pub \<times> 'priv) result"
  MarshalPrivateKey :: "'priv \<Rightarrow> 'block result"
  EncodeToMemory :: "'block \<Rightarrow> string"
  NewPublicKey :: "'pub \<Rightarrow> 'ssh result"
  ParsePrivateKey :: "string \<Rightarrow> 'ssh result"
  MarshalAuthorizedKey :: "'ssh \<Rightarrow> string"

definition local_name :: "path \<Rightarrow> path \<Rightarrow> path" where
  "local_name wd p =
     (let a = (if is_rooted p then filepath_Clean p else filepath_Join [wd, p]);
          pre = (if wd = ''/'' then ''/'' else wd @ ''/'') in
      if a = wd then ''.'' else if has_prefix pre a then drop (length pre) a else a)"

text \<open>A call on a path of the user; its errors name the path as given.\<close>

fun error_at :: "path \<Rightarrow> go_error \<Rightarrow> go_error" where
  "error_at p (PathError call q n) = PathError call p n"
| "error_at p e = e"

definition at_path :: "path \<Rightarrow> path \<Rightarrow> (path \<Rightarrow> ('z, 'a) os) \<Rightarrow> ('z, 'a) os" where
  "at_path wd p call = onErr (error_at p) (call (local_name wd p))"

definition stat_path :: "path \<Rightarrow> path \<Rightarrow> ('z, node) os" where
  "stat_path wd p =
     (if local_name wd p = ''.'' \<or> local_name wd p = ''/''
      then (\<lambda>w. (case faults w (tick w) of
        Some (e, _) \<Rightarrow> Inl (PathError ''stat'' p e) | None \<Rightarrow> Inr Dir, called w))
      else at_path wd p os_Stat)"

section \<open>Keys\<close>

definition expandHome :: "path result \<Rightarrow> path \<Rightarrow> path result" where
  "expandHome home path =
     (if path = ''~'' then
        (case home of Inl err \<Rightarrow> Inl (Wrapped ''failed to resolve home directory: '' err)
         | Inr homeDir \<Rightarrow> Inr homeDir)
      else if has_prefix ''~/'' path then
        (case home of Inl err \<Rightarrow> Inl (Wrapped ''failed to resolve home directory: '' err)
         | Inr homeDir \<Rightarrow> Inr (filepath_Join [homeDir, drop 2 path]))
      else Inr path)"

definition normalizeSSHPrivateKeyPath :: "host \<Rightarrow> path \<Rightarrow> ('z, path) os" where
  "normalizeSSHPrivateKeyPath h path =
     (if trim_space path = [] then throw (ErrorString ''SSH private key path must not be empty'')
      else andThen (lift (expandHome (host_home h) path)) (\<lambda>expandedPath.
        andThen (onErr (Wrapped (''failed to stat SSH private key '' @ expandedPath @ '': ''))
            (stat_path (host_wd h) expandedPath)) (\<lambda>info.
          if info = Dir
          then throw (ErrorString (''SSH private key path is a directory: '' @ expandedPath))
          else onErr (Wrapped (''failed to resolve SSH private key path '' @ expandedPath @ '': ''))
            (lift (filepath_Abs (os_Getwd h) expandedPath)))))"

definition authorizedKeyFromPrivateKey ::
    "('pub, 'priv, 'block, 'ssh) crypto \<Rightarrow> host \<Rightarrow> path \<Rightarrow> ('z, string) os" where
  "authorizedKeyFromPrivateKey c h privateKeyPath =
     andThen (onErr (Wrapped (''failed to read SSH private key '' @ privateKeyPath @ '': ''))
         (at_path (host_wd h) privateKeyPath os_ReadFile)) (\<lambda>privateKeyData.
     andThen (onErr (Wrapped (''failed to parse SSH private key '' @ privateKeyPath @
           ''; only unprotected private keys are supported: ''))
         (lift (ParsePrivateKey c privateKeyData))) (\<lambda>publicKey.
       ret (MarshalAuthorizedKey c publicKey)))"

definition generateSSHKeyPair ::
    "('pub, 'priv, 'block, 'ssh) crypto \<Rightarrow> path \<Rightarrow> path \<Rightarrow> ('z, unit) os" where
  "generateSSHKeyPair c privateKeyPath publicKeyPath =
     andThen (onErr (Wrapped ''failed to generate ED25519 key: '') (lift (GenerateKey c))) (\<lambda>(pubKey, privKey).
     andThen (onErr (Wrapped ''failed to marshal private key: '') (lift (MarshalPrivateKey c privKey)))
       (\<lambda>privKeyPEM.
     andThen (onErr (Wrapped ''failed to write private key: '')
         (os_WriteFile privateKeyPath (EncodeToMemory c privKeyPEM) 384)) (\<lambda>_.
     andThen (onErr (Wrapped ''failed to convert public key to SSH format: '') (lift (NewPublicKey c pubKey)))
       (\<lambda>sshPubKey.
       onErr (Wrapped ''failed to write public key: '')
         (os_WriteFile publicKeyPath (MarshalAuthorizedKey c sshPubKey) 420)))))"

section \<open>\<open>initCmd\<close>\<close>

definition authorizedKeysName :: string where
  "authorizedKeysName = ''authorized_keys''"

definition publicKeyPath :: path where
  "publicKeyPath = filepath_Join [sharedDirName, authorizedKeysName]"

text \<open>The key of the user, read before anything is written: its path and its public key.\<close>

definition given_key :: "('pub, 'priv, 'block, 'ssh) crypto \<Rightarrow> host \<Rightarrow> path \<Rightarrow> ('z, path \<times> string) os" where
  "given_key c h sshKeyPath =
     (if sshKeyPath = [] then ret (defaultSSHPrivateKeyPath, [])
      else andThen (normalizeSSHPrivateKeyPath h sshKeyPath) (\<lambda>privateKeyPath.
        andThen (authorizedKeyFromPrivateKey c h privateKeyPath) (\<lambda>authorizedKey.
          ret (privateKeyPath, authorizedKey))))"

text \<open>The files of the guest.\<close>

definition unpack_vm :: "archive \<Rightarrow> archive \<Rightarrow> ('z, unit) os" where
  "unpack_vm vmPackage initAssets =
     andThen (onErr (Wrapped ''failed to create vm directory: '') (os_MkdirAll ''vm'')) (\<lambda>_.
     andThen (onErr (Wrapped ''failed to extract VM package: '')
         (extractTarXZ vmPackage ''vm'' (Some strip_top))) (\<lambda>_.
     andThen (onErr (Wrapped ''failed to create shared directory: '') (os_MkdirAll sharedDirName)) (\<lambda>_.
       onErr (Wrapped ''failed to extract init assets: '') (extractTarXZ initAssets sharedDirName None))))"

definition install_key ::
    "('pub, 'priv, 'block, 'ssh) crypto \<Rightarrow> path \<Rightarrow> path \<Rightarrow> string \<Rightarrow> ('z, unit) os" where
  "install_key c sshKeyPath privateKeyPath authorizedKey =
     (if sshKeyPath = []
      then onErr (Wrapped ''failed to generate SSH key pair: '')
        (generateSSHKeyPair c privateKeyPath publicKeyPath)
      else onErr (Wrapped ''failed to write public key: '')
        (os_WriteFile publicKeyPath authorizedKey 420))"

definition initCmd ::
    "('pub, 'priv, 'block, 'ssh) crypto \<Rightarrow> host \<Rightarrow> archive \<Rightarrow> archive \<Rightarrow> path \<Rightarrow> ('z, unit) os" where
  "initCmd c h vmPackage initAssets sshKeyPath =
     andThen (given_key c h sshKeyPath) (\<lambda>(privateKeyPath, authorizedKey).
     andThen (unpack_vm vmPackage initAssets) (\<lambda>_.
     andThen (install_key c sshKeyPath privateKeyPath authorizedKey) (\<lambda>_.
       writeRuntimeConfig \<lparr>config_SSHPrivateKey = privateKeyPath\<rparr>)))"

section \<open>What each part does\<close>

lemma untouched_stat_path [keeps_intros]: "keeps (untouched A) (stat_path wd p)"
  unfolding stat_path_def at_path_def
  by (auto intro!: keeps_called untouched.keeps_onErr keeps_intros)

lemma untouched_given_key [keeps_intros]: "keeps (untouched A) (given_key c h p)"
  unfolding given_key_def normalizeSSHPrivateKeyPath_def authorizedKeyFromPrivateKey_def at_path_def
  by (auto intro!: untouched.keeps_rules keeps_intros)

lemma Clean_nonempty: "filepath_Clean p \<noteq> []"
  by (simp add: filepath_Clean_def Let_def)

lemma Abs_nonempty: "filepath_Abs getwd p = Inr q \<Longrightarrow> (\<And>wd. getwd = Inr wd \<Longrightarrow> wd \<noteq> []) \<Longrightarrow> q \<noteq> []"
  by (auto simp: filepath_Abs_def filepath_Join_def Clean_nonempty split: if_splits sum.splits)

text \<open>The key of the user was read as a private key.\<close>

definition key_file :: "('pub, 'priv, 'block, 'ssh) crypto \<Rightarrow> 'z world_scheme \<Rightarrow> path \<Rightarrow> string \<Rightarrow> bool" where
  "key_file c w p line \<longleftrightarrow> (\<exists>data sz mode key. files w p = Some (File data sz mode) \<and>
     ParsePrivateKey c (file_content data sz) = Inr key \<and> line = MarshalAuthorizedKey c key)"

lemma key_file_cong: "files w p = files w' p \<Longrightarrow> key_file c w p line = key_file c w' p line"
  by (simp add: key_file_def)

lemma normalize_nonempty:
  assumes "normalizeSSHPrivateKeyPath h p w = (Inr key, w')" and "host_wd h \<noteq> []"
  shows "key \<noteq> []"
proof -
  obtain e where "filepath_Abs (os_Getwd h) e = Inr key"
    using assms(1) unfolding normalizeSSHPrivateKeyPath_def
    by (auto elim!: andThen_InrE simp: throw_def lift_def split: if_splits)
  then show ?thesis
    by (rule Abs_nonempty) (use assms(2) in \<open>auto simp: os_Getwd_def split: option.splits\<close>)
qed

lemma authorizedKey_ok:
  assumes "authorizedKeyFromPrivateKey c h p w = (Inr line, w')"
  shows "key_file c w (local_name (host_wd h) p) line"
  using assms unfolding authorizedKeyFromPrivateKey_def at_path_def key_file_def
  by (auto elim!: andThen_InrE simp: ret_def lift_def os_ReadFile_def split: option.splits node.splits)

lemma given_key_ok:
  assumes "given_key c h p w = (Inr (key, line), w')" and "host_wd h \<noteq> []"
  shows "if p = [] then key = defaultSSHPrivateKeyPath
    else key \<noteq> [] \<and> key_file c w (local_name (host_wd h) key) line"
proof (cases "p = []")
  case False
  then obtain w1 w2 where n: "normalizeSSHPrivateKeyPath h p w = (Inr key, w1)"
    and a: "authorizedKeyFromPrivateKey c h key w1 = (Inr line, w2)"
    using assms(1) unfolding given_key_def by (auto elim!: andThen_InrE simp: ret_def)
  have k: "keeps (untouched {}) (normalizeSSHPrivateKeyPath h p)"
    unfolding normalizeSSHPrivateKeyPath_def by (auto intro!: untouched.keeps_rules keeps_intros)
  then have "files w1 = files w" using keepsD_eq [OF k n] by (auto simp: untouched_def)
  then show ?thesis
    using False normalize_nonempty [OF n assms(2)] authorizedKey_ok [OF a] by (simp add: key_file_def)
qed (use assms(1) in \<open>simp add: given_key_def ret_def\<close>)

lemma publicKeyPath_eq: "publicKeyPath = ''vm-shared/authorized_keys''"
  by code_simp

definition init_trees :: "path set" where
  "init_trees = tree ''vm'' \<union> tree ''vm-shared''"

lemma untouched_unpack_vm:
  assumes "tame_archive vmPackage" and "tame_archive initAssets"
  shows "keeps (untouched init_trees) (unpack_vm vmPackage initAssets)"
proof -
  have d: "plain ''vm''" "plain sharedDirName" "sharedDirName = ''vm-shared''" by code_simp+
  have m: "set (dir_prefixes ''vm'') \<subseteq> init_trees" "set (dir_prefixes ''vm-shared'') \<subseteq> init_trees"
    by (simp_all add: dir_prefixes_def path_parts_def is_rooted_def has_prefix_def init_trees_def tree_def below_def)
  have up: "keeps (untouched (tree d)) m' \<Longrightarrow> tree d \<subseteq> init_trees \<Longrightarrow> keeps (untouched init_trees) m'" for d m'
    by (auto simp: keeps_def intro: untouched_mono)
  have "keeps (untouched init_trees) (extractTarXZ vmPackage ''vm'' (Some strip_top))"
    "keeps (untouched init_trees) (extractTarXZ initAssets sharedDirName None)"
    by (rule up [OF untouched_extractTarXZ [OF d(1) _ assms(1)]],
        simp add: launcher_transform_def, simp add: init_trees_def,
        rule up [OF untouched_extractTarXZ [OF d(2) _ assms(2)]],
        simp add: launcher_transform_def, simp add: init_trees_def d(3))
  then show ?thesis
    unfolding unpack_vm_def using m by (auto intro!: untouched.keeps_andThen untouched.keeps_onErr keeps_intros simp: d(3))
qed

lemma os_WriteFile_holds:
  assumes "os_WriteFile p data mode w = (Inr u, w')"
  shows "holds w' p data \<and> (\<forall>q. q \<noteq> p \<longrightarrow> files w' q = files w q)"
  using os_WriteFile_ok [OF assms] keepsD_eq [OF untouched_WriteFile [of p "{p}"] assms]
  by (auto simp: holds_def untouched_def)

lemma generate_ok:
  assumes "generateSSHKeyPair c priv pub w = (Inr u, w')" and "priv \<noteq> pub"
  shows "\<exists>pubKey privKey block key. GenerateKey c = Inr (pubKey, privKey) \<and>
    MarshalPrivateKey c privKey = Inr block \<and> NewPublicKey c pubKey = Inr key \<and>
    holds w' priv (EncodeToMemory c block) \<and> holds w' pub (MarshalAuthorizedKey c key)"
proof -
  obtain pubKey privKey block key w1 u1 where k: "GenerateKey c = Inr (pubKey, privKey)"
    "MarshalPrivateKey c privKey = Inr block" "NewPublicKey c pubKey = Inr key"
    and one: "os_WriteFile priv (EncodeToMemory c block) 384 w = (Inr u1, w1)"
    and two: "os_WriteFile pub (MarshalAuthorizedKey c key) 420 w1 = (Inr u, w')"
    using assms(1) unfolding generateSSHKeyPair_def
    by (auto elim!: andThen_InrE simp: lift_def)
  show ?thesis
    using k os_WriteFile_holds [OF one] os_WriteFile_holds [OF two] assms(2) by (auto simp: holds_def)
qed

text \<open>The contract of the key packages: a marshalled private key parses back to its public key.\<close>

definition keys_match :: "('pub, 'priv, 'block, 'ssh) crypto \<Rightarrow> bool" where
  "keys_match c \<longleftrightarrow> (\<forall>pub priv block key. GenerateKey c = Inr (pub, priv) \<longrightarrow> MarshalPrivateKey c priv = Inr block \<longrightarrow>
     NewPublicKey c pub = Inr key \<longrightarrow> ParsePrivateKey c (EncodeToMemory c block) = Inr key)"

lemma init_parts:
  assumes "initCmd c h vmPackage initAssets p w = (Inr u, w')"
  obtains key line w1 w2 w3 where "given_key c h p w = (Inr (key, line), w1)"
    and "unpack_vm vmPackage initAssets w1 = (Inr (), w2)" and "install_key c p key line w2 = (Inr (), w3)"
    and "os_WriteFile runtimeConfigPath (json_indent (encode_RuntimeConfig \<lparr>config_SSHPrivateKey = key\<rparr>)) 420 w3
      = (Inr (), w')"
  using assms unfolding initCmd_def writeRuntimeConfig_def
  by (elim andThen_InrE) (auto elim!: andThen_InrE)

lemma install_key_ok:
  assumes "install_key c p key line w = (Inr u, w')" and "keys_match c" and "p = [] \<Longrightarrow> key = ''vm-ssh-key''"
  shows "\<exists>line'. holds w' publicKeyPath line' \<and>
      (if p = [] then key_file c w' key line' else line' = line) \<and>
      (\<forall>q. q \<noteq> ''vm-ssh-key'' \<longrightarrow> q \<noteq> publicKeyPath \<longrightarrow> files w' q = files w q)"
proof (cases "p = []")
  case True
  then have g: "generateSSHKeyPair c ''vm-ssh-key'' publicKeyPath w = (Inr u, w')"
    using assms(1,3) by (simp add: install_key_def)
  have "keeps (untouched {''vm-ssh-key'', publicKeyPath}) (generateSSHKeyPair c ''vm-ssh-key'' publicKeyPath)"
    unfolding generateSSHKeyPair_def by (auto intro!: untouched.keeps_rules keeps_intros split: prod.split)
  from keepsD_eq [OF this g] have frame: "\<forall>q. q \<noteq> ''vm-ssh-key'' \<longrightarrow> q \<noteq> publicKeyPath \<longrightarrow> files w' q = files w q"
    by (auto simp: untouched_def)
  have "''vm-ssh-key'' \<noteq> publicKeyPath" by (simp add: publicKeyPath_eq)
  from generate_ok [OF g this] frame show ?thesis
    using True assms(2,3) unfolding keys_match_def
    by (auto simp: key_file_def holds_def text_file_def)
next
  case False
  then have "os_WriteFile publicKeyPath line 420 w = (Inr u, w')" using assms(1) by (simp add: install_key_def)
  from os_WriteFile_holds [OF this] False show ?thesis by auto
qed

text \<open>The configuration \<open>init\<close> writes last is the one that later commands load.\<close>

lemma written_config_loads:
  assumes "os_WriteFile runtimeConfigPath (json_indent (encode_RuntimeConfig config)) mode w = (Inr u, w')"
    and "config_SSHPrivateKey config \<noteq> []" and "files v = files w'" and "faults v (tick v) = None"
  shows "fst (loadRuntimeConfig v) = Inr config"
proof -
  obtain m where "files w' runtimeConfigPath = Some (text_file (json_indent (encode_RuntimeConfig config)) m)"
    using os_WriteFile_holds [OF assms(1)] by (auto simp: holds_def)
  then have "files v runtimeConfigPath = Some (text_file (json_indent (encode_RuntimeConfig config)) m)"
    using assms(3) by simp
  from loadRuntimeConfig_text [OF this assms(4,2)] show ?thesis by simp
qed

section \<open>Claims\<close>

text \<open>C27: After a successful \<open>init\<close> the guest trusts the key that \<open>run\<close> uses: \<open>vm-config.json\<close> names a private key,
  later commands read that name back, and \<open>authorized_keys\<close> in the shared directory is the public key of
  that key's file, generated or given by the user; a given key file is left as it was unless it lies in
  one of the unpacked trees or has the name of a file \<open>init\<close> writes.\<close>

theorem init_guest_trusts_key:
  assumes "initCmd c h vmPackage initAssets sshKeyPath w = (Inr u, w')" and "keys_match c" and "host_wd h \<noteq> []"
    and "tame_archive vmPackage" and "tame_archive initAssets"
  shows "\<exists>key line. (\<forall>v. files v = files w' \<longrightarrow> faults v (tick v) = None \<longrightarrow>
       fst (loadRuntimeConfig v) = Inr \<lparr>config_SSHPrivateKey = key\<rparr>) \<and>
     (\<exists>mode. files w' ''vm-shared/authorized_keys'' = Some (text_file line mode)) \<and>
     (if sshKeyPath = [] then key = ''vm-ssh-key'' \<and> key_file c w' key line
      else key_file c w (local_name (host_wd h) key) line) \<and>
     (\<forall>q. below ''vm'' q \<or> below ''vm-shared'' q \<or> q = ''vm-config.json'' \<or> q = ''vm-ssh-key'' \<or>
       files w' q = files w q)"
proof -
  from assms(1) obtain key line w1 w2 w3 where given: "given_key c h sshKeyPath w = (Inr (key, line), w1)"
    and unpack: "unpack_vm vmPackage initAssets w1 = (Inr (), w2)"
    and install: "install_key c sshKeyPath key line w2 = (Inr (), w3)"
    and config: "os_WriteFile runtimeConfigPath (json_indent (encode_RuntimeConfig \<lparr>config_SSHPrivateKey = key\<rparr>))
      420 w3 = (Inr (), w')"
    by (rule init_parts)
  note key = given_key_ok [OF given assms(3)]
  have w1: "files w1 = files w"
    using keepsD_eq [OF untouched_given_key [of "{}"] given] by (auto simp: untouched_def)
  have w2: "files w2 q = files w1 q" if "\<not> below ''vm'' q" "\<not> below ''vm-shared'' q" for q
    using keepsD_eq [OF untouched_unpack_vm [OF assms(4,5)] unpack] that
    by (auto simp: untouched_def init_trees_def tree_def)
  note w' = os_WriteFile_holds [OF config]
  have paths: "runtimeConfigPath = ''vm-config.json''" "defaultSSHPrivateKeyPath = ''vm-ssh-key''"
    "below ''vm-shared'' ''vm-shared/authorized_keys''"
    by code_simp+
  have nonempty: "key \<noteq> []" using key paths by (auto split: if_splits)
  have load: "fst (loadRuntimeConfig v) = Inr \<lparr>config_SSHPrivateKey = key\<rparr>"
    if "files v = files w'" "faults v (tick v) = None" for v :: "'z world_scheme"
    using written_config_loads [OF config _ that] nonempty by simp
  from install_key_ok [OF install assms(2)] key paths(2)
  obtain line' where l: "holds w3 publicKeyPath line'"
    "if sshKeyPath = [] then key_file c w3 key line' else line' = line"
    and w3: "\<And>q. q \<noteq> ''vm-ssh-key'' \<Longrightarrow> q \<noteq> publicKeyPath \<Longrightarrow> files w3 q = files w2 q" by auto
  have frame: "files w' q = files w3 q" if "q \<noteq> ''vm-config.json''" for q using w' that paths(1) by simp
  have "holds w' publicKeyPath line'" using l(1) frame [of publicKeyPath] by (simp add: holds_def publicKeyPath_eq)
  moreover have "key = ''vm-ssh-key'' \<and> key_file c w' key line'" if "sshKeyPath = []"
  proof -
    have k: "key = ''vm-ssh-key''" using key that paths(2) by simp
    then show ?thesis using l(2) that by (simp add: key_file_cong [OF frame])
  qed
  moreover have "sshKeyPath \<noteq> [] \<longrightarrow> key_file c w (local_name (host_wd h) key) line'"
    using l(2) key by simp
  moreover have "below ''vm'' q \<or> below ''vm-shared'' q \<or> q = ''vm-config.json'' \<or> q = ''vm-ssh-key'' \<or>
      files w' q = files w q" for q
    using w1 w2 [of q] w3 [of q] frame [of q] paths(3) by (metis publicKeyPath_eq)
  ultimately show ?thesis using load unfolding holds_def publicKeyPath_eq
    by (intro exI [of _ key] exI [of _ line']) auto
qed

text \<open>A toy key scheme, where the public key is the length of the private one.\<close>

definition toy_keys :: "(nat, string, string, nat) crypto" where
  "toy_keys = \<lparr>GenerateKey = Inr (6, ''secret''), MarshalPrivateKey = Inr, EncodeToMemory = (\<lambda>b. ''PEM '' @ b),
     NewPublicKey = Inr, ParsePrivateKey = (\<lambda>s. if has_prefix ''PEM '' s then Inr (length s - 4)
       else Inl (ErrorString ''ssh: no key found'')),
     MarshalAuthorizedKey = (\<lambda>k. ''toy '' @ nat_text k)\<rparr>"

definition workdir :: host where
  "workdir = \<lparr>host_home = Inr ''/Users/me'', host_wd = ''/work'', host_wdErr = None\<rparr>"

lemma toy_keys_match: "keys_match toy_keys"
  by (simp add: keys_match_def toy_keys_def has_prefix_def)

lemma init_guest_trusts_key_witness:
  "\<exists>w' line. initCmd toy_keys workdir sample_archive sample_archive [] (empty_dir\<lparr>files := Map.empty\<rparr>) = (Inr (), w') \<and>
     (\<exists>mode. files w' ''vm-shared/authorized_keys'' = Some (text_file line mode)) \<and>
     key_file toy_keys w' ''vm-ssh-key'' line"
proof -
  let ?w = "empty_dir\<lparr>files := Map.empty\<rparr>"
  have "fst (initCmd toy_keys workdir sample_archive sample_archive [] ?w) = Inr ()" by code_simp
  then have run: "initCmd toy_keys workdir sample_archive sample_archive [] ?w =
      (Inr (), snd (initCmd toy_keys workdir sample_archive sample_archive [] ?w))"
    by (metis prod.collapse)
  have "host_wd workdir \<noteq> []" by (simp add: workdir_def)
  from init_guest_trusts_key [OF run toy_keys_match this sample_archive_tame sample_archive_tame] run
  show ?thesis by auto
qed



end
