(* ===== verification/Polling.thy ===== *)
theory Polling
  imports Runtime_Files Health
begin

text \<open>
  The loops that wait for the guest (\<open>launcher/mac/main.go\<close>): \<open>pollUntil\<close>, \<open>waitForInitOutput\<close>,
  \<open>waitForSSHService\<close>. Time is an integer number of nanoseconds that each call and each sleep moves
  forward; what the outside world shows at a time is an argument, as is the duration of a call. A loop
  that never returns is \<open>None\<close>, so that returning by the deadline is something to prove.
\<close>

type_synonym time = int

definition second :: time where "second = 1000000000"
definition millisecond :: time where "millisecond = 1000000"

definition shorterDuration :: "time \<Rightarrow> time \<Rightarrow> time" where
  "shorterDuration a b = (if a < b then a else b)"

text \<open>\<open>sleepUntil\<close>: the time when it returns.\<close>

definition sleepUntil :: "time \<Rightarrow> time \<Rightarrow> time \<Rightarrow> time" where
  "sleepUntil deadline duration now =
     (if deadline - now \<le> 0 then now else now + shorterDuration duration (deadline - now))"

section \<open>\<open>pollUntil\<close>\<close>

text \<open>\<open>check t s\<close> is what the closure answers when it runs at \<open>t\<close>, with \<open>s\<close> the variables it captures,
  and what it leaves in them; \<open>cost t\<close> is how long it takes. The result is the answer, the variables and
  the time it is given.\<close>

partial_function (option) pollUntil ::
    "(time \<Rightarrow> 's \<Rightarrow> bool \<times> 's) \<Rightarrow> (time \<Rightarrow> time) \<Rightarrow> time \<Rightarrow> time \<Rightarrow> time \<Rightarrow> 's \<Rightarrow> (bool \<times> 's \<times> time) option" where
  "pollUntil check cost deadline interval now s =
     (if now < deadline then
        if fst (check now s) then Some (True, snd (check now s), now + cost now)
        else pollUntil check cost deadline interval (now + cost now + interval) (snd (check now s))
      else Some (False, s, now))"

text \<open>It returns: with an answer found before the deadline, or after the deadline. \<open>d\<close> bounds the time of
  one check.\<close>

lemma pollUntil_result:
  assumes "0 < interval" and "\<And>t. 0 \<le> cost t \<and> cost t \<le> d"
  shows "\<exists>r s' t. pollUntil check cost deadline interval now s = Some (r, s', t) \<and> now \<le> t \<and>
    t \<le> max now (deadline + d + interval) \<and>
    (if r then \<exists>u su. now \<le> u \<and> u < deadline \<and> u \<le> t \<and> check u su = (True, s') else deadline \<le> t)"
proof (induction "nat (deadline - now)" arbitrary: now s rule: less_induct)
  case less
  show ?case
  proof (cases "now < deadline \<and> \<not> fst (check now s)")
    case True
    let ?next = "now + cost now + interval" and ?s = "snd (check now s)"
    have later: "now \<le> ?next" "?next \<le> deadline + d + interval"
      using True assms(1) assms(2) [of now] by linarith+
    have "nat (deadline - ?next) < nat (deadline - now)" using True assms(1) assms(2) [of now] by linarith
    from less [OF this, of ?s] obtain r s' t where
      rest: "pollUntil check cost deadline interval ?next ?s = Some (r, s', t)" "?next \<le> t"
      "t \<le> max ?next (deadline + d + interval)"
      "if r then \<exists>u su. ?next \<le> u \<and> u < deadline \<and> u \<le> t \<and> check u su = (True, s') else deadline \<le> t" by blast
    have "if r then \<exists>u su. now \<le> u \<and> u < deadline \<and> u \<le> t \<and> check u su = (True, s') else deadline \<le> t"
      using rest(4) order_trans [OF later(1)] by (cases r) (simp_all del: add_le_same_cancel1, blast+)
    moreover have "t \<le> max now (deadline + d + interval)" using rest(3) later by simp
    moreover have "pollUntil check cost deadline interval now s = pollUntil check cost deadline interval ?next ?s"
      using True by (subst pollUntil.simps) simp
    ultimately show ?thesis using rest(1,2) later(1) by (metis order_trans)
  next
    case stop: False
    show ?thesis
    proof (cases "now < deadline")
      case True
      then have "check now s = (True, snd (check now s))" using stop by (metis prod.collapse)
      moreover have "pollUntil check cost deadline interval now s = Some (True, snd (check now s), now + cost now)"
        using True stop by (subst pollUntil.simps) simp
      moreover have "now \<le> now + cost now" "now + cost now \<le> deadline + d + interval"
        using True assms(1) assms(2) [of now] by linarith+
      ultimately show ?thesis using True by (intro exI conjI) (auto simp: le_max_iff_disj)
    next
      case False
      then show ?thesis by (subst pollUntil.simps) auto
    qed
  qed
qed

text \<open>A check that holds from some time on is seen, when the deadline leaves room for one more round.\<close>

lemma pollUntil_sees:
  assumes "0 < interval" and "\<And>t. 0 \<le> cost t \<and> cost t \<le> c" and "\<And>t s. T \<le> t \<Longrightarrow> fst (check t s)"
    and "T + c + interval \<le> deadline" and "now < T + c + interval"
  shows "\<exists>s' t. pollUntil check cost deadline interval now s = Some (True, s', t) \<and> t < T + 2 * c + interval"
  using assms(5)
proof (induction "nat (deadline - now)" arbitrary: now s rule: less_induct)
  case less
  show ?case
  proof (cases "fst (check now s)")
    case True
    then show ?thesis using less(2) assms(4) assms(2) [of now] by (subst pollUntil.simps) simp
  next
    case False
    then have n: "now < T" using assms(3) [of now s] by force
    let ?next = "now + cost now + interval"
    have "nat (deadline - ?next) < nat (deadline - now)"
      using n assms(1,4) assms(2) [of now] by linarith
    moreover have "?next < T + c + interval" using n assms(2) [of now] by linarith
    ultimately obtain s' t where
      "pollUntil check cost deadline interval ?next (snd (check now s)) = Some (True, s', t)"
      "t < T + 2 * c + interval" using less(1) by blast
    then show ?thesis using False less(2) assms(4) by (subst pollUntil.simps) simp
  qed
qed

section \<open>\<open>waitForInitOutput\<close>\<close>

definition startMarker :: string where
  "startMarker = ''=== INIT OUTPUT START ===''"

definition endMarker :: string where
  "endMarker = ''=== INIT OUTPUT END ===''"

text \<open>The text between the markers; slicing with a lower bound beyond the upper one panics.\<close>

datatype init_scan = Not_yet | Slice_panic | Payload string

definition scan_console :: "string \<Rightarrow> init_scan" where
  "scan_console content = (case index_of startMarker content of
     None \<Rightarrow> Not_yet
   | Some startIdx \<Rightarrow> (case index_of endMarker (drop startIdx content) of
       None \<Rightarrow> Not_yet
     | Some endIdx \<Rightarrow>
         let jsonStart = startIdx + length startMarker; jsonEnd = startIdx + endIdx in
         if jsonEnd < jsonStart then Slice_panic
         else Payload (trim_space (take (jsonEnd - jsonStart) (drop jsonStart content)))))"

definition parse_init_output :: "string \<Rightarrow> InitOutput result" where
  "parse_init_output jsonStr =
     (case unmarshal (decode_struct InitOutput_fields) \<lparr>init_IP = []\<rparr> jsonStr of
        Inl err \<Rightarrow> Inl (Wrapped ''failed to parse init output JSON: '' err)
      | Inr out \<Rightarrow>
          if init_IP out = [] then Inl (ErrorString ''init output missing IP address'')
          else if ParseIP (init_IP out) = None
          then Inl (ErrorString (''invalid IP address in init output: '' @ init_IP out))
          else Inr out)"

text \<open>\<open>%v\<close> of a duration of whole seconds.\<close>

definition duration_text :: "time \<Rightarrow> string" where
  "duration_text d = (let s = d div second in
     if s < 60 then itoa s @ ''s''
     else if s < 3600 then itoa (s div 60) @ ''m'' @ itoa (s mod 60) @ ''s''
     else itoa (s div 3600) @ ''h'' @ itoa (s div 60 mod 60) @ ''m'' @ itoa (s mod 60) @ ''s'')"

datatype 'a outcome = Panicked | Gave "'a result" time

definition look :: "string result \<Rightarrow> init_scan" where
  "look r = (case r of Inl err \<Rightarrow> Not_yet | Inr content \<Rightarrow> scan_console content)"

definition init_result :: "init_scan \<Rightarrow> time \<Rightarrow> InitOutput outcome" where
  "init_result scan t = (case scan of Payload jsonStr \<Rightarrow> Gave (parse_init_output jsonStr) t | _ \<Rightarrow> Panicked)"

text \<open>\<open>console t\<close> is what reading the log at time \<open>t\<close> gives, \<open>cost t\<close> how long it takes.\<close>

partial_function (option) init_loop ::
    "(time \<Rightarrow> string result) \<Rightarrow> (time \<Rightarrow> time) \<Rightarrow> time \<Rightarrow> time \<Rightarrow> time \<Rightarrow> InitOutput outcome option" where
  "init_loop console cost timeout deadline now =
     (if now < deadline then
        if look (console now) = Not_yet
        then init_loop console cost timeout deadline (now + cost now + 500 * millisecond)
        else Some (init_result (look (console now)) (now + cost now))
      else Some (Gave (Inl (ErrorString (''timeout waiting for VM init output after '' @
        duration_text timeout))) now))"

definition waitForInitOutput ::
    "(time \<Rightarrow> string result) \<Rightarrow> (time \<Rightarrow> time) \<Rightarrow> time \<Rightarrow> time \<Rightarrow> InitOutput outcome option" where
  "waitForInitOutput console cost timeout now = init_loop console cost timeout (now + timeout) now"

lemma parse_init_output_ok: "parse_init_output s = Inr out \<Longrightarrow> ParseIP (init_IP out) \<noteq> None"
  by (auto simp: parse_init_output_def split: sum.splits if_splits)

lemma index_of_Some:
  "index_of sub s = Some i \<Longrightarrow> has_prefix sub (drop i s) \<and> i \<le> length s \<and> (\<forall>j < i. \<not> has_prefix sub (drop j s))"
proof (induction s arbitrary: i)
  case (Cons c s)
  show ?case
  proof (cases "has_prefix sub (c # s)")
    case False
    then obtain k where k: "index_of sub s = Some k" "i = Suc k" using Cons.prems by auto
    have "\<not> has_prefix sub (drop j (c # s))" if "j < i" for j
      using Cons.IH [OF k(1)] that False k(2) by (cases j) auto
    then show ?thesis using Cons.IH [OF k(1)] k(2) by simp
  qed (use Cons.prems in auto)
qed (auto simp: has_prefix_def split: if_splits)

lemma index_of_first:
  assumes "has_prefix sub (drop i s)" and "i \<le> length s" and "\<And>j. j < i \<Longrightarrow> \<not> has_prefix sub (drop j s)"
  shows "index_of sub s = Some i"
  using assms
proof (induction s arbitrary: i)
  case (Cons c s)
  show ?case
  proof (cases i)
    case (Suc k)
    have "\<not> has_prefix sub (c # s)" using Cons.prems(3) [of 0] Suc by simp
    moreover have "index_of sub s = Some k"
      by (rule Cons.IH) (use Cons.prems Suc in \<open>force+\<close>)
    ultimately show ?thesis using Suc by simp
  qed (use Cons.prems in simp)
qed (auto simp: has_prefix_def)

text \<open>What the guest prints is found: the markers around a text that does not contain the end marker.\<close>

lemma scan_console_finds:
  assumes "\<And>j. j < length pre \<Longrightarrow> \<not> has_prefix startMarker (drop j (pre @ startMarker @ body @ endMarker @ post))"
    and "\<And>j. j < length startMarker + length body \<Longrightarrow>
      \<not> has_prefix endMarker (drop j (startMarker @ body @ endMarker @ post))"
  shows "scan_console (pre @ startMarker @ body @ endMarker @ post) = Payload (trim_space body)"
proof -
  let ?c = "pre @ startMarker @ body @ endMarker @ post"
  have 1: "index_of startMarker ?c = Some (length pre)"
    by (rule index_of_first) (use assms(1) in \<open>simp_all add: has_prefix_def\<close>)
  have 2: "index_of endMarker (startMarker @ body @ endMarker @ post) = Some (length startMarker + length body)"
    by (rule index_of_first) (use assms(2) in \<open>simp_all add: has_prefix_def\<close>)
  show ?thesis by (simp add: scan_console_def 1 2 Let_def)
qed

lemma scan_console_overlap:
  "scan_console ''=== INIT OUTPUT START === INIT OUTPUT END ==='' = Slice_panic"
  by code_simp

lemma init_loop_result:
  assumes "\<And>t. 0 \<le> cost t \<and> cost t \<le> c"
  shows "init_loop console cost timeout deadline now = Some Panicked \<or>
    (\<exists>r t. init_loop console cost timeout deadline now = Some (Gave r t) \<and> now \<le> t \<and>
       t \<le> max now (deadline + c + 500 * millisecond) \<and> (\<forall>out. r = Inr out \<longrightarrow> ParseIP (init_IP out) \<noteq> None))"
proof (induction "nat (deadline - now)" arbitrary: now rule: less_induct)
  case less
  let ?next = "now + cost now + 500 * millisecond"
  have ms: "0 < millisecond" by (simp add: millisecond_def)
  show ?case
  proof (cases "now < deadline")
    case False
    then show ?thesis by (subst (1 2) init_loop.simps) auto
  next
    case True
    have "nat (deadline - ?next) < nat (deadline - now)" using True ms assms [of now] by linarith
    note IH = less [OF this]
    have later: "now \<le> ?next" "?next \<le> deadline + c + 500 * millisecond"
      using True ms assms [of now] by linarith+
    have again: "init_loop console cost timeout deadline now = init_loop console cost timeout deadline ?next \<Longrightarrow> ?thesis"
      using IH later by (auto simp: max_def split: if_splits)
    show ?thesis
    proof (cases "look (console now) = Not_yet")
      case scan: True
      show ?thesis by (rule again, subst init_loop.simps) (simp add: True scan)
    next
      case False
      then have "init_loop console cost timeout deadline now =
          Some (init_result (look (console now)) (now + cost now))"
        using True by (subst init_loop.simps) simp
      then show ?thesis
        using assms [of now] True ms
        by (auto simp: init_result_def split: init_scan.split dest: parse_init_output_ok)
    qed
  qed
qed

section \<open>\<open>waitForSSHService\<close>\<close>

text \<open>What the network does: the outcome of a dial and of a read at a time and with a timeout, each with
  its duration; \<open>None\<close> stands for a nil error.\<close>

record ssh_net =
  net_dial :: "time \<Rightarrow> time \<Rightarrow> go_error option \<times> time"
  net_setDeadline :: "time \<Rightarrow> go_error option"
  net_read :: "time \<Rightarrow> time \<Rightarrow> string \<times> go_error option \<times> time"

definition ssh_timed_out :: "string \<Rightarrow> time \<Rightarrow> go_error option \<Rightarrow> unit result" where
  "ssh_timed_out addr timeout lastErr =
     (let text = ''timed out waiting for SSH service at '' @ addr @ '' after '' @ duration_text timeout in
      Inl (case lastErr of None \<Rightarrow> ErrorString text | Some e \<Rightarrow> Wrapped (text @ '': '') e))"

definition read_timeout :: "time \<Rightarrow> time \<Rightarrow> time" where
  "read_timeout deadline now = shorterDuration (3 * second) (deadline - now)"

text \<open>The end of one round: give a result, or keep an error and go on at a later time.\<close>

datatype ssh_round =
  Stop_with "unit result" time | Give_up time | is_Again: Again (round_error: go_error) (round_time: time)

definition ssh_attempt :: "ssh_net \<Rightarrow> time \<Rightarrow> time \<Rightarrow> ssh_round" where
  "ssh_attempt net deadline now =
     (case net_dial net now (shorterDuration (3 * second) (deadline - now)) of
        (Some err, dt) \<Rightarrow> Again err (sleepUntil deadline second (now + dt))
      | (None, dt) \<Rightarrow>
          let now1 = now + dt; readTimeout = read_timeout deadline now1 in
          if readTimeout \<le> 0 then Give_up now1
          else (case net_setDeadline net now1 of
            Some err \<Rightarrow> Stop_with (Inl (Wrapped ''failed to set SSH readiness deadline: '' err)) now1
          | None \<Rightarrow> (case net_read net now1 readTimeout of
              (buf, err, dt2) \<Rightarrow>
                if err = None \<and> has_prefix ''SSH-'' buf then Stop_with (Inr ()) (now1 + dt2)
                else Again (case err of Some e \<Rightarrow> e
                    | None \<Rightarrow> ErrorString (''unexpected SSH banner '' @ go_quote buf))
                  (sleepUntil deadline second (now1 + dt2)))))"

partial_function (option) ssh_loop :: "ssh_net \<Rightarrow> string \<Rightarrow> time \<Rightarrow> time \<Rightarrow> time \<Rightarrow> go_error option \<Rightarrow>
    (unit result \<times> time) option" where
  "ssh_loop net addr timeout deadline now lastErr =
     (if deadline - now \<le> 0 then Some (ssh_timed_out addr timeout lastErr, now)
      else if is_Again (ssh_attempt net deadline now)
      then ssh_loop net addr timeout deadline (round_time (ssh_attempt net deadline now))
        (Some (round_error (ssh_attempt net deadline now)))
      else Some (case ssh_attempt net deadline now of
          Stop_with r t \<Rightarrow> (r, t)
        | Give_up t \<Rightarrow> (ssh_timed_out addr timeout lastErr, t)
        | Again e t \<Rightarrow> (Inl e, t)))"

definition waitForSSHService :: "ssh_net \<Rightarrow> string \<Rightarrow> time \<Rightarrow> time \<Rightarrow> (unit result \<times> time) option" where
  "waitForSSHService net addr timeout now = ssh_loop net addr timeout (now + timeout) now None"

text \<open>The documented contract of \<open>net.DialTimeout\<close> and of a read deadline: they return in time.\<close>

definition timely :: "ssh_net \<Rightarrow> bool" where
  "timely net \<longleftrightarrow> (\<forall>now d. 0 < d \<longrightarrow> 0 \<le> snd (net_dial net now d) \<and> snd (net_dial net now d) \<le> d \<and>
     0 \<le> snd (snd (net_read net now d)) \<and> snd (snd (net_read net now d)) \<le> d)"

text \<open>A connection at \<open>t\<close> whose first bytes are an SSH banner.\<close>

definition banner_at :: "ssh_net \<Rightarrow> time \<Rightarrow> bool" where
  "banner_at net t \<longleftrightarrow> (\<exists>d buf dt. net_read net t d = (buf, None, dt) \<and> has_prefix ''SSH-'' buf)"

lemma sleepUntil_bounds:
  "now \<le> deadline \<Longrightarrow> 0 < duration \<Longrightarrow> now \<le> sleepUntil deadline duration now \<and>
     sleepUntil deadline duration now \<le> deadline \<and> sleepUntil deadline duration now \<le> now + duration \<and>
     (sleepUntil deadline duration now = deadline \<or> now + duration \<le> sleepUntil deadline duration now)"
  by (auto simp: sleepUntil_def shorterDuration_def)

lemma ssh_attempt_bounds:
  assumes t: "timely net" and now: "now < deadline"
  shows "case ssh_attempt net deadline now of
      Stop_with r u \<Rightarrow> now \<le> u \<and> u \<le> deadline \<and> u \<le> now + 6 * second \<and>
        (if r = Inr () then \<exists>s. now \<le> s \<and> s \<le> deadline \<and> banner_at net s
         else \<exists>s. net_setDeadline net s \<noteq> None)
    | Give_up u \<Rightarrow> u = deadline \<and> deadline \<le> now + 3 * second
    | Again e u \<Rightarrow> now < u \<and> u \<le> deadline \<and> u \<le> now + 7 * second"
proof -
  have sec: "0 < second" by (simp add: second_def)
  define d1 where "d1 = shorterDuration (3 * second) (deadline - now)"
  have d1: "0 < d1" "d1 \<le> deadline - now" "d1 \<le> 3 * second" using now sec by (auto simp: d1_def shorterDuration_def)
  obtain r dt where dial: "net_dial net now d1 = (r, dt)" by (cases "net_dial net now d1")
  have dt: "0 \<le> dt" "dt \<le> d1" using t d1 dial unfolding timely_def by (metis snd_conv)+
  define now1 where "now1 = now + dt"
  have now1: "now \<le> now1" "now1 \<le> deadline" "now1 \<le> now + 3 * second" using dt d1 by (simp_all add: now1_def)
  have sleep: "now < sleepUntil deadline second u \<and> sleepUntil deadline second u \<le> deadline \<and>
      sleepUntil deadline second u \<le> now + 7 * second"
    if "now \<le> u" "u \<le> deadline" "u \<le> now + 6 * second" for u
    using sleepUntil_bounds [OF that(2) sec] that now sec by linarith
  show ?thesis
  proof (cases r)
    case (Some err)
    then show ?thesis using dial sleep [OF now1(1,2)] now1(3) sec
      by (simp add: ssh_attempt_def now1_def d1_def)
  next
    case None
    define d2 where "d2 = read_timeout deadline now1"
    show ?thesis
    proof (cases "d2 \<le> 0")
      case True
      then have "now1 = deadline" using now1 sec by (auto simp: d2_def read_timeout_def shorterDuration_def split: if_splits)
      then show ?thesis using None dial True now1(3) by (simp add: ssh_attempt_def now1_def d1_def d2_def Let_def)
    next
      case False
      have d2: "0 < d2" "d2 \<le> deadline - now1" "d2 \<le> 3 * second"
        using False by (auto simp: d2_def read_timeout_def shorterDuration_def split: if_splits)
      obtain buf err dt2 where rd: "net_read net now1 d2 = (buf, err, dt2)" by (cases "net_read net now1 d2")
      have dt2: "0 \<le> dt2" "dt2 \<le> d2" using t d2 rd unfolding timely_def by (metis snd_conv)+
      have late: "now \<le> now1 + dt2" "now1 + dt2 \<le> deadline" "now1 + dt2 \<le> now + 6 * second" using now1 dt2 d2 by simp_all
      have unfold: "ssh_attempt net deadline now = (case net_setDeadline net now1 of
            Some err \<Rightarrow> Stop_with (Inl (Wrapped ''failed to set SSH readiness deadline: '' err)) now1
          | None \<Rightarrow> if err = None \<and> has_prefix ''SSH-'' buf then Stop_with (Inr ()) (now1 + dt2)
              else Again (case err of Some e \<Rightarrow> e
                  | None \<Rightarrow> ErrorString (''unexpected SSH banner '' @ go_quote buf))
                (sleepUntil deadline second (now1 + dt2)))"
        unfolding ssh_attempt_def d1_def [symmetric] dial None Let_def
        by (simp only: prod.case option.case now1_def [symmetric] d2_def [symmetric] rd False if_False)
      have "banner_at net now1" if "err = None" "has_prefix ''SSH-'' buf"
        using rd that by (auto simp: banner_at_def)
      then show ?thesis unfolding unfold using late now1 sleep [OF late] by (auto split: option.split)
    qed
  qed
qed

lemma ssh_loop_result:
  assumes t: "timely net"
  shows "\<exists>r u. ssh_loop net addr timeout deadline now lastErr = Some (r, u) \<and> now \<le> u \<and> u \<le> max now deadline \<and>
    (r = Inr () \<longrightarrow> (\<exists>s. now \<le> s \<and> s \<le> deadline \<and> banner_at net s))"
proof (induction "nat (deadline - now)" arbitrary: now lastErr rule: less_induct)
  case less
  show ?case
  proof (cases "now < deadline")
    case False
    then show ?thesis by (subst ssh_loop.simps) (auto simp: ssh_timed_out_def Let_def)
  next
    case True
    note b = ssh_attempt_bounds [OF t True]
    show ?thesis
    proof (cases "ssh_attempt net deadline now")
      case (Again e u)
      then have u: "now < u" "u \<le> deadline" using b by simp_all
      then have "nat (deadline - u) < nat (deadline - now)" by simp
      from less [OF this, of "Some e"] obtain r v where
        "ssh_loop net addr timeout deadline u (Some e) = Some (r, v)" "u \<le> v" "v \<le> max u deadline"
        "r = Inr () \<longrightarrow> (\<exists>s. u \<le> s \<and> s \<le> deadline \<and> banner_at net s)" by blast
      moreover have "ssh_loop net addr timeout deadline now lastErr = ssh_loop net addr timeout deadline u (Some e)"
        using True Again by (subst ssh_loop.simps) simp
      ultimately show ?thesis using u by (auto intro: order_trans less_imp_le)
    qed (use True b in \<open>subst ssh_loop.simps, auto simp: ssh_timed_out_def Let_def\<close>)+
  qed
qed

text \<open>From \<open>T\<close> on the guest serves SSH: a connection and its banner come within \<open>c\<close>.\<close>

definition ssh_ready :: "ssh_net \<Rightarrow> time \<Rightarrow> time \<Rightarrow> bool" where
  "ssh_ready net T c \<longleftrightarrow> (\<forall>t d. T \<le> t \<longrightarrow> c < d \<longrightarrow> fst (net_dial net t d) = None \<and> snd (net_dial net t d) \<le> c \<and>
     (\<exists>buf dt. net_read net t d = (buf, None, dt) \<and> has_prefix ''SSH-'' buf))"

lemma ssh_attempt_ready:
  assumes t: "timely net" and ready: "ssh_ready net T c" and set: "\<And>t. net_setDeadline net t = None"
    and c: "0 \<le> c" "c < 3 * second" and now: "T \<le> now" "now + 2 * c < deadline"
  shows "\<exists>u. ssh_attempt net deadline now = Stop_with (Inr ()) u"
proof -
  have sec: "0 < second" by (simp add: second_def)
  define d1 where "d1 = shorterDuration (3 * second) (deadline - now)"
  have d1: "c < d1" using now c by (auto simp: d1_def shorterDuration_def)
  obtain dt where dial: "net_dial net now d1 = (None, dt)" "dt \<le> c"
    using ready now(1) d1 unfolding ssh_ready_def by (metis prod.collapse)
  have dt: "0 \<le> dt" using t d1 dial c(1) unfolding timely_def by (metis snd_conv order.strict_trans1)
  define now1 where "now1 = now + dt"
  define d2 where "d2 = read_timeout deadline now1"
  have d2: "c < d2" using now c dial(2) by (auto simp: d2_def now1_def read_timeout_def shorterDuration_def)
  obtain buf dt2 where rd: "net_read net now1 d2 = (buf, None, dt2)" "has_prefix ''SSH-'' buf"
    using ready now(1) d2 dt unfolding ssh_ready_def now1_def by (metis add_increasing2)
  show ?thesis
    unfolding ssh_attempt_def d1_def [symmetric] dial(1) Let_def
    using d2 c(1) rd(2)
    by (simp add: now1_def [symmetric] d2_def [symmetric] rd(1) set)
qed

lemma ssh_loop_ready_soon:
  assumes t: "timely net" and ready: "ssh_ready net T c" and set: "\<And>t. net_setDeadline net t = None"
    and c: "0 \<le> c" "c < 3 * second" and room: "T + 7 * second + 2 * c < deadline" and now: "now < T + 7 * second"
  shows "\<exists>u. ssh_loop net addr timeout deadline now lastErr = Some (Inr (), u) \<and> now \<le> u \<and> u < T + 13 * second"
  using now
proof (induction "nat (deadline - now)" arbitrary: now lastErr rule: less_induct)
  case less
  have early: "now + 2 * c < deadline" "now < deadline" using less(2) room c by linarith+
  show ?case
  proof (cases "T \<le> now")
    case True
    from ssh_attempt_ready [OF t ready set c this early(1)] obtain u where
      "ssh_attempt net deadline now = Stop_with (Inr ()) u" by blast
    then show ?thesis using early less(2) ssh_attempt_bounds [OF t early(2)] by (subst ssh_loop.simps) simp
  next
    case False
    note b = ssh_attempt_bounds [OF t early(2)]
    show ?thesis
    proof (cases "ssh_attempt net deadline now")
      case (Stop_with r u)
      then show ?thesis using b set early less(2) by (subst ssh_loop.simps) (auto split: if_splits)
    next
      case (Give_up u)
      then show ?thesis using b False room c by simp
    next
      case (Again e u)
      then have u: "now < u" "u \<le> deadline" "u < T + 7 * second" using b False by auto
      then have "nat (deadline - u) < nat (deadline - now)" using early by simp
      from less(1) [OF this u(3), of "Some e"] show ?thesis
        using Again early u(1) by (subst ssh_loop.simps) force
    qed
  qed
qed

lemma ssh_loop_ready:
  assumes "timely net" and "ssh_ready net T c" and "\<And>t. net_setDeadline net t = None"
    and "0 \<le> c" "c < 3 * second" and "T + 7 * second + 2 * c < deadline" and "now < T + 7 * second"
  shows "\<exists>u. ssh_loop net addr timeout deadline now lastErr = Some (Inr (), u)"
  using ssh_loop_ready_soon [OF assms] by blast

section \<open>The guest's output is found\<close>

text \<open>\<open>content\<close> shows \<open>body\<close> between the first start marker and the first end marker behind it.\<close>

definition prints :: "string \<Rightarrow> string \<Rightarrow> bool" where
  "prints body content \<longleftrightarrow> (\<exists>pre post. content = pre @ startMarker @ body @ endMarker @ post \<and>
     list_all (\<lambda>j. \<not> has_prefix startMarker (drop j content)) [0 ..< length pre] \<and>
     list_all (\<lambda>j. \<not> has_prefix endMarker (drop j (startMarker @ body @ endMarker @ post)))
       [0 ..< length startMarker + length body])"

lemma scan_console_prints: "prints body content \<Longrightarrow> scan_console content = Payload (trim_space body)"
  by (auto simp: prints_def list_all_iff intro!: scan_console_finds)

lemma init_loop_finds_soon:
  assumes cost: "\<And>t. 0 \<le> cost t \<and> cost t \<le> c"
    and early: "\<And>t. t < T \<Longrightarrow> look (console t) = Not_yet"
    and late: "\<And>t. T \<le> t \<Longrightarrow> look (console t) = Payload j"
    and room: "T + c + 500 * millisecond \<le> deadline" and now: "now < T + c + 500 * millisecond"
  shows "\<exists>t. init_loop console cost timeout deadline now = Some (Gave (parse_init_output j) t) \<and>
    now \<le> t \<and> t < T + 2 * c + 500 * millisecond"
  using now
proof (induction "nat (deadline - now)" arbitrary: now rule: less_induct)
  case less
  have open_now: "now < deadline" using less(2) room by simp
  show ?case
  proof (cases "T \<le> now")
    case True
    then show ?thesis using open_now late less(2) cost [of now] by (subst init_loop.simps) (simp add: init_result_def)
  next
    case False
    let ?next = "now + cost now + 500 * millisecond"
    have ms: "0 < millisecond" by (simp add: millisecond_def)
    have "nat (deadline - ?next) < nat (deadline - now)" using open_now ms cost [of now] by linarith
    moreover have "?next < T + c + 500 * millisecond" using False cost [of now] by linarith
    ultimately obtain t where
      "init_loop console cost timeout deadline ?next = Some (Gave (parse_init_output j) t)"
      "?next \<le> t" "t < T + 2 * c + 500 * millisecond"
      using less(1) by blast
    then show ?thesis using open_now False early ms cost [of now] by (subst init_loop.simps) simp
  qed
qed

lemma init_loop_finds:
  assumes "\<And>t. 0 \<le> cost t \<and> cost t \<le> c" and "\<And>t. t < T \<Longrightarrow> look (console t) = Not_yet"
    and "\<And>t. T \<le> t \<Longrightarrow> look (console t) = Payload j"
    and "T + c + 500 * millisecond \<le> deadline" and "now < T + c + 500 * millisecond"
  shows "\<exists>t. init_loop console cost timeout deadline now = Some (Gave (parse_init_output j) t)"
  using init_loop_finds_soon [where cost = cost and console = console, OF assms] by blast

section \<open>Claims\<close>

text \<open>C32: The wait for the guest's SSH service always ends, at the latest when its timeout is over, provided
  dialling and reading respect their own timeouts; and it reports success only after a connection
  within that time answered with an SSH banner.\<close>

theorem ssh_wait_is_bounded:
  assumes "timely net" and "0 \<le> timeout"
  shows "\<exists>r t. waitForSSHService net addr timeout now = Some (r, t) \<and> now \<le> t \<and> t \<le> now + timeout \<and>
    (r = Inr () \<longrightarrow> (\<exists>s. now \<le> s \<and> s \<le> now + timeout \<and> banner_at net s))"
  unfolding waitForSSHService_def using ssh_loop_result [OF assms(1)] assms(2) by (metis le_add_same_cancel1 max.absorb2)

definition booting :: ssh_net where
  "booting = \<lparr>
     net_dial = (\<lambda>t d. (if t < 20 * second then Some (ErrorString ''connection refused'') else None, 0)),
     net_setDeadline = (\<lambda>t. None), net_read = (\<lambda>t d. (''SSH-2.0-OpenSSH_9.9'', None, 0))\<rparr>"

lemma booting_timely: "timely booting"
  by (simp add: timely_def booting_def)

lemma booting_ready: "ssh_ready booting (20 * second) 0"
  by (simp add: ssh_ready_def booting_def has_prefix_def)

lemma ssh_wait_is_bounded_witness:
  "\<exists>r t. waitForSSHService booting ''192.168.64.2:22'' (60 * second) 0 = Some (r, t) \<and> 0 \<le> t \<and> t \<le> 60 * second"
  using ssh_wait_is_bounded [OF booting_timely, of "60 * second" "''192.168.64.2:22''" 0] by (auto simp: second_def)

text \<open>A guest that serves SSH from some time on is noticed: if its connections and banners come within \<open>c\<close>
  (less than the three seconds one attempt has) and the timeout leaves room for one failed round and
  one good one (seven seconds and twice \<open>c\<close>), the wait succeeds.\<close>

theorem ssh_service_is_noticed:
  assumes "timely net" and "ssh_ready net T c" and "\<And>t. net_setDeadline net t = None"
    and "0 \<le> c" and "c < 3 * second" and "T + 7 * second + 2 * c < now + timeout" and "now < T + 7 * second"
  shows "\<exists>t. waitForSSHService net addr timeout now = Some (Inr (), t)"
  unfolding waitForSSHService_def by (rule ssh_loop_ready [OF assms])

lemma ssh_service_is_noticed_witness:
  "\<exists>t. waitForSSHService booting ''192.168.64.2:22'' (60 * second) 0 = Some (Inr (), t)"
  by (rule ssh_service_is_noticed [OF booting_timely booting_ready]) (simp_all add: booting_def second_def)

text \<open>When the guest's console shows its output from some time on, and the timeout leaves room for one more
  look, \<open>waitForInitOutput\<close> returns exactly what is parsed from the text between the markers; an
  address it returns is one.\<close>

theorem guest_output_is_found:
  assumes "\<And>t. 0 \<le> cost t \<and> cost t \<le> c" and "\<And>t. t < T \<Longrightarrow> look (console t) = Not_yet"
    and "\<And>t. T \<le> t \<Longrightarrow> \<exists>content. console t = Inr content \<and> prints body content"
    and "T + c + 500 * millisecond \<le> now + timeout" and "now < T + c + 500 * millisecond"
  shows "\<exists>t. waitForInitOutput console cost timeout now = Some (Gave (parse_init_output (trim_space body)) t) \<and>
    (\<forall>out. parse_init_output (trim_space body) = Inr out \<longrightarrow> ParseIP (init_IP out) \<noteq> None)"
proof -
  have "look (console t) = Payload (trim_space body)" if "T \<le> t" for t
    using assms(3) [OF that] by (auto simp: look_def scan_console_prints)
  then show ?thesis
    unfolding waitForInitOutput_def
    using init_loop_finds [where console = console and cost = cost, OF assms(1,2) _ assms(4,5)] parse_init_output_ok
    by blast
qed

definition sample_body :: string where
  "sample_body = [CHR 0x0A] @ ''{\"ip\": \"192.168.64.2\"}'' @ [CHR 0x0A]"

definition sample_console :: string where
  "sample_console = ''boot'' @ [CHR 0x0A] @ startMarker @ sample_body @ endMarker @ ''login: ''"

lemma sample_console_prints: "prints sample_body sample_console"
  unfolding prints_def
  by (intro exI [of _ "''boot'' @ [CHR 0x0A]"] exI [of _ "''login: ''"] conjI; code_simp)

lemma guest_output_is_found_witness:
  "\<exists>t out. waitForInitOutput (\<lambda>t. if t < 3 * second then Inr ''boot'' else Inr sample_console) (\<lambda>t. 0)
     (300 * second) 0 = Some (Gave (Inr out) t) \<and> init_IP out = ''192.168.64.2''"
proof -
  let ?console = "\<lambda>t. if t < 3 * second then Inr ''boot'' else Inr sample_console"
  have parsed: "parse_init_output (trim_space sample_body) = Inr \<lparr>init_IP = ''192.168.64.2''\<rparr>" by code_simp
  have boot: "scan_console ''boot'' = Not_yet" by code_simp
  have "\<exists>t. waitForInitOutput ?console (\<lambda>t. 0) (300 * second) 0 =
      Some (Gave (parse_init_output (trim_space sample_body)) t) \<and>
      (\<forall>out. parse_init_output (trim_space sample_body) = Inr out \<longrightarrow> ParseIP (init_IP out) \<noteq> None)"
    by (rule guest_output_is_found [where c = 0 and T = "3 * second"])
      (auto simp: look_def boot sample_console_prints second_def millisecond_def)
  then show ?thesis unfolding parsed by auto
qed



end
