(* ===== verification/Vm_Config.thy ===== *)
theory Vm_Config
  imports Init Forward_Spec Polling
begin

text \<open>
  The daemon up to the virtual machine (first half of \<open>runVMDaemon\<close> in \<open>launcher/mac/main.go\<close>): its
  arguments, the control socket, and the configuration handed to the virtualisation framework. The
  framework (\<open>vz\<close>) is an argument: each of its constructors is a call that may fail and change the
  world; the objects it returns are recorded by what they were made from.
\<close>

section \<open>The framework\<close>

datatype vz_call =
    NewEFIVariableStore path bool          \<comment> \<open>the path, and whether to create it\<close>
  | NewEFIBootLoader
  | NewFileSerialPortAttachment path
  | NewVirtioConsoleDeviceSerialPort
  | NewDiskImageStorageDeviceAttachment path
  | NewVirtioBlockDevice path
  | NewNATNetworkDeviceAttachment
  | NewVirtioNetworkDevice
  | NewVirtioEntropyDevice
  | NewSharedDirectory path
  | NewSingleDirectoryShare path
  | NewVirtioFileSystemDevice string
  | NewVirtualMachineConfiguration "64 word" "64 word"

text \<open>The configuration: boot loader, CPUs, bytes of memory, serial ports by their log, storage devices by
  their image in order, the number of network and entropy devices, and shares by tag and directory.\<close>

record vm_config =
  cfg_variableStore :: path
  cfg_cpus :: "64 word"
  cfg_memory :: "64 word"
  cfg_serialPorts :: "path list"
  cfg_storage :: "path list"
  cfg_networks :: nat
  cfg_entropy :: nat
  cfg_shares :: "(string \<times> path) list"

record 'z vz_lib =
  vz_make :: "vz_call \<Rightarrow> ('z, unit) os"
  vz_validate :: "vm_config \<Rightarrow> bool result"
  vz_newMachine :: "vm_config \<Rightarrow> go_error option"

text \<open>A constructor with the message its error is wrapped in.\<close>

definition vz_do :: "'z vz_lib \<Rightarrow> string \<Rightarrow> vz_call \<Rightarrow> ('z, unit) os" where
  "vz_do vz what call = onErr (Wrapped (''failed to '' @ what @ '': '')) (vz_make vz call)"

section \<open>Boot\<close>

definition diskName :: path where
  "diskName = filepath_Join [''vm'', ''disk.img'']"

definition efiVariableStorePath :: path where
  "efiVariableStorePath = filepath_Join [''vm'', ''efi-nvram.bin'']"

definition consoleLogPath :: path where
  "consoleLogPath = ''vm-console.log''"

text \<open>\<open>os.Truncate(path, 0)\<close>.\<close>

definition os_Truncate :: "path \<Rightarrow> int \<Rightarrow> ('z, unit) os" where
  "os_Truncate p sz = (\<lambda>w. case files w p of
     None \<Rightarrow> (Inl (PathError ''truncate'' p (case faults w (tick w) of Some (e, _) \<Rightarrow> e | None \<Rightarrow> ENOENT)), called w)
   | Some Dir \<Rightarrow> (Inl (PathError ''truncate'' p (case faults w (tick w) of Some (e, _) \<Rightarrow> e | None \<Rightarrow> EISDIR)), called w)
   | Some (File data s mode) \<Rightarrow> file_Truncate p sz w)"

definition verifyDisk :: "host \<Rightarrow> ('z, path) os" where
  "verifyDisk h =
     andThen (onErr (Wrapped ''failed to get absolute path for disk: '')
         (lift (filepath_Abs (os_Getwd h) diskName))) (\<lambda>diskPath.
     attempt (at_path (host_wd h) diskPath os_Stat) (\<lambda>r. case r of
       Inl err \<Rightarrow> throw (ErrorString (''disk image not found: '' @ diskPath @
         '' (need fat image with ESP for UEFI boot)''))
     | Inr _ \<Rightarrow> ret diskPath))"

definition variableStore :: "'z vz_lib \<Rightarrow> ('z, unit) os" where
  "variableStore vz = attempt (os_Stat efiVariableStorePath) (\<lambda>r. case r of
     Inr _ \<Rightarrow> vz_do vz ''load EFI variable store'' (NewEFIVariableStore efiVariableStorePath False)
   | Inl err \<Rightarrow> vz_do vz ''create EFI variable store'' (NewEFIVariableStore efiVariableStorePath True))"

text \<open>The log of an earlier run is emptied before the console is attached to it.\<close>

definition consoleDevice :: "'z vz_lib \<Rightarrow> ('z, unit) os" where
  "consoleDevice vz =
     attempt (os_Truncate consoleLogPath 0) (\<lambda>r.
       if (case r of Inl err \<Rightarrow> \<not> os_IsNotExist err | Inr _ \<Rightarrow> False)
       then throw (Wrapped ''failed to clear console log: '' (projl r))
       else andThen (vz_do vz ''create console log attachment'' (NewFileSerialPortAttachment consoleLogPath)) (\<lambda>_.
         vz_do vz ''create serial port'' NewVirtioConsoleDeviceSerialPort))"

section \<open>Devices\<close>

definition attachDisk :: "'z vz_lib \<Rightarrow> string \<Rightarrow> string \<Rightarrow> path \<Rightarrow> ('z, path) os" where
  "attachDisk vz attachment device disk =
     andThen (vz_do vz attachment (NewDiskImageStorageDeviceAttachment disk)) (\<lambda>_.
     andThen (vz_do vz device (NewVirtioBlockDevice disk)) (\<lambda>_. ret disk))"

text \<open>The data disk goes first, when there is one.\<close>

definition dataDisk :: "'z vz_lib \<Rightarrow> host \<Rightarrow> ('z, path list) os" where
  "dataDisk vz h = (case filepath_Abs (os_Getwd h) dataDiskPath of
     Inl err \<Rightarrow> ret []
   | Inr absDataDiskPath \<Rightarrow>
       attempt (at_path (host_wd h) absDataDiskPath os_Stat) (\<lambda>r. case r of
         Inl err \<Rightarrow> ret []
       | Inr _ \<Rightarrow> andThen (attachDisk vz ''create data disk attachment''
             ''create data storage device config'' absDataDiskPath) (\<lambda>d. ret [d])))"

definition networkDevice :: "'z vz_lib \<Rightarrow> ('z, unit) os" where
  "networkDevice vz =
     andThen (vz_do vz ''create NAT network attachment'' NewNATNetworkDeviceAttachment) (\<lambda>_.
     andThen (vz_do vz ''create network device config'' NewVirtioNetworkDevice) (\<lambda>_.
       vz_do vz ''create entropy device config'' NewVirtioEntropyDevice))"

definition sharedDevice :: "'z vz_lib \<Rightarrow> host \<Rightarrow> ('z, path) os" where
  "sharedDevice vz h =
     andThen (attempt (os_Stat sharedDirName) (\<lambda>r.
         if (case r of Inl err \<Rightarrow> os_IsNotExist err | Inr _ \<Rightarrow> False)
         then onErr (Wrapped ''failed to create shared directory: '') (os_MkdirAll sharedDirName)
         else ret ())) (\<lambda>_.
     andThen (onErr (Wrapped ''failed to get absolute path for shared directory: '')
         (lift (filepath_Abs (os_Getwd h) sharedDirName))) (\<lambda>absSharedDir.
     andThen (vz_do vz ''create shared directory device'' (NewSharedDirectory absSharedDir)) (\<lambda>_.
     andThen (vz_do vz ''create directory share'' (NewSingleDirectoryShare absSharedDir)) (\<lambda>_.
     andThen (vz_do vz ''create VirtioFS config'' (NewVirtioFileSystemDevice ''hostshare'')) (\<lambda>_.
       ret absSharedDir)))))"

section \<open>The machine\<close>

text \<open>\<open>uint(cpuCount)\<close>, and \<open>ramSize*1024*1024\<close> on \<open>uint64\<close>.\<close>

definition cpu_word :: "int \<Rightarrow> 64 word" where
  "cpu_word cpuCount = word_of_int cpuCount"

definition memory_word :: "nat \<Rightarrow> 64 word" where
  "memory_word ramSize = of_nat ramSize * 1024 * 1024"

definition newMachine :: "'z vz_lib \<Rightarrow> int \<Rightarrow> nat \<Rightarrow> path list \<Rightarrow> path \<Rightarrow> ('z, vm_config) os" where
  "newMachine vz cpuCount ramSize storageDevices absSharedDir =
     andThen (vz_do vz ''create VM configuration''
         (NewVirtualMachineConfiguration (cpu_word cpuCount) (memory_word ramSize))) (\<lambda>_.
     let vzConfig = \<lparr>cfg_variableStore = efiVariableStorePath, cfg_cpus = cpu_word cpuCount,
       cfg_memory = memory_word ramSize, cfg_serialPorts = [consoleLogPath], cfg_storage = storageDevices,
       cfg_networks = 1, cfg_entropy = 1, cfg_shares = [(''hostshare'', absSharedDir)]\<rparr> in
     andThen (onErr (Wrapped ''failed to validate VM configuration: '') (lift (vz_validate vz vzConfig)))
       (\<lambda>validated.
     if \<not> validated then throw (ErrorString ''VM configuration validation failed'')
     else case vz_newMachine vz vzConfig of
       Some err \<Rightarrow> throw (Wrapped ''failed to create VM: '' err)
     | None \<Rightarrow> ret vzConfig))"

text \<open>Everything between the parsed arguments and the virtual machine instance.\<close>

definition configureVM :: "'z vz_lib \<Rightarrow> host \<Rightarrow> int \<Rightarrow> nat \<Rightarrow> ('z, vm_config) os" where
  "configureVM vz h cpuCount ramSize =
     andThen (verifyDisk h) (\<lambda>diskPath.
     andThen (variableStore vz) (\<lambda>_.
     andThen (vz_do vz ''create EFI bootloader'' NewEFIBootLoader) (\<lambda>_.
     andThen (consoleDevice vz) (\<lambda>_.
     andThen (dataDisk vz h) (\<lambda>dataDisks.
     andThen (attachDisk vz ''create boot disk attachment'' ''create storage device config'' diskPath) (\<lambda>boot.
     andThen (networkDevice vz) (\<lambda>_.
     andThen (sharedDevice vz h) (\<lambda>absSharedDir.
       newMachine vz cpuCount ramSize (dataDisks @ [boot]) absSharedDir))))))))"

section \<open>The start of the daemon\<close>

definition vmSocketPath :: path where
  "vmSocketPath = ''vm.sock''"

text \<open>\<open>net.Listen("unix", path)\<close> creates the socket in the file system.\<close>

definition listen_unix :: "path \<Rightarrow> ('z, unit) os" where
  "listen_unix p = (\<lambda>w. case faults w (tick w) of
     Some (e, _) \<Rightarrow> (Inl (OpError (''listen unix '' @ p) (SyscallError ''bind'' e)), called w)
   | None \<Rightarrow> if files w p \<noteq> None
       then (Inl (OpError (''listen unix '' @ p) (SyscallError ''bind'' EADDRINUSE)), called w)
       else (Inr (), called (put p (Some (File [] 0 493)) w)))"

text \<open>Closing the listener unlinks the socket. The goroutine that serves connections is
  \<open>handleConnection\<close>.\<close>

definition startStatusListener :: "('z, unit) os" where
  "startStatusListener =
     attempt (os_Remove vmSocketPath) (\<lambda>_.
     andThen (onErr (Wrapped (''failed to listen on '' @ vmSocketPath @ '': '')) (listen_unix vmSocketPath)) (\<lambda>_.
     attempt (file_Chmod vmSocketPath 384) (\<lambda>r. case r of
       Inl err \<Rightarrow> attempt (os_Remove vmSocketPath) (\<lambda>_.
         throw (Wrapped ''cannot restrict VM socket access: '' err))
     | Inr _ \<Rightarrow> ret ())))"

record daemon_setup =
  setup_config :: RuntimeConfig
  setup_forwards :: forwardSpecList
  setup_vm :: vm_config

definition bootDaemon :: "'z vz_lib \<Rightarrow> host \<Rightarrow> int \<Rightarrow> string \<Rightarrow> string \<Rightarrow> string \<Rightarrow> ('z, daemon_setup) os" where
  "bootDaemon vz h pid cpuCountStr ramSizeStr encodedForwards =
     andThen loadRuntimeConfig (\<lambda>runtimeConfig.
     andThen (onErr (Wrapped ''invalid forwarding configuration: '') (lift (parseForwardSpecs encodedForwards)))
       (\<lambda>forwardSpecs.
     andThen (onErr (Wrapped ''failed to start status listener: '') startStatusListener) (\<lambda>_.
     andThen (onErr (Wrapped ''invalid cpu_count: '') (lift (atoi cpuCountStr))) (\<lambda>cpuCount.
     andThen (onErr (Wrapped ''invalid ram_size: '') (lift (parse_uint ramSizeStr))) (\<lambda>ramSize.
     andThen (configureVM vz h cpuCount ramSize) (\<lambda>vm.
     attempt (os_WriteFile ''vm.pid'' (itoa pid) 420) (\<lambda>_.
       ret \<lparr>setup_config = runtimeConfig, setup_forwards = forwardSpecs, setup_vm = vm\<rparr>)))))))"

text \<open>The daemon as a whole; \<open>rest\<close> runs the machine and its forwards (\<open>Daemon_Run\<close>). The deferred removals
  run on every return.\<close>

definition runVMDaemon :: "'z vz_lib \<Rightarrow> host \<Rightarrow> int \<Rightarrow> string \<Rightarrow> string \<Rightarrow> string \<Rightarrow>
    (daemon_setup \<Rightarrow> ('z, unit) os) \<Rightarrow> ('z, unit) os" where
  "runVMDaemon vz h pid cpuCountStr ramSizeStr encodedForwards rest =
     deferring
       (andThen (bootDaemon vz h pid cpuCountStr ramSizeStr encodedForwards) (\<lambda>setup.
          deferring (rest setup) (os_Remove ''vm.pid'')))
       (os_Remove vmRuntimeStatePath)"

section \<open>Absolute paths of the launcher's own files\<close>

text \<open>A working directory as \<open>os.Getwd\<close> reports it, and a relative path as the launcher writes them.\<close>

definition abs_dir :: "path \<Rightarrow> bool" where
  "abs_dir wd \<longleftrightarrow> wd = ''/'' @ join ''/'' (path_parts wd) \<and> tame wd"

definition own_path :: "path \<Rightarrow> bool" where
  "own_path p \<longleftrightarrow> path_parts p \<noteq> [] \<and> p = join ''/'' (path_parts p) \<and> tame p"

lemma path_parts_sep: "path_parts (a @ CHR ''/'' # b) = path_parts a @ path_parts b"
  by (simp add: path_parts_def split_on_prefix)

lemma path_parts_rooted_join:
  "(\<And>c. c \<in> set cs \<Longrightarrow> CHR ''/'' \<notin> set c \<and> c \<noteq> [] \<and> c \<noteq> ''.'') \<Longrightarrow> path_parts (CHR ''/'' # join ''/'' cs) = cs"
  using path_parts_sep [of "[]" "join ''/'' cs"] path_parts_join [of cs]
  by (cases "cs = []") (auto simp: path_parts_def)

lemma is_rooted_Cons [simp]: "is_rooted (CHR ''/'' # p)"
  by (simp add: is_rooted_def has_prefix_def)

lemma Clean_rooted:
  "''..'' \<notin> set (path_parts p) \<Longrightarrow> is_rooted p \<Longrightarrow> filepath_Clean p = CHR ''/'' # join ''/'' (path_parts p)"
  by (simp add: filepath_Clean_def clean_fold Let_def)

lemma own_abs:
  assumes "abs_dir wd" and "own_path p"
  shows "filepath_Join [wd, p] = CHR ''/'' # join ''/'' (path_parts wd @ path_parts p)"
proof -
  have wd: "is_rooted wd" "wd \<noteq> []" using assms(1) by (auto simp: abs_dir_def dest: arg_cong [where f = is_rooted])
  then have root: "is_rooted (wd @ CHR ''/'' # p)" by (cases wd) (auto simp: is_rooted_def has_prefix_def)
  have "filepath_Join [wd, p] = filepath_Clean (wd @ CHR ''/'' # p)" using wd(2) by (simp add: filepath_Join_def)
  also have "\<dots> = CHR ''/'' # join ''/'' (path_parts wd @ path_parts p)"
    using Clean_rooted [OF _ root] assms by (simp add: path_parts_sep abs_dir_def own_path_def tame_parts)
  finally show ?thesis .
qed

lemma join_append: "as \<noteq> [] \<Longrightarrow> bs \<noteq> [] \<Longrightarrow> join s (as @ bs) = join s as @ s @ join s bs"
  by (induction s as rule: join.induct) (auto simp: neq_Nil_conv)

lemma local_own:
  assumes "abs_dir wd" and "own_path p"
  shows "local_name wd (filepath_Join [wd, p]) = p"
proof -
  let ?a = "CHR ''/'' # join ''/'' (path_parts wd @ path_parts p)"
  have parts: "path_parts ?a = path_parts wd @ path_parts p"
    by (rule path_parts_rooted_join) (auto dest: parts_no_slash)
  have a: "filepath_Clean ?a = ?a"
    using Clean_rooted [of ?a] parts assms by (simp add: abs_dir_def own_path_def tame_parts)
  have p: "path_parts p \<noteq> []" "join ''/'' (path_parts p) = p" using assms(2) by (simp_all add: own_path_def)
  have wd: "wd = CHR ''/'' # join ''/'' (path_parts wd)" using assms(1) by (simp add: abs_dir_def)
  have ne: "?a \<noteq> wd"
    using arg_cong [where f = path_parts, of ?a wd] parts p(1) by auto
  have e: "local_name wd (filepath_Join [wd, p]) =
      (if has_prefix (if wd = ''/'' then ''/'' else wd @ ''/'') ?a
       then drop (length (if wd = ''/'' then ''/'' else wd @ ''/'')) ?a else ?a)"
    unfolding own_abs [OF assms] local_name_def Let_def by (simp only: is_rooted_Cons if_True a ne if_False)
  show ?thesis
  proof (cases "path_parts wd = []")
    case True
    then have "wd = ''/''" using wd by simp
    then show ?thesis using p(2) True unfolding e by (simp add: has_prefix_def)
  next
    case False
    then have "?a = (wd @ ''/'') @ p" using join_append [OF False p(1)] wd p(2) by simp
    moreover have "wd \<noteq> ''/''"
    proof
      assume "wd = ''/''"
      then have "path_parts wd = []" by (simp add: path_parts_def)
      with False show False by simp
    qed
    ultimately show ?thesis unfolding e by (simp only: if_False) (simp add: has_prefix_def)
  qed
qed

section \<open>A framework that keeps to its files\<close>

definition console_fresh :: "'z world_scheme \<Rightarrow> bool" where
  "console_fresh w \<longleftrightarrow> (case files w consoleLogPath of
     None \<Rightarrow> True | Some Dir \<Rightarrow> False | Some (File data sz mode) \<Rightarrow> sz = 0)"

definition console_kept :: "'z world_scheme \<Rightarrow> 'z world_scheme \<Rightarrow> bool" where
  "console_kept w w' \<longleftrightarrow> (console_fresh w \<longrightarrow> console_fresh w')"

interpretation console_kept: world_relation console_kept
  by unfold_locales (auto simp: console_kept_def)

text \<open>What the framework documents: its constructors write the variable store and create the console log at
  most, and before the machine runs nothing is written to the log.\<close>

definition quiet :: "'z vz_lib \<Rightarrow> bool" where
  "quiet vz \<longleftrightarrow> (\<forall>c. keeps (untouched {efiVariableStorePath, consoleLogPath}) (vz_make vz c) \<and>
     keeps same_faults (vz_make vz c) \<and> keeps console_kept (vz_make vz c))"

definition boot_files :: "path set" where
  "boot_files = {vmSocketPath, efiVariableStorePath, consoleLogPath}"

lemma own_names:
  "efiVariableStorePath = ''vm/efi-nvram.bin''" "consoleLogPath = ''vm-console.log''" "vmSocketPath = ''vm.sock''"
  "dataDiskPath = ''vm/data.img''" "diskName = ''vm/disk.img''" "sharedDirName = ''vm-shared''"
  by code_simp+

lemma untouched_more: "keeps (untouched A) m \<Longrightarrow> A \<subseteq> B \<Longrightarrow> keeps (untouched B) m"
  by (auto simp: keeps_def intro: untouched_mono)

lemma quiet_vz_do:
  assumes "quiet vz"
  shows "keeps (untouched boot_files) (vz_do vz what c)" "keeps same_faults (vz_do vz what c)"
    "keeps console_kept (vz_do vz what c)"
proof -
  have q: "keeps (untouched {efiVariableStorePath, consoleLogPath}) (vz_make vz c)"
    "keeps same_faults (vz_make vz c)" "keeps console_kept (vz_make vz c)"
    using assms by (simp_all add: quiet_def)
  show "keeps (untouched boot_files) (vz_do vz what c)"
    unfolding vz_do_def
    by (rule untouched.keeps_onErr, rule untouched_more [OF q(1)]) (simp add: boot_files_def)
  show "keeps same_faults (vz_do vz what c)" "keeps console_kept (vz_do vz what c)"
    unfolding vz_do_def using q by (auto intro: same_faults.keeps_onErr console_kept.keeps_onErr)
qed

lemma untouched_console: "keeps (untouched A) m \<Longrightarrow> consoleLogPath \<notin> A \<Longrightarrow> keeps console_kept m"
  by (auto simp: keeps_def untouched_def console_kept_def console_fresh_def)

lemma os_Truncate_world:
  "keeps (untouched {p}) (os_Truncate p sz)" "keeps same_faults (os_Truncate p sz)"
  unfolding os_Truncate_def
  by (rule keeps_called, force simp: file_Truncate_def split: option.split node.split)
     (auto simp: keeps_def same_faults_def file_Truncate_def split: option.split node.split)

lemma listen_unix_world: "keeps (untouched {p}) (listen_unix p)" "keeps same_faults (listen_unix p)"
  unfolding listen_unix_def
  by (rule keeps_called, force split: option.split)
     (auto simp: keeps_def same_faults_def split: option.split)

lemma at_path_reads:
  "keeps (untouched A) (at_path wd p os_Stat)" "keeps same_faults (at_path wd p os_Stat)"
  unfolding at_path_def
  by (auto intro!: untouched.keeps_onErr same_faults.keeps_onErr keeps_intros)

lemma loadRuntimeConfig_world: "keeps (untouched A) loadRuntimeConfig" "keeps same_faults loadRuntimeConfig"
  unfolding loadRuntimeConfig_def Let_def
  by (intro untouched.keeps_rules same_faults.keeps_rules keeps_intros;
      auto intro!: untouched.keeps_rules same_faults.keeps_rules split: sum.split)+

lemma startStatusListener_world:
  "keeps (untouched boot_files) startStatusListener" "keeps same_faults startStatusListener"
proof -
  have l: "keeps (untouched boot_files) (listen_unix vmSocketPath)"
    by (rule untouched_more [OF listen_unix_world(1)]) (simp add: boot_files_def)
  have "vmSocketPath \<in> boot_files" by (simp add: boot_files_def)
  then show "keeps (untouched boot_files) startStatusListener" "keeps same_faults startStatusListener"
    unfolding startStatusListener_def
    by (intro untouched.keeps_rules keeps_intros l; auto intro!: untouched.keeps_rules keeps_intros split: sum.split)
       (intro same_faults.keeps_rules keeps_intros listen_unix_world;
        auto intro!: same_faults.keeps_rules keeps_intros split: sum.split)
qed

lemma verifyDisk_world: "keeps (untouched A) (verifyDisk h)" "keeps same_faults (verifyDisk h)"
  unfolding verifyDisk_def
  by (intro untouched.keeps_rules at_path_reads; auto intro!: untouched.keeps_rules split: sum.split)
     (intro same_faults.keeps_rules at_path_reads; auto intro!: same_faults.keeps_rules split: sum.split)

lemma variableStore_world:
  assumes "quiet vz"
  shows "keeps (untouched boot_files) (variableStore vz)" "keeps same_faults (variableStore vz)"
  unfolding variableStore_def
  by (intro untouched.keeps_rules keeps_intros; auto intro!: quiet_vz_do [OF assms] split: sum.split)
     (intro same_faults.keeps_rules keeps_intros; auto intro!: quiet_vz_do [OF assms] split: sum.split)

text \<open>The log is empty once the console is attached.\<close>

lemma consoleDevice_world:
  assumes "quiet vz"
  shows "keeps (untouched boot_files) (consoleDevice vz)" "keeps same_faults (consoleDevice vz)"
proof -
  have t: "keeps (untouched boot_files) (os_Truncate consoleLogPath 0)"
    by (rule untouched_more [OF os_Truncate_world(1)]) (simp add: boot_files_def)
  show "keeps (untouched boot_files) (consoleDevice vz)" "keeps same_faults (consoleDevice vz)"
    unfolding consoleDevice_def
    by (rule untouched.keeps_attempt [OF t];
        auto intro!: untouched.keeps_throw untouched.keeps_andThen quiet_vz_do [OF assms])
       (rule same_faults.keeps_attempt [OF os_Truncate_world(2)];
        auto intro!: same_faults.keeps_throw same_faults.keeps_andThen quiet_vz_do [OF assms])
qed

lemma consoleDevice_fresh:
  assumes "quiet vz" and "no_faults w" and "consoleDevice vz w = (Inr u, w')"
  shows "console_fresh w'"
proof -
  obtain r w1 where t: "os_Truncate consoleLogPath 0 w = (r, w1)" by (cases "os_Truncate consoleLogPath 0 w")
  let ?rest = "andThen (vz_do vz ''create console log attachment'' (NewFileSerialPortAttachment consoleLogPath)) (\<lambda>_.
    vz_do vz ''create serial port'' NewVirtioConsoleDeviceSerialPort)"
  have ok: "\<not> (case r of Inl err \<Rightarrow> \<not> os_IsNotExist err | Inr _ \<Rightarrow> False)" and rest: "?rest w1 = (Inr u, w')"
    using assms(3) by (auto simp: consoleDevice_def attempt_def t throw_def split: if_splits)
  have "console_fresh w1"
    using t ok assms(2)
    by (auto simp: os_Truncate_def console_fresh_def file_Truncate_def split: option.splits node.splits)
  moreover have "keeps console_kept ?rest"
    by (intro console_kept.keeps_andThen quiet_vz_do [OF assms(1)])
  from keepsD_eq [OF this rest] have "console_kept w1 w'" .
  ultimately show ?thesis by (simp add: console_kept_def)
qed

lemma attachDisk_world:
  assumes "quiet vz"
  shows "keeps console_kept (attachDisk vz a d p)" "attachDisk vz a d p w = (Inr q, w') \<Longrightarrow> q = p"
  unfolding attachDisk_def
  by (intro console_kept.keeps_andThen console_kept.keeps_ret quiet_vz_do [OF assms])
     (auto elim!: andThen_InrE simp: ret_def)

lemma os_reads_console: "keeps console_kept (at_path wd p os_Stat)" "keeps console_kept (os_Stat p)"
  by (auto intro!: untouched_console [where A = "{}"] at_path_reads keeps_intros)

lemma dataDisk_result:
  assumes "dataDisk vz h w = (Inr ds, w')"
  shows "ds = [] \<or> (\<exists>d. filepath_Abs (os_Getwd h) dataDiskPath = Inr d \<and> ds = [d])"
  using assms
  by (auto simp: dataDisk_def attempt_def ret_def attachDisk_def elim!: andThen_InrE split: sum.splits prod.splits)

lemma dataDisk_attached:
  assumes "dataDisk vz h w = (Inr ds, w')" and "no_faults w" and "abs_dir (host_wd h)" and "host_wdErr h = None"
  shows "ds = (if files w dataDiskPath = None then [] else [filepath_Join [host_wd h, dataDiskPath]])"
proof -
  have own: "own_path dataDiskPath" "\<not> is_rooted dataDiskPath" by code_simp+
  let ?d = "filepath_Join [host_wd h, dataDiskPath]"
  have abs: "filepath_Abs (os_Getwd h) dataDiskPath = Inr ?d"
    using own(2) assms(4) by (simp add: filepath_Abs_def os_Getwd_def)
  have stat: "at_path (host_wd h) ?d os_Stat w =
      (case files w dataDiskPath of None \<Rightarrow> Inl (PathError ''stat'' ?d ENOENT) | Some n \<Rightarrow> Inr n, called w)"
    using assms(2) by (simp add: at_path_def local_own [OF assms(3) own(1)] onErr_def os_Stat_def split: option.split)
  show ?thesis
    using assms(1) by (auto simp: dataDisk_def abs attempt_def stat ret_def attachDisk_def
        elim!: andThen_InrE split: option.splits)
qed

lemma dataDisk_console: "quiet vz \<Longrightarrow> keeps console_kept (dataDisk vz h)"
  unfolding dataDisk_def
  by (auto split: sum.split intro!: console_kept.keeps_ret console_kept.keeps_attempt console_kept.keeps_andThen
      os_reads_console attachDisk_world)

lemma devices_console:
  assumes "quiet vz"
  shows "keeps console_kept (networkDevice vz)" "keeps console_kept (sharedDevice vz h)"
    "keeps console_kept (newMachine vz n m ds p)"
proof -
  have "keeps (untouched (tree ''vm-shared'')) (os_MkdirAll sharedDirName)"
    by (rule untouched_MkdirAll) (simp add: own_names dir_prefixes_def path_parts_def is_rooted_def has_prefix_def
        tree_def below_def)
  moreover have "consoleLogPath \<notin> tree ''vm-shared''" by (simp add: tree_def, code_simp)
  ultimately have m: "keeps console_kept (os_MkdirAll sharedDirName)" by (rule untouched_console)
  show "keeps console_kept (networkDevice vz)" "keeps console_kept (sharedDevice vz h)"
    "keeps console_kept (newMachine vz n m ds p)"
    unfolding networkDevice_def sharedDevice_def newMachine_def Let_def
    by (auto intro!: console_kept.keeps_ret console_kept.keeps_andThen console_kept.keeps_attempt
        console_kept.keeps_onErr console_kept.keeps_lift console_kept.keeps_throw os_reads_console m
        quiet_vz_do [OF assms] split: option.split)
qed

text \<open>The configuration step by step.\<close>

lemma configureVM_parts:
  assumes "configureVM vz h n m w = (Inr cfg, w')"
  obtains disk ds shared w1 w2 w3 w4 w5 w6 w7 w8 where "verifyDisk h w = (Inr disk, w1)"
    and "variableStore vz w1 = (Inr (), w2)" and "vz_do vz ''create EFI bootloader'' NewEFIBootLoader w2 = (Inr (), w3)"
    and "consoleDevice vz w3 = (Inr (), w4)" and "dataDisk vz h w4 = (Inr ds, w5)"
    and "attachDisk vz ''create boot disk attachment'' ''create storage device config'' disk w5 = (Inr disk, w6)"
    and "networkDevice vz w6 = (Inr (), w7)" and "sharedDevice vz h w7 = (Inr shared, w8)"
    and "newMachine vz n m (ds @ [disk]) shared w8 = (Inr cfg, w')"
proof -
  have "attachDisk vz a b p v = (Inr q, v') \<Longrightarrow> q = p" for a b p v q v'
    unfolding attachDisk_def by (auto elim!: andThen_InrE simp: ret_def)
  then show thesis using assms that unfolding configureVM_def by (elim andThen_InrE) (metis (full_types) unit.exhaust)
qed

lemma newMachine_ok:
  assumes "newMachine vz n m ds p w = (Inr cfg, w')"
  shows "cfg = \<lparr>cfg_variableStore = efiVariableStorePath, cfg_cpus = cpu_word n,
       cfg_memory = memory_word m, cfg_serialPorts = [consoleLogPath], cfg_storage = ds,
       cfg_networks = 1, cfg_entropy = 1, cfg_shares = [(''hostshare'', p)]\<rparr> \<and> vz_validate vz cfg = Inr True"
  using assms by (auto simp: newMachine_def Let_def ret_def throw_def lift_def elim!: andThen_InrE
      split: if_splits option.splits)

lemma verifyDisk_ok: "verifyDisk h w = (Inr d, w') \<Longrightarrow> filepath_Abs (os_Getwd h) diskName = Inr d"
  by (auto simp: verifyDisk_def attempt_def ret_def throw_def lift_def elim!: andThen_InrE
      split: prod.splits sum.splits)

lemma sharedDevice_ok: "sharedDevice vz h w = (Inr d, w') \<Longrightarrow> filepath_Abs (os_Getwd h) sharedDirName = Inr d"
  by (auto simp: sharedDevice_def ret_def lift_def elim!: andThen_InrE)

lemma memory_word_bytes: "unat (memory_word m) = m * 2 ^ 20 mod 2 ^ 64"
proof -
  have "memory_word m = (of_nat (m * 2 ^ 20) :: 64 word)" by (simp add: memory_word_def mult.assoc)
  then show ?thesis by (simp only: unat_of_nat) simp
qed

text \<open>In a framework that keeps to its files: the data disk is attached when it is there, and the console log
  is empty before the machine starts.\<close>

lemma configureVM_quiet:
  assumes "configureVM vz h n m w = (Inr cfg, w')" and "quiet vz" and "no_faults w" and "abs_dir (host_wd h)"
    and "host_wdErr h = None"
  shows "cfg_storage cfg = (if files w dataDiskPath = None then [] else [filepath_Join [host_wd h, dataDiskPath]]) @
      [filepath_Join [host_wd h, diskName]]" and "console_fresh w'"
proof -
  from assms(1) obtain disk ds shared w1 w2 w3 w4 w5 w6 w7 w8 where v: "verifyDisk h w = (Inr disk, w1)"
    and s: "variableStore vz w1 = (Inr (), w2)" "vz_do vz ''create EFI bootloader'' NewEFIBootLoader w2 = (Inr (), w3)"
    and c: "consoleDevice vz w3 = (Inr (), w4)" and d: "dataDisk vz h w4 = (Inr ds, w5)"
    and a: "attachDisk vz ''create boot disk attachment'' ''create storage device config'' disk w5 = (Inr disk, w6)"
    and n: "networkDevice vz w6 = (Inr (), w7)" "sharedDevice vz h w7 = (Inr shared, w8)"
    and m: "newMachine vz n m (ds @ [disk]) shared w8 = (Inr cfg, w')"
    by (rule configureVM_parts)
  note u = keepsD_eq [OF verifyDisk_world(1) v, of boot_files] keepsD_eq [OF variableStore_world(1) s(1), OF assms(2)]
    keepsD_eq [OF quiet_vz_do(1) s(2), OF assms(2)] keepsD_eq [OF consoleDevice_world(1) c, OF assms(2)]
  note f = keepsD_eq [OF verifyDisk_world(2) v] keepsD_eq [OF variableStore_world(2) s(1), OF assms(2)]
    keepsD_eq [OF quiet_vz_do(2) s(2), OF assms(2)] keepsD_eq [OF consoleDevice_world(2) c, OF assms(2)]
  have nf: "no_faults w3" "no_faults w4" using f assms(3) by (simp_all add: same_faults_def no_faults_def)
  have "dataDiskPath \<notin> boot_files" by (simp add: boot_files_def own_names)
  then have data: "files w4 dataDiskPath = files w dataDiskPath" using u by (simp add: untouched_def)
  have "disk = filepath_Join [host_wd h, diskName]"
    using verifyDisk_ok [OF v] assms(5) by (auto simp: filepath_Abs_def os_Getwd_def own_names is_rooted_def has_prefix_def)
  then show "cfg_storage cfg = (if files w dataDiskPath = None then [] else [filepath_Join [host_wd h, dataDiskPath]]) @
      [filepath_Join [host_wd h, diskName]]"
    using newMachine_ok [OF m] dataDisk_attached [OF d nf(2) assms(4,5)] data by simp
  have "console_fresh w4" by (rule consoleDevice_fresh [OF assms(2) nf(1) c])
  then show "console_fresh w'"
    using keepsD_eq [OF dataDisk_console [OF assms(2)] d] keepsD_eq [OF attachDisk_world(1) [OF assms(2)] a]
      keepsD_eq [OF devices_console(1) [OF assms(2)] n(1)] keepsD_eq [OF devices_console(2) [OF assms(2)] n(2)]
      keepsD_eq [OF devices_console(3) [OF assms(2)] m] by (simp add: console_kept_def)
qed

lemma bootDaemon_parts:
  assumes "bootDaemon vz h pid cpu ram enc w = (Inr s, w')"
  obtains n m w1 w2 w3 where "loadRuntimeConfig w = (Inr (setup_config s), w1)"
    and "parseForwardSpecs enc = Inr (setup_forwards s)" and "startStatusListener w1 = (Inr (), w2)"
    and "atoi cpu = Inr n" and "parse_uint ram = Inr m" and "configureVM vz h n m w2 = (Inr (setup_vm s), w3)"
    and "w' = snd (os_WriteFile ''vm.pid'' (itoa pid) 420 w3)"
  using assms unfolding bootDaemon_def
  by (elim andThen_InrE) (auto simp: lift_def attempt_def ret_def split: prod.splits)

section \<open>Claims\<close>


text \<open>A framework that succeeds and writes nothing.\<close>

definition willing :: "'z vz_lib" where
  "willing = \<lparr>vz_make = (\<lambda>_. ret ()), vz_validate = (\<lambda>_. Inr True), vz_newMachine = (\<lambda>_. None)\<rparr>"

definition installed_vm :: world where
  "installed_vm = (disk_world 0)\<lparr>faults := (\<lambda>_. None), files := [''vm'' \<mapsto> Dir, ''vm-shared'' \<mapsto> Dir,
     ''vm/disk.img'' \<mapsto> File ''efi'' 3 420, ''vm/data.img'' \<mapsto> File ''ext4'' 4 420,
     ''vm-console.log'' \<mapsto> File sample_console (int (length sample_console)) 420]\<rparr>"


end
