(* ===== verification/Forwarder_Machine.thy ===== *)
theory Forwarder_Machine
  imports Prelude
begin

text \<open>
  The goroutines behind one forward (\<open>acceptLoop\<close>, \<open>proxyConnection\<close> and \<open>Close\<close> of
  \<open>launcher/mac/forwarding.go\<close>) as an interleaving of steps. The data they copy is left out; what is
  kept is which goroutine is where, which ends of each connection are open, the cancelled context, and
  the wait group that \<open>Close\<close> waits for.
\<close>

section \<open>State\<close>

text \<open>Where \<open>proxyConnection\<close> is: dialling the guest, copying (is the copy towards the guest still running,
  is the copy towards the client), or returned.\<close>

datatype proxy_pc = Dialing | Copying bool bool | Finished

record proxy =
  px_pc :: proxy_pc
  px_client :: bool   \<comment> \<open>\<open>clientConn\<close> is open\<close>
  px_guest :: bool    \<comment> \<open>\<open>guestConn\<close> is open\<close>

text \<open>How far \<open>Close\<close> is: not called, context cancelled, listener closed (it waits for the group), returned.\<close>

datatype close_pc = Not_called | Ctx_cancelled | Waiting | Close_returned

record forwarder_state =
  fs_accepting :: bool   \<comment> \<open>\<open>acceptLoop\<close> has not returned\<close>
  fs_close :: close_pc
  fs_wg :: nat
  fs_proxies :: "proxy list"

definition cancelled :: "forwarder_state \<Rightarrow> bool" where
  "cancelled s \<longleftrightarrow> fs_close s \<noteq> Not_called"

definition listening :: "forwarder_state \<Rightarrow> bool" where
  "listening s \<longleftrightarrow> fs_close s = Not_called \<or> fs_close s = Ctx_cancelled"

text \<open>After \<open>startForwarder\<close>: \<open>wg.Add(1)\<close> for the accept loop.\<close>

definition fresh_forwarder :: forwarder_state where
  "fresh_forwarder = \<lparr>fs_accepting = True, fs_close = Not_called, fs_wg = 1, fs_proxies = []\<rparr>"

section \<open>Steps\<close>

definition set_proxy :: "nat \<Rightarrow> proxy \<Rightarrow> forwarder_state \<Rightarrow> forwarder_state" where
  "set_proxy i p s = s\<lparr>fs_proxies := (fs_proxies s)[i := p]\<rparr>"

text \<open>The deferred calls of \<open>proxyConnection\<close>: both connections are closed and \<open>wg.Done()\<close> runs.\<close>

definition finish_proxy :: "nat \<Rightarrow> forwarder_state \<Rightarrow> forwarder_state" where
  "finish_proxy i s = (set_proxy i \<lparr>px_pc = Finished, px_client = False, px_guest = False\<rparr> s)\<lparr>fs_wg := fs_wg s - 1\<rparr>"

inductive forwarder_step :: "forwarder_state \<Rightarrow> forwarder_state \<Rightarrow> bool" where
  accept: "fs_accepting s \<Longrightarrow> listening s \<Longrightarrow>
     forwarder_step s (s\<lparr>fs_wg := fs_wg s + 1,
       fs_proxies := fs_proxies s @ [\<lparr>px_pc = Dialing, px_client = True, px_guest = False\<rparr>]\<rparr>)"
| accept_error: "fs_accepting s \<Longrightarrow> listening s \<Longrightarrow> forwarder_step s s"
| accept_closed: "fs_accepting s \<Longrightarrow> \<not> listening s \<Longrightarrow>
     forwarder_step s (s\<lparr>fs_accepting := False, fs_wg := fs_wg s - 1\<rparr>)"
| dial_failed: "i < length (fs_proxies s) \<Longrightarrow> px_pc (fs_proxies s ! i) = Dialing \<Longrightarrow>
     forwarder_step s (finish_proxy i s)"
| dialed: "i < length (fs_proxies s) \<Longrightarrow> px_pc (fs_proxies s ! i) = Dialing \<Longrightarrow>
     forwarder_step s (set_proxy i ((fs_proxies s ! i)\<lparr>px_pc := Copying True True, px_guest := True\<rparr>) s)"
| stop_client: "i < length (fs_proxies s) \<Longrightarrow> cancelled s \<Longrightarrow> px_pc (fs_proxies s ! i) \<noteq> Finished \<Longrightarrow>
     forwarder_step s (set_proxy i ((fs_proxies s ! i)\<lparr>px_client := False\<rparr>) s)"
| stop_guest: "i < length (fs_proxies s) \<Longrightarrow> cancelled s \<Longrightarrow> px_pc (fs_proxies s ! i) = Copying u d \<Longrightarrow>
     forwarder_step s (set_proxy i ((fs_proxies s ! i)\<lparr>px_guest := False\<rparr>) s)"
| to_guest_ended: "i < length (fs_proxies s) \<Longrightarrow> px_pc (fs_proxies s ! i) = Copying True d \<Longrightarrow>
     forwarder_step s (set_proxy i ((fs_proxies s ! i)\<lparr>px_pc := Copying False d, px_guest := False\<rparr>) s)"
| to_client_ended: "i < length (fs_proxies s) \<Longrightarrow> px_pc (fs_proxies s ! i) = Copying u True \<Longrightarrow>
     forwarder_step s (set_proxy i ((fs_proxies s ! i)\<lparr>px_pc := Copying u False, px_client := False\<rparr>) s)"
| copied: "i < length (fs_proxies s) \<Longrightarrow> px_pc (fs_proxies s ! i) = Copying False False \<Longrightarrow>
     forwarder_step s (finish_proxy i s)"
| cancel: "fs_close s = Not_called \<Longrightarrow> forwarder_step s (s\<lparr>fs_close := Ctx_cancelled\<rparr>)"
| close_listener: "fs_close s = Ctx_cancelled \<Longrightarrow> forwarder_step s (s\<lparr>fs_close := Waiting\<rparr>)"
| waited: "fs_close s = Waiting \<Longrightarrow> fs_wg s = 0 \<Longrightarrow> forwarder_step s (s\<lparr>fs_close := Close_returned\<rparr>)"

inductive_cases forwarder_stepE: "forwarder_step s s'"

abbreviation forwarder_reachable :: "forwarder_state \<Rightarrow> bool" where
  "forwarder_reachable s \<equiv> forwarder_step\<^sup>*\<^sup>* fresh_forwarder s"

section \<open>What holds at every moment\<close>

definition proxy_ok :: "proxy \<Rightarrow> bool" where
  "proxy_ok p \<longleftrightarrow> (case px_pc p of
     Dialing \<Rightarrow> \<not> px_guest p
   | Copying u d \<Rightarrow> (u \<or> \<not> px_guest p) \<and> (d \<or> \<not> px_client p)
   | Finished \<Rightarrow> \<not> px_guest p \<and> \<not> px_client p)"

definition working :: "proxy \<Rightarrow> bool" where
  "working p \<longleftrightarrow> px_pc p \<noteq> Finished"

definition forwarder_inv :: "forwarder_state \<Rightarrow> bool" where
  "forwarder_inv s \<longleftrightarrow> fs_wg s = (if fs_accepting s then 1 else 0) + length (filter working (fs_proxies s)) \<and>
     list_all proxy_ok (fs_proxies s) \<and> (fs_accepting s \<or> \<not> listening s) \<and>
     (fs_close s = Close_returned \<longrightarrow> fs_wg s = 0)"

lemma count_update:
  assumes "i < length xs"
  shows "length (filter P (xs[i := y])) + (if P (xs ! i) then 1 else 0) =
    length (filter P xs) + (if P y then 1 else 0)"
  using assms
proof (induction xs arbitrary: i)
  case (Cons x xs)
  then show ?case by (cases i) auto
qed simp

lemma list_all_update: "list_all P xs \<Longrightarrow> P y \<Longrightarrow> list_all P (xs[i := y])"
  by (auto simp: list_all_iff dest: set_update_subset_insert [THEN subsetD])

lemma set_proxy_inv:
  assumes inv: "forwarder_inv s" and i: "i < length (fs_proxies s)" and "working (fs_proxies s ! i)"
    and "working p" and "proxy_ok p"
  shows "forwarder_inv (set_proxy i p s)"
  using assms count_update [OF i, of working p]
  by (auto simp: forwarder_inv_def set_proxy_def listening_def intro!: list_all_update)

lemma finish_proxy_inv:
  assumes inv: "forwarder_inv s" and i: "i < length (fs_proxies s)" and "working (fs_proxies s ! i)"
  shows "forwarder_inv (finish_proxy i s)"
  using assms count_update [OF i, of working "\<lparr>px_pc = Finished, px_client = False, px_guest = False\<rparr>"]
  by (auto simp: forwarder_inv_def finish_proxy_def set_proxy_def listening_def proxy_ok_def working_def
      intro!: list_all_update)

lemma proxy_ok_nth: "forwarder_inv s \<Longrightarrow> i < length (fs_proxies s) \<Longrightarrow> proxy_ok (fs_proxies s ! i)"
  by (simp add: forwarder_inv_def list_all_length)

lemma forwarder_inv_step:
  assumes "forwarder_step s s'" and "forwarder_inv s"
  shows "forwarder_inv s'"
  using assms
proof (cases rule: forwarder_step.cases)
  case (accept)
  then show ?thesis using assms(2) by (auto simp: forwarder_inv_def listening_def working_def proxy_ok_def)
next
  case (accept_closed)
  then show ?thesis using assms(2) by (auto simp: forwarder_inv_def listening_def)
next
  case (dial_failed i)
  then show ?thesis using finish_proxy_inv [OF assms(2)] by (simp add: working_def)
next
  case (dialed i)
  then show ?thesis
    using set_proxy_inv [OF assms(2)] proxy_ok_nth [OF assms(2)] by (simp add: working_def proxy_ok_def)
next
  case (stop_client i)
  then show ?thesis
    using set_proxy_inv [OF assms(2)] proxy_ok_nth [OF assms(2), of i]
    by (simp add: working_def proxy_ok_def split: proxy_pc.splits)
next
  case (stop_guest i u d)
  then show ?thesis
    using set_proxy_inv [OF assms(2)] proxy_ok_nth [OF assms(2), of i] by (simp add: working_def proxy_ok_def)
next
  case (to_guest_ended i d)
  then show ?thesis
    using set_proxy_inv [OF assms(2)] proxy_ok_nth [OF assms(2), of i] by (simp add: working_def proxy_ok_def)
next
  case (to_client_ended i u)
  then show ?thesis
    using set_proxy_inv [OF assms(2)] proxy_ok_nth [OF assms(2), of i] by (simp add: working_def proxy_ok_def)
next
  case (copied i)
  then show ?thesis using finish_proxy_inv [OF assms(2)] by (simp add: working_def)
qed (use assms(2) in \<open>auto simp: forwarder_inv_def listening_def\<close>)

interpretation machine: invariant forwarder_step forwarder_inv
  by unfold_locales (rule forwarder_inv_step)

lemma forwarder_inv_reachable: "forwarder_reachable s \<Longrightarrow> forwarder_inv s"
  by (erule machine.steps_inv) (simp add: forwarder_inv_def fresh_forwarder_def listening_def)

section \<open>Close makes progress\<close>

text \<open>
  The steps that have to come once \<open>Close\<close> runs: it goes on itself; the accept loop sees the closed listener;
  a dial with a cancelled context fails; the cancellation closes what is open; a copy whose source is closed
  returns; a proxy whose copies have returned returns. None of them waits for a client or the guest.
\<close>

inductive must_step :: "forwarder_state \<Rightarrow> forwarder_state \<Rightarrow> bool" where
  "fs_close s = Ctx_cancelled \<Longrightarrow> must_step s (s\<lparr>fs_close := Waiting\<rparr>)"
| "fs_close s = Waiting \<Longrightarrow> fs_wg s = 0 \<Longrightarrow> must_step s (s\<lparr>fs_close := Close_returned\<rparr>)"
| "fs_accepting s \<Longrightarrow> \<not> listening s \<Longrightarrow> must_step s (s\<lparr>fs_accepting := False, fs_wg := fs_wg s - 1\<rparr>)"
| "i < length (fs_proxies s) \<Longrightarrow> cancelled s \<Longrightarrow> px_pc (fs_proxies s ! i) = Dialing \<Longrightarrow>
     must_step s (finish_proxy i s)"
| "i < length (fs_proxies s) \<Longrightarrow> cancelled s \<Longrightarrow> px_pc (fs_proxies s ! i) = Copying u d \<Longrightarrow>
     px_client (fs_proxies s ! i) \<Longrightarrow> must_step s (set_proxy i ((fs_proxies s ! i)\<lparr>px_client := False\<rparr>) s)"
| "i < length (fs_proxies s) \<Longrightarrow> cancelled s \<Longrightarrow> px_pc (fs_proxies s ! i) = Copying u d \<Longrightarrow>
     px_guest (fs_proxies s ! i) \<Longrightarrow> must_step s (set_proxy i ((fs_proxies s ! i)\<lparr>px_guest := False\<rparr>) s)"
| "i < length (fs_proxies s) \<Longrightarrow> px_pc (fs_proxies s ! i) = Copying True d \<Longrightarrow> \<not> px_client (fs_proxies s ! i) \<Longrightarrow>
     must_step s (set_proxy i ((fs_proxies s ! i)\<lparr>px_pc := Copying False d, px_guest := False\<rparr>) s)"
| "i < length (fs_proxies s) \<Longrightarrow> px_pc (fs_proxies s ! i) = Copying u True \<Longrightarrow> \<not> px_guest (fs_proxies s ! i) \<Longrightarrow>
     must_step s (set_proxy i ((fs_proxies s ! i)\<lparr>px_pc := Copying u False, px_client := False\<rparr>) s)"
| "i < length (fs_proxies s) \<Longrightarrow> px_pc (fs_proxies s ! i) = Copying False False \<Longrightarrow>
     must_step s (finish_proxy i s)"

lemma must_step_is_step: "must_step s s' \<Longrightarrow> forwarder_step s s'"
proof (induction rule: must_step.induct)
  case (3 s)
  then show ?case by (rule accept_closed)
qed (auto intro: forwarder_step.intros)

definition proxy_work :: "proxy \<Rightarrow> nat" where
  "proxy_work p = (case px_pc p of
     Finished \<Rightarrow> 0
   | Dialing \<Rightarrow> 1
   | Copying u d \<Rightarrow> 1 + of_bool u + of_bool d + of_bool (px_client p) + of_bool (px_guest p))"

definition close_work :: "close_pc \<Rightarrow> nat" where
  "close_work c = (case c of Not_called \<Rightarrow> 3 | Ctx_cancelled \<Rightarrow> 2 | Waiting \<Rightarrow> 1 | Close_returned \<Rightarrow> 0)"

definition work_left :: "forwarder_state \<Rightarrow> nat" where
  "work_left s = close_work (fs_close s) + of_bool (fs_accepting s) + sum_list (map proxy_work (fs_proxies s))"

lemma sum_list_less:
  "i < length xs \<Longrightarrow> f y < f (xs ! i) \<Longrightarrow> sum_list (map f (xs[i := y])) < (sum_list (map f xs) :: nat)"
proof (induction xs arbitrary: i)
  case (Cons x xs)
  then show ?case by (cases i) auto
qed simp

lemma set_proxy_work:
  "i < length (fs_proxies s) \<Longrightarrow> proxy_work p < proxy_work (fs_proxies s ! i) \<Longrightarrow>
     work_left (set_proxy i p s) < work_left s"
  by (simp add: work_left_def set_proxy_def sum_list_less)

lemma finish_proxy_work:
  assumes "i < length (fs_proxies s)" and "working (fs_proxies s ! i)"
  shows "work_left (finish_proxy i s) < work_left s"
proof -
  have "0 < proxy_work (fs_proxies s ! i)" using assms(2) by (auto simp: working_def proxy_work_def split: proxy_pc.split)
  then show ?thesis
    using assms(1) by (simp add: work_left_def finish_proxy_def set_proxy_def sum_list_less proxy_work_def [of "\<lparr>px_pc = Finished, px_client = False, px_guest = False\<rparr>"])
qed

lemma must_step_work: "must_step s s' \<Longrightarrow> work_left s' < work_left s"
proof (induction rule: must_step.induct)
  case (4 i s)
  then show ?case using finish_proxy_work by (simp add: working_def)
next
  case (9 i s)
  then show ?case using finish_proxy_work by (simp add: working_def)
qed (simp add: work_left_def close_work_def; fail
   | rule set_proxy_work, assumption, simp add: proxy_work_def)+

lemma must_step_exists:
  assumes inv: "forwarder_inv s" and "cancelled s" and "fs_close s \<noteq> Close_returned"
  shows "\<exists>s'. must_step s s'"
proof (cases "fs_close s")
  case Waiting
  show ?thesis
  proof (cases "fs_wg s = 0")
    case False
    then consider "fs_accepting s" | p where "p \<in> set (fs_proxies s)" "working p"
      using inv by (auto simp: forwarder_inv_def filter_empty_conv split: if_splits)
    then show ?thesis
    proof cases
      case 1
      then show ?thesis using Waiting must_step.intros(3) [of s] by (auto simp: listening_def)
    next
      case (2 p)
      then obtain i where i: "i < length (fs_proxies s)" "fs_proxies s ! i = p" by (auto simp: in_set_conv_nth)
      show ?thesis
      proof (cases "px_pc p")
        case Dialing
        then show ?thesis using must_step.intros(4) [OF i(1) assms(2)] i(2) by auto
      next
        case (Copying u d)
        then have pc: "px_pc (fs_proxies s ! i) = Copying u d" using i(2) by simp
        show ?thesis
        proof (cases "px_client p \<or> px_guest p")
          case True
          then show ?thesis
            using must_step.intros(5) [OF i(1) assms(2) pc] must_step.intros(6) [OF i(1) assms(2) pc] i(2) by auto
        next
          case False
          then show ?thesis
            using must_step.intros(7) [OF i(1), of d] must_step.intros(8) [OF i(1), of u]
              must_step.intros(9) [OF i(1)] pc i(2) by (cases u; cases d) auto
        qed
      next
        case Finished
        then show ?thesis using 2 by (simp add: working_def)
      qed
    qed
  qed (use Waiting must_step.intros(2) [of s] in auto)
qed (use assms(2,3) must_step.intros(1) [of s] in \<open>auto simp: cancelled_def\<close>)

lemma must_step_cancelled: "must_step s s' \<Longrightarrow> cancelled s \<Longrightarrow> cancelled s'"
  by (induction rule: must_step.induct) (auto simp: cancelled_def set_proxy_def finish_proxy_def)

interpretation closing: progress must_step "\<lambda>s. forwarder_inv s \<and> cancelled s" "\<lambda>s. fs_close s = Close_returned" work_left
  by unfold_locales
     (auto intro: forwarder_inv_step must_step_is_step must_step_cancelled must_step_work must_step_exists)

text \<open>A connection is accepted and dialled, then \<open>Close\<close> runs to its end.\<close>

definition closed_run :: "forwarder_state list" where
  "closed_run = (let copying = \<lparr>px_pc = Copying True True, px_client = True, px_guest = True\<rparr>;
       up_done = \<lparr>px_pc = Copying False True, px_client = True, px_guest = False\<rparr>;
       both_done = \<lparr>px_pc = Copying False False, px_client = False, px_guest = False\<rparr>;
       gone = \<lparr>px_pc = Finished, px_client = False, px_guest = False\<rparr>;
       st = (\<lambda>a c n p. \<lparr>fs_accepting = a, fs_close = c, fs_wg = n, fs_proxies = [p]\<rparr>) in
     [fresh_forwarder, st True Not_called 2 \<lparr>px_pc = Dialing, px_client = True, px_guest = False\<rparr>,
      st True Not_called 2 copying, st True Ctx_cancelled 2 copying, st True Waiting 2 copying,
      st False Waiting 1 copying, st False Waiting 1 up_done, st False Waiting 1 both_done,
      st False Waiting 0 gone, st False Close_returned 0 gone])"

lemma closed_run_steps: "successively forwarder_step closed_run \<and> hd closed_run = fresh_forwarder"
  unfolding closed_run_def Let_def fresh_forwarder_def
  by (auto simp: forwarder_step.simps cancelled_def listening_def set_proxy_def finish_proxy_def)

lemma successively_reaches: "successively R (x # xs) \<Longrightarrow> R\<^sup>*\<^sup>* x (last (x # xs))"
  by (induction xs arbitrary: x) (auto intro: converse_rtranclp_into_rtranclp)

lemma successively_take: "successively R xs \<Longrightarrow> successively R (take n xs)"
  by (metis append_take_drop_id successively_append_iff)

lemma closed_run_reachable:
  "forwarder_step\<^sup>*\<^sup>* fresh_forwarder (closed_run ! 3)" "forwarder_step\<^sup>*\<^sup>* fresh_forwarder (last closed_run)"
proof -
  obtain x xs where c: "closed_run = x # xs" "x = fresh_forwarder"
    using closed_run_steps by (cases closed_run) (auto simp: closed_run_def Let_def)
  show "forwarder_step\<^sup>*\<^sup>* fresh_forwarder (last closed_run)"
    using successively_reaches [of forwarder_step x xs] closed_run_steps unfolding c by simp
  have "successively forwarder_step (take 4 closed_run)" using closed_run_steps successively_take by blast
  then have "successively forwarder_step (x # take 3 xs)" by (simp add: c(1))
  moreover have "last (x # take 3 xs) = closed_run ! 3" using c(1) by (auto simp: closed_run_def Let_def)
  ultimately show "forwarder_step\<^sup>*\<^sup>* fresh_forwarder (closed_run ! 3)"
    using successively_reaches [of forwarder_step x "take 3 xs"] c(2) by simp
qed

section \<open>Claims\<close>

text \<open>C20: When \<open>Close\<close> has returned nothing of the forward is left, in every interleaving of its goroutines: the
  accept loop and all proxies have returned, both ends of every connection are closed, and no connection
  can be accepted any more; before that, the wait group counts exactly the goroutines still running.\<close>

theorem close_leaves_nothing:
  assumes "forwarder_step\<^sup>*\<^sup>* fresh_forwarder s"
  shows "fs_wg s = (if fs_accepting s then 1 else 0) + length (filter (\<lambda>p. px_pc p \<noteq> Finished) (fs_proxies s)) \<and>
    (fs_close s = Close_returned \<longrightarrow> \<not> fs_accepting s \<and> \<not> listening s \<and>
       (\<forall>p \<in> set (fs_proxies s). px_pc p = Finished \<and> \<not> px_client p \<and> \<not> px_guest p))"
proof -
  have inv: "forwarder_inv s" by (rule forwarder_inv_reachable [OF assms])
  then have count: "fs_wg s = (if fs_accepting s then 1 else 0) + length (filter (\<lambda>p. px_pc p \<noteq> Finished) (fs_proxies s))"
    by (simp add: forwarder_inv_def working_def [abs_def])
  show ?thesis
    using inv count by (auto simp: forwarder_inv_def listening_def list_all_iff proxy_ok_def filter_empty_conv
        split: if_splits)
qed

lemma close_leaves_nothing_witness:
  "fs_proxies (last closed_run) = [\<lparr>px_pc = Finished, px_client = False, px_guest = False\<rparr>] \<and>
   fs_close (last closed_run) = Close_returned \<and> \<not> fs_accepting (last closed_run)"
proof -
  have "fs_close (last closed_run) = Close_returned" by code_simp
  moreover have "fs_proxies (last closed_run) = [\<lparr>px_pc = Finished, px_client = False, px_guest = False\<rparr>]" by code_simp
  ultimately show ?thesis using close_leaves_nothing [OF closed_run_reachable(2)] by simp
qed

text \<open>C21: Once called, \<open>Close\<close> returns: from every reachable state the goroutines' own forced steps, which no client
  and no guest can hold up, lead to its return; there is no state in which they are stuck before, and
  their number is bounded by the work left, so that no scheduling of them goes on for ever.\<close>

theorem close_always_returns:
  assumes "forwarder_step\<^sup>*\<^sup>* fresh_forwarder s" and "fs_close s \<noteq> Not_called"
  shows "(\<exists>s'. must_step\<^sup>*\<^sup>* s s' \<and> fs_close s' = Close_returned) \<and>
    (\<forall>s'. must_step\<^sup>*\<^sup>* s s' \<longrightarrow> fs_close s' = Close_returned \<or> (\<exists>s''. must_step s' s'')) \<and>
    (\<forall>n s'. (must_step ^^ n) s s' \<longrightarrow> n \<le> work_left s)"
proof -
  have "forwarder_inv s \<and> cancelled s"
    using forwarder_inv_reachable [OF assms(1)] assms(2) by (simp add: cancelled_def)
  with closing.reaches_goal closing.never_stuck closing.steps_bounded show ?thesis by blast
qed

lemma close_always_returns_witness:
  "\<exists>s'. must_step\<^sup>*\<^sup>* (closed_run ! 3) s' \<and> fs_close s' = Close_returned"
proof -
  have "fs_close (closed_run ! 3) \<noteq> Not_called" by (simp add: closed_run_def Let_def)
  with close_always_returns [OF closed_run_reachable(1)] show ?thesis by blast
qed

end
