(* ===== verification/Proxy_Data.thy ===== *)
theory Proxy_Data
  imports Forwarder_Machine "HOL-Library.Sublist"
begin

text \<open>
  The bytes of one proxied connection (the two \<open>io.Copy\<close> loops of \<open>proxyConnection\<close> in
  \<open>launcher/mac/forwarding.go\<close>). Each direction is a stream from one peer to the other; the two loops and
  the peers take steps in any order. The abstraction of a connection is its entry in \<open>Forwarder_Machine\<close>.
\<close>

section \<open>One direction\<close>

text \<open>The copy loop: about to read, holding a chunk it has read, or returned, by the end of the stream or by
  an error.\<close>

datatype copy_pc = Reading | Writing string | Copied bool

text \<open>\<open>st_sent\<close> is all the source has sent, of which the loop has read \<open>st_read\<close> bytes; \<open>st_fin\<close> says that the
  source has closed its sending side; \<open>st_out\<close> is all that was written to the destination.\<close>

record stream =
  st_sent :: string
  st_fin :: bool
  st_read :: nat
  st_copy :: copy_pc
  st_out :: string

text \<open>Steps of a direction, given whether the connections it reads from and writes to are open on our
  side. A peer may reset its connection at any time, so that a read or a write fails; a write may
  fail after a part of the chunk.\<close>

inductive stream_step :: "bool \<Rightarrow> bool \<Rightarrow> stream \<Rightarrow> stream \<Rightarrow> bool" for source dest where
  peer_sends: "\<not> st_fin s \<Longrightarrow> stream_step source dest s (s\<lparr>st_sent := st_sent s @ bytes\<rparr>)"
| peer_ends: "stream_step source dest s (s\<lparr>st_fin := True\<rparr>)"
| read_chunk: "source \<Longrightarrow> st_copy s = Reading \<Longrightarrow> chunk \<noteq> [] \<Longrightarrow> drop (st_read s) (st_sent s) = chunk @ rest \<Longrightarrow>
     stream_step source dest s (s\<lparr>st_read := st_read s + length chunk, st_copy := Writing chunk\<rparr>)"
| read_eof: "source \<Longrightarrow> st_copy s = Reading \<Longrightarrow> st_fin s \<Longrightarrow> st_read s = length (st_sent s) \<Longrightarrow>
     stream_step source dest s (s\<lparr>st_copy := Copied True\<rparr>)"
| read_failed: "st_copy s = Reading \<Longrightarrow> stream_step source dest s (s\<lparr>st_copy := Copied False\<rparr>)"
| write_chunk: "dest \<Longrightarrow> st_copy s = Writing chunk \<Longrightarrow>
     stream_step source dest s (s\<lparr>st_out := st_out s @ chunk, st_copy := Reading\<rparr>)"
| write_failed: "st_copy s = Writing (written @ lost) \<Longrightarrow> dest \<or> written = [] \<Longrightarrow>
     stream_step source dest s (s\<lparr>st_out := st_out s @ written, st_copy := Copied False\<rparr>)"

inductive_cases stream_stepE: "stream_step source dest s s'"

section \<open>A connection\<close>

text \<open>\<open>lk_client\<close>, \<open>lk_guest\<close>: our ends of the two connections; \<open>lk_upDone\<close>, \<open>lk_downDone\<close>: the \<open>Close\<close> behind each copy
  loop has run.\<close>

record link =
  lk_up :: stream
  lk_down :: stream
  lk_upDone :: bool
  lk_downDone :: bool
  lk_client :: bool
  lk_guest :: bool

definition fresh_stream :: stream where
  "fresh_stream = \<lparr>st_sent = [], st_fin = False, st_read = 0, st_copy = Reading, st_out = []\<rparr>"

text \<open>A connection whose guest has just been dialled.\<close>

definition fresh_link :: link where
  "fresh_link = \<lparr>lk_up = fresh_stream, lk_down = fresh_stream, lk_upDone = False, lk_downDone = False,
     lk_client = True, lk_guest = True\<rparr>"

inductive link_step :: "bool \<Rightarrow> link \<Rightarrow> link \<Rightarrow> bool" for ctx_cancelled where
  up: "stream_step (lk_client l) (lk_guest l) (lk_up l) u \<Longrightarrow> link_step ctx_cancelled l (l\<lparr>lk_up := u\<rparr>)"
| down: "stream_step (lk_guest l) (lk_client l) (lk_down l) d \<Longrightarrow> link_step ctx_cancelled l (l\<lparr>lk_down := d\<rparr>)"
| up_close: "st_copy (lk_up l) = Copied clean \<Longrightarrow> \<not> lk_upDone l \<Longrightarrow>
     link_step ctx_cancelled l (l\<lparr>lk_upDone := True, lk_guest := False\<rparr>)"
| down_close: "st_copy (lk_down l) = Copied clean \<Longrightarrow> \<not> lk_downDone l \<Longrightarrow>
     link_step ctx_cancelled l (l\<lparr>lk_downDone := True, lk_client := False\<rparr>)"
| after_cancel_client: "ctx_cancelled \<Longrightarrow> link_step ctx_cancelled l (l\<lparr>lk_client := False\<rparr>)"
| after_cancel_guest: "ctx_cancelled \<Longrightarrow> link_step ctx_cancelled l (l\<lparr>lk_guest := False\<rparr>)"

inductive_cases link_stepE: "link_step c l l'"

text \<open>Any number of steps, with the forward open or being closed.\<close>

definition some_step :: "link \<Rightarrow> link \<Rightarrow> bool" where
  "some_step l l' \<longleftrightarrow> (\<exists>c. link_step c l l')"

abbreviation link_reachable :: "link \<Rightarrow> bool" where
  "link_reachable l \<equiv> some_step\<^sup>*\<^sup>* fresh_link l"

section \<open>What holds of a stream\<close>

definition in_hand :: "stream \<Rightarrow> string" where
  "in_hand s = (case st_copy s of Writing chunk \<Rightarrow> chunk | _ \<Rightarrow> [])"

definition stream_ok :: "stream \<Rightarrow> bool" where
  "stream_ok s \<longleftrightarrow> st_read s \<le> length (st_sent s) \<and>
     (case st_copy s of
        Copied clean \<Rightarrow> if clean then st_fin s \<and> st_out s = st_sent s else prefix (st_out s) (st_sent s)
      | _ \<Rightarrow> st_out s @ in_hand s = take (st_read s) (st_sent s))"

lemma stream_ok_fresh: "stream_ok fresh_stream"
  by (simp add: stream_ok_def fresh_stream_def in_hand_def)

lemma take_read:
  assumes "drop n xs = chunk @ rest"
  shows "take (n + length chunk) xs = take n xs @ chunk" and "n \<le> length xs \<Longrightarrow> n + length chunk \<le> length xs"
proof -
  have "xs = take n xs @ chunk @ rest" by (metis assms append_take_drop_id)
  then show "take (n + length chunk) xs = take n xs @ chunk" by (metis assms append_eq_conv_conj take_add)
  show "n + length chunk \<le> length xs" if "n \<le> length xs"
    using arg_cong [OF assms, of length] that by simp
qed

lemma stream_ok_prefix: "stream_ok s \<Longrightarrow> prefix (st_out s) (st_sent s)"
  by (auto simp: stream_ok_def split: copy_pc.splits if_splits) (metis append_prefixD take_is_prefix)+

lemma stream_ok_complete: "stream_ok s \<Longrightarrow> st_copy s = Copied True \<Longrightarrow> st_out s = st_sent s"
  by (simp add: stream_ok_def)

lemma stream_ok_step:
  assumes "stream_step source dest s s'" and "stream_ok s"
  shows "stream_ok s'"
  using assms
proof (cases rule: stream_step.cases)
  case (peer_sends bytes)
  then show ?thesis using assms(2) by (auto simp: stream_ok_def in_hand_def split: copy_pc.splits)
next
  case (read_chunk chunk rest)
  then show ?thesis using assms(2) take_read [OF read_chunk(5)] by (auto simp: stream_ok_def in_hand_def)
next
  case (write_failed written lost)
  then have "st_out s @ written @ lost = take (st_read s) (st_sent s)"
    using assms(2) by (simp add: stream_ok_def in_hand_def)
  then have "prefix (st_out s @ written) (st_sent s)"
    by (metis append_assoc append_prefixD prefixI prefix_order.trans take_is_prefix)
  then show ?thesis using write_failed assms(2) by (simp add: stream_ok_def)
qed (use assms(2) in \<open>auto simp: stream_ok_def in_hand_def split: copy_pc.splits intro: append_prefixD take_is_prefix\<close>)

definition link_ok :: "link \<Rightarrow> bool" where
  "link_ok l \<longleftrightarrow> stream_ok (lk_up l) \<and> stream_ok (lk_down l) \<and> (lk_upDone l \<longrightarrow> \<not> lk_guest l)"

interpretation link: invariant some_step link_ok
  by unfold_locales (auto simp: link_ok_def some_step_def elim!: link_stepE dest: stream_ok_step)

lemma link_ok_reachable: "link_reachable l \<Longrightarrow> link_ok l"
  by (erule link.steps_inv) (simp add: link_ok_def fresh_link_def stream_ok_fresh)

section \<open>The machine of \<open>Forwarder_Machine\<close>\<close>

definition abs_link :: "link \<Rightarrow> proxy" where
  "abs_link l = \<lparr>px_pc = Copying (\<not> lk_upDone l) (\<not> lk_downDone l), px_client = lk_client l, px_guest = lk_guest l\<rparr>"

lemma set_proxy_same: "i < length (fs_proxies s) \<Longrightarrow> fs_proxies s ! i = p \<Longrightarrow> set_proxy i p s = s"
  by (cases s) (auto simp: set_proxy_def)

text \<open>A step on the bytes is a step of the machine or changes nothing the machine knows.\<close>

lemma link_step_simulated:
  assumes "link_step (cancelled s) l l'" and "i < length (fs_proxies s)" and "fs_proxies s ! i = abs_link l"
  shows "forwarder_step\<^sup>=\<^sup>= s (set_proxy i (abs_link l') s)"
  using assms(1)
proof (cases rule: link_step.cases)
  case (up_close clean)
  have "forwarder_step s (set_proxy i ((fs_proxies s ! i)\<lparr>px_pc := Copying False (\<not> lk_downDone l), px_guest := False\<rparr>) s)"
    using assms(2,3) up_close by (intro forwarder_step.to_guest_ended) (simp_all add: abs_link_def)
  then show ?thesis using up_close assms(3) by (simp add: abs_link_def)
next
  case (down_close clean)
  have "forwarder_step s (set_proxy i ((fs_proxies s ! i)\<lparr>px_pc := Copying (\<not> lk_upDone l) False, px_client := False\<rparr>) s)"
    using assms(2,3) down_close by (intro forwarder_step.to_client_ended) (simp_all add: abs_link_def)
  then show ?thesis using down_close assms(3) by (simp add: abs_link_def)
next
  case after_cancel_client
  have "forwarder_step s (set_proxy i ((fs_proxies s ! i)\<lparr>px_client := False\<rparr>) s)"
    using assms(2,3) after_cancel_client by (intro forwarder_step.stop_client) (simp_all add: abs_link_def)
  then show ?thesis using after_cancel_client assms(3) by (simp add: abs_link_def)
next
  case after_cancel_guest
  have "forwarder_step s (set_proxy i ((fs_proxies s ! i)\<lparr>px_guest := False\<rparr>) s)"
    using assms(2,3) after_cancel_guest by (intro forwarder_step.stop_guest) (simp_all add: abs_link_def)
  then show ?thesis using after_cancel_guest assms(3) by (simp add: abs_link_def)
qed (use assms(2,3) in \<open>simp_all add: abs_link_def set_proxy_same\<close>)

lemma set_proxy_simps [simp]:
  "cancelled (set_proxy i p s) = cancelled s" "length (fs_proxies (set_proxy i p s)) = length (fs_proxies s)"
  "i < length (fs_proxies s) \<Longrightarrow> fs_proxies (set_proxy i p s) ! i = p"
  "set_proxy i q (set_proxy i p s) = set_proxy i q s"
  by (simp_all add: set_proxy_def cancelled_def)

lemma set_proxy_beyond: "\<not> i < length (fs_proxies s) \<Longrightarrow> set_proxy i p s = s"
  by (cases s) (simp add: set_proxy_def list_update_beyond)

interpretation bytes: simulation "link_step (cancelled s)" forwarder_step "\<lambda>l. set_proxy i (abs_link l) s"
proof
  fix l l' assume step: "link_step (cancelled s) l l'"
  show "forwarder_step\<^sup>=\<^sup>= (set_proxy i (abs_link l) s) (set_proxy i (abs_link l') s)"
  proof (cases "i < length (fs_proxies s)")
    case True
    then show ?thesis using link_step_simulated [of "set_proxy i (abs_link l) s" l l' i] step by simp
  qed (simp add: set_proxy_beyond)
qed

section \<open>A closed guest connection\<close>

text \<open>Once our end of the guest's connection is closed, at most the chunk in hand still reaches the client.\<close>

definition final_answer :: "link \<Rightarrow> string" where
  "final_answer l = st_out (lk_down l) @ in_hand (lk_down l)"

lemma guest_stays_closed: "link_step c l l' \<Longrightarrow> \<not> lk_guest l \<Longrightarrow> \<not> lk_guest l'"
  by (auto elim!: link_stepE)

lemma stream_step_closed_source:
  "stream_step False dest s s' \<Longrightarrow> prefix (st_out s' @ in_hand s') (st_out s @ in_hand s)"
  by (auto elim!: stream_stepE simp: in_hand_def split: copy_pc.splits)

lemma final_answer_step: "link_step c l l' \<Longrightarrow> \<not> lk_guest l \<Longrightarrow> prefix (final_answer l') (final_answer l)"
  by (erule link_stepE) (auto simp: final_answer_def dest: stream_step_closed_source)

lemma final_answer_steps:
  "some_step\<^sup>*\<^sup>* l l' \<Longrightarrow> \<not> lk_guest l \<Longrightarrow> prefix (final_answer l') (final_answer l) \<and> \<not> lk_guest l'"
  by (induction rule: rtranclp_induct)
     (auto simp: some_step_def dest: final_answer_step guest_stays_closed intro: prefix_order.trans)

section \<open>Delivery\<close>

text \<open>The steps of the copy loops alone, without failures.\<close>

inductive moves :: "stream \<Rightarrow> stream \<Rightarrow> bool" where
  "st_copy s = Reading \<Longrightarrow> chunk \<noteq> [] \<Longrightarrow> drop (st_read s) (st_sent s) = chunk @ rest \<Longrightarrow>
     moves s (s\<lparr>st_read := st_read s + length chunk, st_copy := Writing chunk\<rparr>)"
| "st_copy s = Writing chunk \<Longrightarrow> moves s (s\<lparr>st_out := st_out s @ chunk, st_copy := Reading\<rparr>)"

inductive_cases movesE: "moves s s'"

inductive carries :: "link \<Rightarrow> link \<Rightarrow> bool" where
  "moves (lk_up l) u \<Longrightarrow> carries l (l\<lparr>lk_up := u\<rparr>)"
| "moves (lk_down l) d \<Longrightarrow> carries l (l\<lparr>lk_down := d\<rparr>)"

inductive_cases carriesE: "carries l l'"

text \<open>Twice the unread bytes, and the chunk in hand.\<close>

definition pending :: "stream \<Rightarrow> nat" where
  "pending s = 2 * (length (st_sent s) - st_read s) + (case st_copy s of Writing _ \<Rightarrow> 1 | _ \<Rightarrow> 0)"

definition copying :: "stream \<Rightarrow> bool" where
  "copying s \<longleftrightarrow> (case st_copy s of Copied _ \<Rightarrow> False | _ \<Rightarrow> True)"

definition both_copying :: "link \<Rightarrow> bool" where
  "both_copying l \<longleftrightarrow> lk_client l \<and> lk_guest l \<and> copying (lk_up l) \<and> copying (lk_down l)"

lemma moves_is_step: "moves s s' \<Longrightarrow> stream_step True True s s'"
  by (auto elim!: movesE intro: stream_step.intros)

lemma moves_ok: "moves s s' \<Longrightarrow> stream_ok s \<Longrightarrow> stream_ok s'"
  by (rule stream_ok_step [OF moves_is_step])

lemma moves_keeps: "moves s s' \<Longrightarrow> st_sent s' = st_sent s \<and> copying s'"
  by (auto elim!: movesE simp: copying_def)

lemma moves_pending: "moves s s' \<Longrightarrow> pending s' < pending s"
proof (erule movesE)
  fix chunk rest
  assume h: "st_copy s = Reading" "chunk \<noteq> []" "drop (st_read s) (st_sent s) = chunk @ rest"
    and s': "s' = s\<lparr>st_read := st_read s + length chunk, st_copy := Writing chunk\<rparr>"
  have "length (st_sent s) - st_read s = length chunk + length rest"
    using arg_cong [OF h(3), of length] by simp
  moreover from this have "length (st_sent s) - (st_read s + length chunk) = length rest" by simp
  moreover obtain c cs where "chunk = c # cs" using h(2) by (cases chunk) auto
  ultimately show ?thesis using h(1) by (simp add: s' pending_def)
qed (simp add: pending_def)

lemma moves_exists:
  assumes "copying s" and "stream_ok s" and "st_out s \<noteq> st_sent s"
  shows "\<exists>s'. moves s s'"
proof (cases "st_copy s")
  case Reading
  then have "drop (st_read s) (st_sent s) \<noteq> []"
    using assms(2,3) by (auto simp: stream_ok_def in_hand_def)
  then show ?thesis using moves.intros(1) [OF Reading, of "drop (st_read s) (st_sent s)" "[]"] by auto
qed (use assms(1) in \<open>auto simp: copying_def intro: moves.intros\<close>)

lemma carries_is_step: "carries l l' \<Longrightarrow> both_copying l \<Longrightarrow> link_step c l l'"
  by (auto elim!: carriesE simp: both_copying_def moves_is_step intro!: link_step.up link_step.down)

definition delivered :: "link \<Rightarrow> bool" where
  "delivered l \<longleftrightarrow> st_out (lk_up l) = st_sent (lk_up l) \<and> st_out (lk_down l) = st_sent (lk_down l)"

definition running :: "link \<Rightarrow> bool" where
  "running l \<longleftrightarrow> both_copying l \<and> link_ok l"

lemma carries_running: "carries l l' \<Longrightarrow> running l \<Longrightarrow> running l'"
  by (auto elim!: carriesE simp: running_def both_copying_def link_ok_def
      dest: moves_keeps moves_ok)

lemma carries_exists: "running l \<Longrightarrow> \<not> delivered l \<Longrightarrow> \<exists>l'. carries l l'"
  using moves_exists unfolding running_def both_copying_def link_ok_def delivered_def by (metis carries.intros)

lemma carries_pending:
  "carries l l' \<Longrightarrow> pending (lk_up l') + pending (lk_down l') < pending (lk_up l) + pending (lk_down l)"
  by (auto elim!: carriesE dest: moves_pending)

interpretation delivery: progress carries running delivered "\<lambda>l. pending (lk_up l) + pending (lk_down l)"
  by unfold_locales (auto intro: carries_running carries_exists carries_pending)

lemma carries_steps:
  "carries\<^sup>*\<^sup>* l l' \<Longrightarrow> running l \<Longrightarrow> some_step\<^sup>*\<^sup>* l l' \<and>
     st_sent (lk_up l') = st_sent (lk_up l) \<and> st_sent (lk_down l') = st_sent (lk_down l)"
proof (induction rule: rtranclp_induct)
  case (step l1 l2)
  have "running l1" by (rule delivery.steps_inv [OF step(1,4)])
  then have "some_step l1 l2" using carries_is_step [OF step(2)] unfolding some_step_def running_def by blast
  moreover have "st_sent (lk_up l2) = st_sent (lk_up l1) \<and> st_sent (lk_down l2) = st_sent (lk_down l1)"
    using step(2) by (auto elim!: carriesE dest: moves_keeps)
  ultimately show ?case using step by (auto intro: rtranclp.rtrancl_into_rtrancl)
qed simp

section \<open>A sample run\<close>

text \<open>A client sends its request and closes its sending side; the guest answers after the request was copied.\<close>

definition half_closed_run :: "link list" where
  "half_closed_run = (let up = (\<lambda>sent fin n c out ended avail.
       fresh_link\<lparr>lk_up := \<lparr>st_sent = sent, st_fin = fin, st_read = n, st_copy = c, st_out = out\<rparr>,
         lk_upDone := ended, lk_guest := avail\<rparr>) in
     [fresh_link, up ''GET'' False 0 Reading [] False True, up ''GET'' True 0 Reading [] False True,
      up ''GET'' True 3 (Writing ''GET'') [] False True, up ''GET'' True 3 Reading ''GET'' False True,
      up ''GET'' True 3 (Copied True) ''GET'' False True, up ''GET'' True 3 (Copied True) ''GET'' True False,
      (up ''GET'' True 3 (Copied True) ''GET'' True False)\<lparr>lk_down := fresh_stream\<lparr>st_sent := ''200 OK''\<rparr>\<rparr>])"

lemma half_closed_run_steps: "successively some_step half_closed_run"
  unfolding half_closed_run_def Let_def some_step_def
  by (auto simp: link_step.simps stream_step.simps fresh_link_def fresh_stream_def)

lemma half_closed_reachable: "i < length half_closed_run \<Longrightarrow> link_reachable (half_closed_run ! i)"
proof -
  have hd: "half_closed_run = fresh_link # tl half_closed_run" by (simp add: half_closed_run_def Let_def)
  assume i: "i < length half_closed_run"
  have "successively some_step (fresh_link # take i (tl half_closed_run))"
    using successively_take [OF half_closed_run_steps, of "Suc i"] hd by (metis take_Suc_Cons)
  then have "link_reachable (last (fresh_link # take i (tl half_closed_run)))" by (rule successively_reaches)
  moreover have "fresh_link # take i (tl half_closed_run) = take (Suc i) half_closed_run"
    using hd by (metis take_Suc_Cons)
  moreover have "last (take (Suc i) half_closed_run) = half_closed_run ! i"
    using i by (simp add: take_Suc_conv_app_nth)
  ultimately show ?thesis by simp
qed

section \<open>Claims\<close>

text \<open>C14: A forward is transparent: in every interleaving, with failures and cancellation at any point, the guest
  has received a prefix of what the client sent and the client a prefix of what the guest sent, and a
  direction that ended with the end of its stream has delivered every byte.\<close>

theorem bytes_arrive_in_order:
  assumes "some_step\<^sup>*\<^sup>* fresh_link l"
  shows "prefix (st_out (lk_up l)) (st_sent (lk_up l)) \<and> prefix (st_out (lk_down l)) (st_sent (lk_down l)) \<and>
    (st_copy (lk_up l) = Copied True \<longrightarrow> st_out (lk_up l) = st_sent (lk_up l)) \<and>
    (st_copy (lk_down l) = Copied True \<longrightarrow> st_out (lk_down l) = st_sent (lk_down l))"
  using link_ok_reachable [OF assms] stream_ok_prefix stream_ok_complete unfolding link_ok_def by blast

lemma bytes_arrive_in_order_witness:
  "prefix (st_out (lk_up (half_closed_run ! 5))) ''GET'' \<and> st_copy (lk_up (half_closed_run ! 5)) = Copied True"
  using bytes_arrive_in_order [OF half_closed_reachable [of 5]]
  by (simp add: half_closed_run_def Let_def)



text \<open>C16: The bytes refine the goroutine machine: a freshly dialled connection is the machine's, and whatever the
  copy loops, the peers and a cancelled context do to its bytes, the machine with the connection's
  abstract state can do, so what is proved of \<open>Close\<close> there holds with the data copied.\<close>

theorem bytes_refine_the_machine:
  assumes "(link_step (cancelled s))\<^sup>*\<^sup>* l l'" and "i < length (fs_proxies s)" and "fs_proxies s ! i = abs_link l"
  shows "forwarder_step\<^sup>*\<^sup>* s (set_proxy i (abs_link l') s) \<and>
    abs_link fresh_link = \<lparr>px_pc = Copying True True, px_client = True, px_guest = True\<rparr>"
  using bytes.simulates_steps [OF assms(1), of i] set_proxy_same [OF assms(2,3)]
  by (simp add: abs_link_def fresh_link_def)

lemma bytes_refine_the_machine_witness:
  "forwarder_step\<^sup>*\<^sup>* (closed_run ! 2) (set_proxy 0 (abs_link (fresh_link\<lparr>lk_up := fresh_stream\<lparr>st_sent := ''GET''\<rparr>\<rparr>)) (closed_run ! 2))"
proof -
  have "link_step (cancelled (closed_run ! 2)) fresh_link (fresh_link\<lparr>lk_up := fresh_stream\<lparr>st_sent := ''GET''\<rparr>\<rparr>)"
    by (auto simp: link_step.simps stream_step.simps fresh_link_def fresh_stream_def)
  then have "(link_step (cancelled (closed_run ! 2)))\<^sup>*\<^sup>* fresh_link (fresh_link\<lparr>lk_up := fresh_stream\<lparr>st_sent := ''GET''\<rparr>\<rparr>)"
    by blast
  moreover have "0 < length (fs_proxies (closed_run ! 2))" "fs_proxies (closed_run ! 2) ! 0 = abs_link fresh_link"
    by (simp_all add: closed_run_def Let_def abs_link_def fresh_link_def)
  ultimately show ?thesis using bytes_refine_the_machine by blast
qed

text \<open>C17: A client that only closes its sending side loses the answer: once its end of stream has been copied, the
  forward closes the whole connection to the guest, and of what the guest answers, at most the chunk
  already in hand ever reaches the client.\<close>

theorem half_close_loses_the_answer:
  assumes "some_step\<^sup>*\<^sup>* fresh_link l" and "lk_upDone l" and "some_step\<^sup>*\<^sup>* l l'"
  shows "prefix (st_out (lk_down l')) (st_out (lk_down l) @ in_hand (lk_down l))"
proof -
  have "\<not> lk_guest l" using link_ok_reachable [OF assms(1)] assms(2) by (simp add: link_ok_def)
  from final_answer_steps [OF assms(3) this] show ?thesis
    unfolding final_answer_def by (metis append_prefixD)
qed

lemma half_close_loses_the_answer_witness:
  "st_sent (lk_down (half_closed_run ! 7)) = ''200 OK'' \<and>
   \<not> (\<exists>l'. some_step\<^sup>*\<^sup>* (half_closed_run ! 7) l' \<and> st_out (lk_down l') \<noteq> [])"
proof -
  have l: "lk_upDone (half_closed_run ! 7)" "st_out (lk_down (half_closed_run ! 7)) = []"
    "in_hand (lk_down (half_closed_run ! 7)) = []" "st_sent (lk_down (half_closed_run ! 7)) = ''200 OK''"
    by code_simp+
  have "link_reachable (half_closed_run ! 7)" by (rule half_closed_reachable) (simp add: half_closed_run_def Let_def)
  from half_close_loses_the_answer [OF this l(1)] l show ?thesis by auto
qed

end
