(* ===== verification/Start_Stop.thy ===== *)
theory Start_Stop
  imports Archive Control_Socket Polling Launcher_Main
begin

text \<open>
  \<open>launcher start\<close> and \<open>launcher stop\<close>, seen from the launcher (\<open>launcher/mac/main.go\<close>): \<open>startCmd\<close>
  checks, prepares the files and launches the daemon, then waits for the first of three events that its
  goroutines report; \<open>stopCmd\<close> signals the daemon and waits for it to go. The other process is an
  argument: which files it shows at which time, and when it ends. The goroutine that copies \<open>vm.log\<close> to
  standard error is left out.
\<close>

section \<open>Preparing and launching the daemon\<close>

record start_env =
  se_ask :: ask
  se_initAssets :: archive
  se_executable :: "path result"
  se_spawn :: "string list \<Rightarrow> go_error option"

definition remove_stale :: "string \<Rightarrow> path \<Rightarrow> ('z, unit) os" where
  "remove_stale what p = attempt (os_Remove p) (\<lambda>r. case r of
     Inl err \<Rightarrow> if os_IsNotExist err then ret ()
       else throw (Wrapped (''failed to remove stale '' @ what @ '': '') err)
   | Inr _ \<Rightarrow> ret ())"

text \<open>The arguments of the daemon process.\<close>

definition daemon_args :: "path \<Rightarrow> string \<Rightarrow> string \<Rightarrow> forwardSpecList \<Rightarrow> string list" where
  "daemon_args executable cpuCount ramSize forwards =
     [executable, ''__daemon__'', cpuCount, ramSize, forwardSpecList_String forwards]"

definition spawn_daemon :: "start_env \<Rightarrow> string list \<Rightarrow> ('z, unit) os" where
  "spawn_daemon env args = (case se_spawn env args of
     Some err \<Rightarrow> throw (Wrapped ''failed to start VM daemon process: '' err) | None \<Rightarrow> ret ())"

definition remove_stale_files :: "('z, unit) os" where
  "remove_stale_files =
     andThen (remove_stale ''vm-state.json'' vm_state) (\<lambda>_.
     andThen (remove_stale vmRuntimeStatePath vmRuntimeStatePath) (\<lambda>_.
       remove_stale ''degraded-state marker'' daemonDegradedMarkerFile))"

text \<open>The last part: from the log file on. \<open>wait\<close> is the result of waiting for the daemon launched with these arguments.\<close>

definition launch :: "start_env \<Rightarrow> string list \<Rightarrow> (string list \<Rightarrow> unit result) \<Rightarrow> ('z, unit) os" where
  "launch env args wait =
     andThen (onErr (Wrapped ''failed to create log file: '') (os_open_trunc ''vm.log'' 420)) (\<lambda>_.
       deferring
         (andThen remove_stale_files (\<lambda>_. andThen (spawn_daemon env args) (\<lambda>_. lift (wait args))))
         (file_Close ''vm.log''))"

definition startCmd :: "start_env \<Rightarrow> string \<Rightarrow> string \<Rightarrow> int \<Rightarrow> forwardSpecList \<Rightarrow>
    (string list \<Rightarrow> unit result) \<Rightarrow> ('z, unit) os" where
  "startCmd env cpuCount ramSize dataSizeGB forwards wait =
     attempt (os_Stat ''vm'') (\<lambda>r.
       if (case r of Inl err \<Rightarrow> os_IsNotExist err | Inr _ \<Rightarrow> False)
       then throw (ErrorString (''VM not initialized. Run '' @ [CHR 0x27] @ ''mac-launcher init'' @ [CHR 0x27] @ '' first''))
       else if start_sees_running (se_ask env) then throw (ErrorString ''VM is already running'')
       else
         andThen (refreshInitAssets (se_initAssets env) sharedDirName) (\<lambda>_.
         andThen (ensureDataDisk dataDiskPath dataSizeGB) (\<lambda>_.
         andThen (onErr (Wrapped ''failed to get executable path: '') (lift (se_executable env))) (\<lambda>executable.
           launch env (daemon_args executable cpuCount ramSize forwards) wait))))"

section \<open>Waiting for the daemon\<close>

text \<open>\<open>nil\<close> slices do not arise: \<open>strings.Split\<close> yields at least one line.\<close>

definition last_lines :: "nat \<Rightarrow> string \<Rightarrow> string list" where
  "last_lines n data = (let lines = split_on CHR 0x0A (trim_space data) in
     if length lines \<le> n then lines else drop (length lines - n) lines)"

definition readLastLines :: "nat \<Rightarrow> string result \<Rightarrow> string list result" where
  "readLastLines n file = (case file of Inl err \<Rightarrow> Inl err | Inr data \<Rightarrow> Inr (last_lines n data))"

definition logContext :: "string result \<Rightarrow> string" where
  "logContext log = (case readLastLines 20 log of
     Inl err \<Rightarrow> []
   | Inr lines \<Rightarrow> if lines = [] then []
       else [CHR 0x0A, CHR 0x0A] @ ''Last 20 lines from vm.log:'' @ [CHR 0x0A] @ join [CHR 0x0A] lines)"

text \<open>What \<open>process.Wait\<close> reports.\<close>

datatype daemon_exit = Wait_failed go_error | Exit_code int

definition exit_error :: "daemon_exit \<Rightarrow> string result \<Rightarrow> go_error" where
  "exit_error x log = (case x of
     Wait_failed err \<Rightarrow> Wrapped ''failed to wait for daemon: '' err
   | Exit_code code \<Rightarrow>
       if code \<noteq> 0
       then ErrorString (''daemon exited with error (exit code: '' @ itoa code @ '')'' @ logContext log)
       else ErrorString ''daemon exited unexpectedly'')"

text \<open>The daemon as the waiting launcher sees it: whether \<open>vm-state.json\<close> exists at a time, what reading the
  degraded marker and \<open>vm.log\<close> gives, when the process ends, and how long one look takes.\<close>

record watch =
  w_state :: "time \<Rightarrow> bool"
  w_marker :: "time \<Rightarrow> string result"
  w_log :: "time \<Rightarrow> string result"
  w_exit :: "(daemon_exit \<times> time) option"
  w_cost :: "time \<Rightarrow> time"

definition marker_fields :: "(string \<times> string decoder) list" where
  "marker_fields = [(''error'', string_field (\<lambda>v s. v))]"

text \<open>The text of a complete marker.\<close>

definition marker_error :: "string result \<Rightarrow> string option" where
  "marker_error file = (case file of
     Inl err \<Rightarrow> None
   | Inr data \<Rightarrow> (case unmarshal (decode_struct marker_fields) [] data of
       Inl jsonErr \<Rightarrow> None | Inr e \<Rightarrow> if e = [] then None else Some e))"

definition start_timeout :: time where
  "start_timeout = 4 * 60 * second"

definition checkInterval :: time where
  "checkInterval = 200 * millisecond"

datatype start_event = State_file bool | Degraded string | Daemon_ended go_error

text \<open>The degraded watcher keeps its channel in the state of the closure.\<close>

definition state_event :: "watch \<Rightarrow> time \<Rightarrow> (start_event \<times> time) list" where
  "state_event w now =
     (case pollUntil (\<lambda>t s. (w_state w t, s)) (w_cost w) (now + start_timeout) checkInterval now () of
        Some (found, _, t) \<Rightarrow> [(State_file found, t)] | None \<Rightarrow> [])"

definition degraded_event :: "watch \<Rightarrow> time \<Rightarrow> (start_event \<times> time) list" where
  "degraded_event w now =
     (case pollUntil (\<lambda>t ch. case marker_error (w_marker w t) of None \<Rightarrow> (False, ch) | Some e \<Rightarrow> (True, [e]))
          (w_cost w) (now + start_timeout) checkInterval now [] of
        Some (found, ch, t) \<Rightarrow> map (\<lambda>e. (Degraded e, t)) ch | None \<Rightarrow> [])"

definition exit_event :: "watch \<Rightarrow> (start_event \<times> time) list" where
  "exit_event w = (case w_exit w of
     Some (x, t) \<Rightarrow> [(Daemon_ended (exit_error x (w_log w t)), t)] | None \<Rightarrow> [])"

definition start_events :: "watch \<Rightarrow> time \<Rightarrow> (start_event \<times> time) list" where
  "start_events w now = state_event w now @ degraded_event w now @ exit_event w"

text \<open>The \<open>select\<close> takes the first event; of several at the same time it may take any.\<close>

definition earliest :: "('e \<times> time) list \<Rightarrow> ('e \<times> time) list" where
  "earliest evs = filter (\<lambda>(e, t). list_all (\<lambda>(e', t'). t \<le> t') evs) evs"

definition finish_start :: "watch \<Rightarrow> start_event \<times> time \<Rightarrow> unit result" where
  "finish_start w ev = (case ev of
     (State_file True, t) \<Rightarrow> Inr ()
   | (State_file False, t) \<Rightarrow> Inl (ErrorString (''timeout waiting for VM to start ('' @
       duration_text start_timeout @ '')'' @ logContext (w_log w t)))
   | (Degraded e, t) \<Rightarrow> Inl (ErrorString (''VM failed to start: '' @ e))
   | (Daemon_ended e, t) \<Rightarrow> Inl (Wrapped ''VM failed to start: '' e))"

text \<open>All results the wait can have.\<close>

definition start_results :: "watch \<Rightarrow> time \<Rightarrow> unit result list" where
  "start_results w now = map (finish_start w) (earliest (start_events w now))"

section \<open>\<open>stopCmd\<close>\<close>

text \<open>The process behind a PID: whether it can be found, the outcome of SIGTERM, and whether signal 0 still
  reaches it at a time.\<close>

record process_env =
  p_find :: "int \<Rightarrow> go_error option"
  p_term :: "int \<Rightarrow> go_error option"
  p_alive :: "int \<Rightarrow> time \<Rightarrow> bool"
  p_cost :: "time \<Rightarrow> time"

definition pidFile :: path where
  "pidFile = ''vm.pid''"

definition signal_daemon :: "process_env \<Rightarrow> ('z, int) os" where
  "signal_daemon env =
     attempt (os_ReadFile pidFile) (\<lambda>r. case r of
       Inl err \<Rightarrow> throw (ErrorString ''VM is not running (no PID file found)'')
     | Inr pidData \<Rightarrow>
         andThen (onErr (Wrapped ''invalid PID in file: '') (lift (atoi (trim_space pidData)))) (\<lambda>pid.
           case p_find env pid of
             Some err \<Rightarrow> throw (Wrapped ''failed to find VM process: '' err)
           | None \<Rightarrow> (case p_term env pid of
               Some err \<Rightarrow> throw (Wrapped ''failed to send stop signal to VM: '' err)
             | None \<Rightarrow> ret pid)))"

definition stop_timeout :: time where
  "stop_timeout = 65 * second"

text \<open>\<open>now\<close> is the time after the signal was sent. The loop has the shape of \<open>pollUntil\<close>.\<close>

definition stopCmd :: "process_env \<Rightarrow> time \<Rightarrow> 'z world_scheme \<Rightarrow> (unit result \<times> 'z world_scheme) option" where
  "stopCmd env now w = (case signal_daemon env w of
     (Inl err, w1) \<Rightarrow> Some (Inl err, w1)
   | (Inr pid, w1) \<Rightarrow>
       (case pollUntil (\<lambda>t s. (\<not> p_alive env pid t, s)) (p_cost env) (now + stop_timeout)
           (500 * millisecond) now () of
          None \<Rightarrow> None
        | Some (gone, _, t) \<Rightarrow>
            if gone then Some (Inr (), snd (os_Remove pidFile w1))
            else Some (Inl (ErrorString (''VM (pid '' @ itoa pid @
              '') did not stop within 65s of receiving the stop signal'')), w1)))"

section \<open>The files of a start\<close>

definition stale_files :: "path set" where
  "stale_files = {vm_state, vmRuntimeStatePath, daemonDegradedMarkerFile}"

lemma stale_paths:
  "vm_state = ''vm-state.json''" "vmRuntimeStatePath = ''vm-runtime.json''"
  "daemonDegradedMarkerFile = ''vm-state-degraded.json''" "dataDiskPath = ''vm/data.img''"
  "sharedDirName = ''vm-shared''"
  by code_simp+

lemma remove_stale_ok:
  assumes "remove_stale what p w = (Inr u, w')" and "honest_faults w"
  shows "files w' p = None \<and> (\<forall>q. files w q = None \<longrightarrow> files w' q = None)"
  using assms
  by (auto simp: remove_stale_def attempt_def ret_def throw_def os_Remove_def honest_faults_def
      split: option.splits node.splits if_splits)

lemma same_faults_remove_stale [keeps_intros]: "keeps same_faults (remove_stale what p)"
  unfolding remove_stale_def
  by (intro same_faults.keeps_rules keeps_intros) (auto intro!: same_faults.keeps_rules split: sum.split)

lemma untouched_remove_stale [keeps_intros]: "p \<in> A \<Longrightarrow> keeps (untouched A) (remove_stale what p)"
  unfolding remove_stale_def
  by (intro untouched.keeps_rules keeps_intros) (auto intro!: untouched.keeps_rules split: sum.split)

lemma remove_stale_files_ok:
  assumes "remove_stale_files w = (Inr u, w')" and h: "honest_faults w"
  shows "\<forall>p \<in> stale_files. files w' p = None"
proof -
  obtain u1 w1 u2 w2 where 1: "remove_stale ''vm-state.json'' vm_state w = (Inr u1, w1)"
    and 2: "remove_stale vmRuntimeStatePath vmRuntimeStatePath w1 = (Inr u2, w2)"
    and 3: "remove_stale ''degraded-state marker'' daemonDegradedMarkerFile w2 = (Inr u, w')"
    using assms(1) unfolding remove_stale_files_def by (elim andThen_InrE)
  have h1: "honest_faults w1" using honest_faults_kept [OF same_faults_remove_stale 1] h by simp
  have h2: "honest_faults w2" using honest_faults_kept [OF same_faults_remove_stale 2] h1 by simp
  from remove_stale_ok [OF 1 h] remove_stale_ok [OF 2 h1] remove_stale_ok [OF 3 h2] show ?thesis
    by (simp add: stale_files_def)
qed

lemma untouched_remove_stale_files: "keeps (untouched stale_files) remove_stale_files"
  unfolding remove_stale_files_def
  by (intro untouched.keeps_rules keeps_intros) (simp_all add: stale_files_def)

lemma same_faults_remove_stale_files: "keeps same_faults remove_stale_files"
  unfolding remove_stale_files_def by (intro same_faults.keeps_rules keeps_intros)

lemma untouched_spawn: "keeps (untouched A) (spawn_daemon env args)"
  unfolding spawn_daemon_def by (auto intro: untouched.keeps_rules split: option.split)

definition start_files_touched :: "path set" where
  "start_files_touched = insert ''vm.log'' stale_files"

lemma untouched_launch: "keeps (untouched start_files_touched) (launch env args wait)"
proof -
  have "keeps (untouched start_files_touched) remove_stale_files"
    using untouched_remove_stale_files untouched_mono [of stale_files _ _ start_files_touched]
    by (auto simp: keeps_def start_files_touched_def)
  then show ?thesis
    unfolding launch_def
    by (intro untouched.keeps_rules keeps_intros untouched_spawn) (simp_all add: start_files_touched_def)
qed

lemma launch_ok:
  assumes "launch env args wait w = (Inr u, w')" and "honest_faults w"
  shows "(\<forall>p \<in> stale_files. files w' p = None) \<and> se_spawn env args = None \<and> wait args = Inr u"
proof -
  obtain u1 w1 where o: "os_open_trunc ''vm.log'' 420 w = (Inr u1, w1)"
    and d: "deferring (andThen remove_stale_files (\<lambda>_. andThen (spawn_daemon env args) (\<lambda>_. lift (wait args))))
      (file_Close ''vm.log'') w1 = (Inr u, w')"
    using assms(1) unfolding launch_def by (elim andThen_InrE) (simp only: onErr_Inr)
  from deferred_close [OF d] obtain w2
    where "andThen remove_stale_files (\<lambda>_. andThen (spawn_daemon env args) (\<lambda>_. lift (wait args))) w1 = (Inr u, w2)"
      and w': "w' = called w2" by blast
  then obtain u3 w3 u4 w4 where r: "remove_stale_files w1 = (Inr u3, w3)"
    and s: "spawn_daemon env args w3 = (Inr u4, w4)" and l: "lift (wait args) w4 = (Inr u, w2)"
    by (elim andThen_InrE)
  have "honest_faults w1" using honest_faults_kept [OF same_faults_calls(6) o] assms(2) by simp
  moreover have "w3 = w4 \<and> se_spawn env args = None"
    using s by (auto simp: spawn_daemon_def ret_def throw_def split: option.splits)
  ultimately show ?thesis using remove_stale_files_ok [OF r] l w' by (auto simp: lift_def)
qed

lemma startCmd_cases:
  assumes "startCmd env cpu ram gb forwards wait w = (r, w')"
  obtains (refused) e where "r = Inl e" and "w' = called w"
  | (assets) e where "r = Inl e" and "refreshInitAssets (se_initAssets env) sharedDirName (called w) = (Inl e, w')"
  | (disk) e w1 where "r = Inl e" and "refreshInitAssets (se_initAssets env) sharedDirName (called w) = (Inr (), w1)"
      and "ensureDataDisk dataDiskPath gb w1 = (Inl e, w')"
  | (executable) e w1 where "r = Inl e" and "refreshInitAssets (se_initAssets env) sharedDirName (called w) = (Inr (), w1)"
      and "ensureDataDisk dataDiskPath gb w1 = (Inr (), w')"
  | (launched) exe w1 w2 where "refreshInitAssets (se_initAssets env) sharedDirName (called w) = (Inr (), w1)"
      and "ensureDataDisk dataDiskPath gb w1 = (Inr (), w2)" and "se_executable env = Inr exe"
      and "launch env (daemon_args exe cpu ram forwards) wait w2 = (r, w')" and "\<not> start_sees_running (se_ask env)"
proof -
  let ?A = "refreshInitAssets (se_initAssets env) sharedDirName" and ?B = "ensureDataDisk dataDiskPath gb"
  let ?L = "\<lambda>exe. launch env (daemon_args exe cpu ram forwards) wait"
  let ?rest = "andThen ?A (\<lambda>_. andThen ?B (\<lambda>_.
    andThen (onErr (Wrapped ''failed to get executable path: '') (lift (se_executable env))) ?L))"
  obtain s where st: "os_Stat ''vm'' w = (s, called w)" by (simp add: os_Stat_def)
  show thesis
  proof (cases "(case s of Inl err \<Rightarrow> os_IsNotExist err | Inr _ \<Rightarrow> False) \<or> start_sees_running (se_ask env)")
    case True
    then show thesis
      using assms refused by (auto simp: startCmd_def attempt_eq [where m = "os_Stat ''vm''", OF st] throw_def split: if_splits)
  next
    case False
    then have run: "?rest (called w) = (r, w')"
      using assms by (auto simp: startCmd_def attempt_eq [where m = "os_Stat ''vm''", OF st])
    show thesis
    proof (cases r)
      case (Inl e)
      from run [unfolded Inl] show thesis
      proof (cases rule: andThen_InlE)
        case 1
        then show thesis by (rule assets [OF Inl])
      next
        case (2 u w1)
        note A = this(1)
        from 2(2) show thesis
        proof (cases rule: andThen_InlE)
          case 1
          then show thesis using A by (intro disk [OF Inl]) simp_all
        next
          case (2 u2 w2)
          then show thesis
            using A Inl launched executable False by (auto elim!: andThen_InlE simp: onErr_Inl lift_def)
        qed
      qed
    next
      case (Inr v)
      from run [unfolded Inr] obtain u1 w1 u2 w2 exe w3 where "?A (called w) = (Inr u1, w1)" "?B w1 = (Inr u2, w2)"
        "lift (se_executable env) w2 = (Inr exe, w3)" "?L exe w3 = (Inr v, w')"
        by (elim andThen_InrE) (simp only: onErr_Inr)
      then show thesis using Inr launched False by (simp add: lift_def)
    qed
  qed
qed

lemma same_faults_ensureDataDisk: "keeps same_faults (ensureDataDisk p gb)"
  unfolding ensureDataDisk_def createSparseDataDisk_def Let_def
  by (intro same_faults.keeps_rules keeps_intros)
    (auto intro!: same_faults.keeps_rules keeps_intros split: sum.split)

lemma same_faults_refreshInitAssets: "keeps same_faults (refreshInitAssets a d)"
  unfolding refreshInitAssets_def by (intro same_faults.keeps_rules keeps_intros)

lemma refresh_frame:
  assumes "refreshInitAssets a sharedDirName w = (r, w1)" and "tame_archive a"
  shows "(\<forall>p. below ''vm-shared'' p \<or> files w1 p = files w p) \<and> honest_faults w1 = honest_faults w \<and>
    files w1 dataDiskPath = files w dataDiskPath"
proof -
  have d: "plain sharedDirName" "\<not> below ''vm-shared'' dataDiskPath" by code_simp+
  have "untouched (tree sharedDirName) w w1"
    by (rule keepsD_eq [OF untouched_refreshInitAssets [OF d(1) assms(2)] assms(1)])
  then show ?thesis
    using honest_faults_kept [OF same_faults_refreshInitAssets assms(1)] d(2)
    by (auto simp: untouched_def tree_def stale_paths)
qed

lemma ensure_frame:
  assumes "ensureDataDisk dataDiskPath gb w = (r, w')" and "disk_wf (files w dataDiskPath)" and "honest_faults w"
    and "1 \<le> gb" and "gb \<le> max_gb"
  shows "disk_kept (files w dataDiskPath) (files w' dataDiskPath) \<and>
    (r = Inr () \<longrightarrow> has_size (gb * 2 ^ 30) (files w' dataDiskPath)) \<and>
    (\<forall>p. p \<noteq> dataDiskPath \<longrightarrow> files w' p = files w p) \<and> honest_faults w' = honest_faults w"
  using ensureDataDisk_result [OF assms, of "()"] keepsD_eq [OF untouched_disk(2) assms(1)]
    honest_faults_kept [OF same_faults_ensureDataDisk assms(1)]
  by (auto simp: untouched_def)

lemma files_called: "files (called w) = files w"
  by simp

lemma honest_faults_called [simp]: "honest_faults (called w) = honest_faults w"
  by (simp add: honest_faults_def)

text \<open>Both preparations together.\<close>

lemma prepared:
  assumes "refreshInitAssets a sharedDirName (called w) = (Inr (), w1)" and "ensureDataDisk dataDiskPath gb w1 = (r, w2)"
    and "tame_archive a" and "honest_faults w" and "disk_wf (files w dataDiskPath)" and "1 \<le> gb" and "gb \<le> max_gb"
  shows "disk_kept (files w dataDiskPath) (files w2 dataDiskPath)" and "honest_faults w2"
    and "r = Inr () \<Longrightarrow> has_size (gb * 2 ^ 30) (files w2 dataDiskPath)"
    and "below ''vm-shared'' p \<or> p = dataDiskPath \<or> files w2 p = files w p"
proof -
  note 1 = refresh_frame [OF assms(1,3)]
  then have 2: "disk_wf (files w1 dataDiskPath)" "honest_faults w1" using assms(4,5) by simp_all
  note 3 = ensure_frame [OF assms(2) 2 assms(6,7)]
  show "disk_kept (files w dataDiskPath) (files w2 dataDiskPath)" "honest_faults w2"
    "r = Inr () \<Longrightarrow> has_size (gb * 2 ^ 30) (files w2 dataDiskPath)"
    using 1 2 3 by simp_all
  show "below ''vm-shared'' p \<or> p = dataDiskPath \<or> files w2 p = files w p" using 1 3 by (metis files_called)
qed

lemma launch_frame:
  assumes "launch env args wait w = (r, w')"
  shows "p \<notin> start_files_touched \<Longrightarrow> files w' p = files w p"
  using keepsD_eq [OF untouched_launch assms] by (simp add: untouched_def)

section \<open>The wait\<close>

lemma state_event_result:
  assumes "\<And>t. 0 \<le> w_cost w t \<and> w_cost w t \<le> c"
  shows "\<exists>found t. state_event w now = [(State_file found, t)] \<and> now \<le> t \<and> t \<le> now + start_timeout + c + checkInterval \<and>
     (if found then \<exists>u. now \<le> u \<and> u < now + start_timeout \<and> u \<le> t \<and> w_state w u else now + start_timeout \<le> t)"
proof -
  have "0 < checkInterval" and "0 \<le> start_timeout" and "0 \<le> c"
    using assms [of 0] by (simp_all add: checkInterval_def millisecond_def start_timeout_def second_def)
  from pollUntil_result [where cost = "w_cost w" and check = "\<lambda>t s. (w_state w t, s)" and
      deadline = "now + start_timeout" and now = now and s = "()", OF this(1) assms]
  obtain r s' t where res: "pollUntil (\<lambda>t s. (w_state w t, s)) (w_cost w) (now + start_timeout) checkInterval now () =
      Some (r, s', t)" "now \<le> t" "t \<le> max now (now + start_timeout + c + checkInterval)"
    "if r then \<exists>u su. now \<le> u \<and> u < now + start_timeout \<and> u \<le> t \<and> (w_state w u, su) = (True, s')
     else now + start_timeout \<le> t" by blast
  have "t \<le> now + start_timeout + c + checkInterval"
    using res(3) \<open>0 < checkInterval\<close> \<open>0 \<le> start_timeout\<close> \<open>0 \<le> c\<close> by simp
  with res(1,2,4) show ?thesis by (cases r) (auto simp: state_event_def)
qed

lemma earliest_nonempty: "evs \<noteq> [] \<Longrightarrow> earliest evs \<noteq> []"
proof -
  assume "evs \<noteq> []"
  then have "finite (snd ` set evs)" "snd ` set evs \<noteq> {}" by simp_all
  from Min_in [OF this] obtain e t where "(e, t) \<in> set evs" "t = Min (snd ` set evs)" by force
  then have "(e, t) \<in> set (earliest evs)"
    using \<open>finite (snd ` set evs)\<close> by (force simp: earliest_def list_all_iff intro!: Min_le)
  then show ?thesis by auto
qed

lemma start_results_cases:
  assumes "r \<in> set (start_results w now)"
  obtains ev t where "(ev, t) \<in> set (start_events w now)" and "r = finish_start w (ev, t)"
    and "\<forall>e' t'. (e', t') \<in> set (start_events w now) \<longrightarrow> t \<le> t'"
proof -
  from assms obtain ev t where ev: "(ev, t) \<in> set (earliest (start_events w now))" "r = finish_start w (ev, t)"
    by (auto simp: start_results_def)
  then have "(ev, t) \<in> set (start_events w now)" "\<forall>e' t'. (e', t') \<in> set (start_events w now) \<longrightarrow> t \<le> t'"
    by (auto simp: earliest_def list_all_iff)
  with ev(2) show thesis using that by blast
qed

lemma finish_start_Inr: "finish_start w (ev, t) = Inr u \<Longrightarrow> ev = State_file True"
  by (auto simp: finish_start_def split: start_event.splits bool.splits)

lemma degraded_not_state: "(State_file b, t) \<notin> set (degraded_event w now)" "(State_file b, t) \<notin> set (exit_event w)"
  by (auto simp: degraded_event_def exit_event_def split: option.splits)

text \<open>The degraded marker, as the daemon writes it.\<close>

lemma marker_error_written:
  assumes "has_text cause"
  shows "marker_error (Inr (json_indent (JObj [(''error'', JStr (error_text cause))]))) = Some (error_text cause)"
  using error_text_nonempty [OF assms]
  by (simp add: marker_error_def unmarshal_indent marker_fields_def wire_simps)

lemma degraded_event_found:
  assumes cost: "\<And>t. 0 \<le> w_cost w t \<and> w_cost w t \<le> c"
    and early: "\<And>t. t < T \<Longrightarrow> marker_error (w_marker w t) = None"
    and late: "\<And>t. T \<le> t \<Longrightarrow> marker_error (w_marker w t) = Some e"
    and room: "T + 2 * c + checkInterval \<le> now + start_timeout" and now: "now \<le> T"
  shows "\<exists>t. degraded_event w now = [(Degraded e, t)] \<and> t < now + start_timeout"
proof -
  let ?check = "\<lambda>t ch. case marker_error (w_marker w t) of None \<Rightarrow> (False, ch) | Some e \<Rightarrow> (True, [e])"
  have pos: "0 < checkInterval" "0 \<le> c" using cost [of 0] by (simp_all add: checkInterval_def millisecond_def)
  have fst: "fst (?check t ch)" if "T \<le> t" for t ch using late [OF that] by simp
  have "T + c + checkInterval \<le> now + start_timeout" "now < T + c + checkInterval"
    using room now pos by linarith+
  from pollUntil_sees [where cost = "w_cost w" and check = ?check and s = "[]", OF pos(1) cost fst this]
  obtain s' t where run: "pollUntil ?check (w_cost w) (now + start_timeout) checkInterval now [] = Some (True, s', t)"
    and t: "t < T + 2 * c + checkInterval" by blast
  from pollUntil_result [where cost = "w_cost w" and check = ?check and s = "[]" and now = now and
      deadline = "now + start_timeout", OF pos(1) cost] run
  obtain u su where "?check u su = (True, s')" by auto
  moreover have "T \<le> u" using calculation early [of u] by (cases "u < T") auto
  ultimately have "s' = [e]" using late [of u] by simp
  then show ?thesis using run t room by (simp add: degraded_event_def)
qed

lemma degraded_event_none:
  assumes "\<And>t. 0 \<le> w_cost w t \<and> w_cost w t \<le> c" and "\<And>t. marker_error (w_marker w t) = None"
  shows "degraded_event w now = []"
proof -
  have "0 < checkInterval" by (simp add: checkInterval_def millisecond_def)
  have "\<forall>ch. pollUntil (\<lambda>t ch. (False, ch)) (w_cost w) deadline checkInterval now ch = Some (r, s', t) \<longrightarrow> s' = ch"
    for deadline r t and s' :: "string list"
  proof (induction "nat (deadline - now)" arbitrary: now rule: less_induct)
    case less
    show ?case
    proof (cases "now < deadline")
      case True
      then have "nat (deadline - (now + w_cost w now + checkInterval)) < nat (deadline - now)"
        using assms(1) [of now] \<open>0 < checkInterval\<close> by linarith
      from less [OF this] True show ?thesis by (subst pollUntil.simps) simp
    qed (subst pollUntil.simps, simp)
  qed
  then show ?thesis
    by (auto simp: degraded_event_def assms(2) split: option.split)
qed

section \<open>Claims\<close>

text \<open>C23: The forwards of the command line reach the daemon unchanged: for every \<open>start\<close> the argument vector the
  launcher gives its daemon process is read by \<open>main\<close> as a daemon call with the same CPU and memory texts,
  and \<open>parseForwardSpecs\<close> gets exactly the forwards back, in order.\<close>

theorem start_hands_over_forwards:
  assumes "parse_args tty args = Inr (Start cpu ram gb forwards)"
  shows "parse_args tty' (daemon_args exe cpu ram forwards) = Inr (Daemon cpu ram (forwardSpecList_String forwards)) \<and>
    parseForwardSpecs (forwardSpecList_String forwards) = Inr forwards"
  using parse_args_start [OF assms] parse_String_specs
  by (auto simp: daemon_args_def parse_args_def)

lemma start_hands_over_forwards_witness:
  "\<exists>enc. parse_args False (daemon_args ''/bin/launcher'' ''2'' ''4096''
       [\<lparr>spec_Name = ''db'', spec_GuestPort = 8563, spec_HostPort = 0\<rparr>]) = Inr (Daemon ''2'' ''4096'' enc) \<and>
     parseForwardSpecs enc = Inr [\<lparr>spec_Name = ''db'', spec_GuestPort = 8563, spec_HostPort = 0\<rparr>]"
proof -
  let ?specs = "[\<lparr>spec_Name = ''db'', spec_GuestPort = 8563, spec_HostPort = 0\<rparr>]"
  have "valid_specs ?specs" by code_simp
  then have "parse_args False ([''/bin/launcher'', ''start''] @
      concat (map (\<lambda>s. [''--forward'', encodeForwardSpec s]) ?specs) @ [''2'', ''4096'', itoa 20]) =
      Inr (Start ''2'' ''4096'' 20 ?specs)"
    by (rule parse_start) (simp_all add: is_flag_text_def int64_max_def)
  from start_hands_over_forwards [OF this] show ?thesis by blast
qed


definition prepared_env :: start_env where
  "prepared_env = \<lparr>se_ask = (\<lambda>_. Unreachable (ErrorString ''no such socket'')), se_initAssets = sample_archive,
     se_executable = Inr ''/bin/launcher'', se_spawn = (\<lambda>_. None)\<rparr>"

definition stopped_vm :: world where
  "stopped_vm = (disk_world (10 * 2 ^ 30))\<lparr>faults := (\<lambda>_. None), files := [''vm'' \<mapsto> Dir, ''vm-shared'' \<mapsto> Dir,
     ''vm-state.json'' \<mapsto> File ''{}'' 2 420, dataDiskPath \<mapsto> File ''superblock'' (10 * 2 ^ 30) 420]\<rparr>"


text \<open>The wait of \<open>start\<close> always has a result, success means that \<open>vm-state.json\<close> existed within the four minutes,
  and a daemon that reports a degraded start in time, and neither publishes its state nor ends, makes
  \<open>start\<close> fail with exactly the daemon's error text.\<close>

theorem start_result_is_the_daemons:
  assumes "\<And>t. 0 \<le> w_cost w t \<and> w_cost w t \<le> c"
  shows "start_results w now \<noteq> [] \<and>
    (Inr () \<in> set (start_results w now) \<longrightarrow> (\<exists>t. now \<le> t \<and> t < now + 240 * second \<and> w_state w t)) \<and>
    (has_text cause \<and> w_exit w = None \<and> (\<forall>t. \<not> w_state w t) \<and> now \<le> T \<and>
       T + 2 * c + 200 * millisecond \<le> now + 240 * second \<and>
       (\<forall>t. w_marker w t = (if t < T then Inl (PathError ''open'' daemonDegradedMarkerFile ENOENT)
          else Inr (json_indent (JObj [(''error'', JStr (error_text cause))])))) \<longrightarrow>
     start_results w now = [Inl (ErrorString (''VM failed to start: '' @ error_text cause))])"
proof (intro conjI impI)
  obtain found t where st: "state_event w now = [(State_file found, t)]"
    "if found then \<exists>u. now \<le> u \<and> u < now + start_timeout \<and> u \<le> t \<and> w_state w u else now + start_timeout \<le> t"
    using state_event_result [where w = w and now = now, OF assms] by blast
  have four: "start_timeout = 240 * second" by (simp add: start_timeout_def)
  have "start_events w now \<noteq> []" by (simp add: start_events_def st(1))
  from earliest_nonempty [OF this] show "start_results w now \<noteq> []" by (simp add: start_results_def)
  show "\<exists>t. now \<le> t \<and> t < now + 240 * second \<and> w_state w t" if "Inr () \<in> set (start_results w now)"
  proof -
    from that obtain ev t' where ev: "(ev, t') \<in> set (start_events w now)" "finish_start w (ev, t') = Inr ()"
      by (metis start_results_cases)
    from finish_start_Inr [OF ev(2)] ev(1) have "found"
      using st(1) degraded_not_state by (auto simp: start_events_def)
    then show ?thesis using st(2) four by auto
  qed
  show "start_results w now = [Inl (ErrorString (''VM failed to start: '' @ error_text cause))]"
    if h: "has_text cause \<and> w_exit w = None \<and> (\<forall>t. \<not> w_state w t) \<and> now \<le> T \<and>
       T + 2 * c + 200 * millisecond \<le> now + 240 * second \<and>
       (\<forall>t. w_marker w t = (if t < T then Inl (PathError ''open'' daemonDegradedMarkerFile ENOENT)
          else Inr (json_indent (JObj [(''error'', JStr (error_text cause))]))))"
  proof -
    have "\<exists>t. degraded_event w now = [(Degraded (error_text cause), t)] \<and> t < now + start_timeout"
    proof (rule degraded_event_found [OF assms])
      show "marker_error (w_marker w t) = None" if "t < T" for t using h that by (simp add: marker_error_def)
      show "marker_error (w_marker w t) = Some (error_text cause)" if "T \<le> t" for t
        using h that marker_error_written [of cause] by simp
    qed (use h in \<open>simp_all add: four checkInterval_def\<close>)
    then obtain td where d: "degraded_event w now = [(Degraded (error_text cause), td)]" "td < now + start_timeout"
      by blast
    have "now + start_timeout \<le> t" using st(2) h by (auto split: if_splits)
    with d(2) have "td < t" by simp
    then show ?thesis
      using h by (simp add: start_results_def start_events_def st(1) d(1) exit_event_def earliest_def finish_start_def)
  qed
qed

definition degraded_daemon :: watch where
  "degraded_daemon = \<lparr>w_state = (\<lambda>t. False),
     w_marker = (\<lambda>t. if t < 130 * second then Inl (PathError ''open'' daemonDegradedMarkerFile ENOENT)
        else Inr (json_indent (JObj [(''error'', JStr (error_text (Errno ECONNREFUSED)))]))),
     w_log = (\<lambda>t. Inr ''booting''), w_exit = None, w_cost = (\<lambda>t. 1000)\<rparr>"

lemma start_result_is_the_daemons_witness:
  "start_results degraded_daemon 0 = [Inl (ErrorString ''VM failed to start: connection refused'')]"
  using start_result_is_the_daemons [where w = degraded_daemon and c = 1000 and cause = "Errno ECONNREFUSED" and
      T = "130 * second" and now = 0]
  by (simp add: degraded_daemon_def second_def millisecond_def)

text \<open>\<open>start\<close> waits less long than its daemon: a guest that takes between four and five minutes to print its
  output is within the daemon's own limit, so the daemon goes on and publishes, but \<open>start\<close> has already
  reported a timeout, while the daemon it launched keeps running.\<close>

theorem slow_start_reported_as_failure:
  assumes "\<And>t. 0 \<le> cost t \<and> cost t \<le> c" and "c \<le> second" and "now + 240 * second \<le> T" and "T + 2 * second \<le> now + 300 * second"
    and "\<And>t. t < T \<Longrightarrow> look (console t) = Not_yet"
    and "\<And>t. T \<le> t \<Longrightarrow> \<exists>content. console t = Inr content \<and> prints body content"
    and "parse_init_output (trim_space body) = Inr out"
    and "\<And>t. 0 \<le> w_cost w t \<and> w_cost w t \<le> c" and "w_exit w = None"
    and "\<And>t. w_state w t \<Longrightarrow> T \<le> t" and "\<And>t. marker_error (w_marker w t) = None"
  shows "(\<exists>t. waitForInitOutput console cost (300 * second) now = Some (Gave (Inr out) t)) \<and>
    (\<exists>context. start_results w now = [Inl (ErrorString (''timeout waiting for VM to start (4m0s)'' @ context))])"
proof
  have c: "T + c + 500 * millisecond \<le> now + 300 * second" "now < T + c + 500 * millisecond"
    using assms(2-4) assms(1) [of 0] by (simp_all add: second_def millisecond_def)
  have shown: "look (console t) = Payload (trim_space body)" if "T \<le> t" for t
    using assms(6) [OF that] by (auto simp: look_def scan_console_prints)
  have "\<exists>t. init_loop console cost (300 * second) (now + 300 * second) now =
      Some (Gave (parse_init_output (trim_space body)) t)"
    by (rule init_loop_finds [where c = c and T = T]) (use assms(1,5) shown c in \<open>simp_all\<close>)
  then show "\<exists>t. waitForInitOutput console cost (300 * second) now = Some (Gave (Inr out) t)"
    by (simp add: waitForInitOutput_def assms(7))
  have shown_as: "duration_text start_timeout = ''4m0s''"
    by (simp add: duration_text_def start_timeout_def second_def text_simps)
  obtain found t where st: "state_event w now = [(State_file found, t)]"
    "if found then \<exists>u. now \<le> u \<and> u < now + start_timeout \<and> u \<le> t \<and> w_state w u else now + start_timeout \<le> t"
    using state_event_result [where w = w and now = now, OF assms(8)] by blast
  have late: "\<not> found" using st(2) assms(3,10) by (force simp: start_timeout_def)
  have none: "degraded_event w now = []"
    using degraded_event_none [OF assms(8,11)] by blast
  show "\<exists>context. start_results w now = [Inl (ErrorString (''timeout waiting for VM to start (4m0s)'' @ context))]"
    using late by (simp add: start_results_def start_events_def st(1) none exit_event_def assms(9) earliest_def
        finish_start_def shown_as)
qed

definition slow_daemon :: watch where
  "slow_daemon = \<lparr>w_state = (\<lambda>t. 270 * second \<le> t),
     w_marker = (\<lambda>t. Inl (PathError ''open'' daemonDegradedMarkerFile ENOENT)),
     w_log = (\<lambda>t. Inr ''booting''), w_exit = None, w_cost = (\<lambda>t. 1000)\<rparr>"

lemma slow_start_reported_as_failure_witness:
  "\<exists>context. start_results slow_daemon 0 =
     [Inl (ErrorString (''timeout waiting for VM to start (4m0s)'' @ context))]"
proof -
  have "scan_console ''boot'' = Not_yet" by code_simp
  moreover have "parse_init_output (trim_space sample_body) = Inr \<lparr>init_IP = ''192.168.64.2''\<rparr>" by code_simp
  ultimately show ?thesis
    using slow_start_reported_as_failure [where c = 1000 and T = "260 * second" and now = 0 and w = slow_daemon and
        cost = "\<lambda>t. 0" and console = "\<lambda>t. if t < 260 * second then Inr ''boot'' else Inr sample_console" and
        body = sample_body and out = "\<lparr>init_IP = ''192.168.64.2''\<rparr>"]
    by (simp add: slow_daemon_def second_def look_def sample_console_prints marker_error_def)
qed

text \<open>What \<open>stopCmd\<close> makes of a process that goes in time, and of one that does not.\<close>

lemma untouched_signal_daemon: "keeps (untouched {}) (signal_daemon env)"
  unfolding signal_daemon_def
  by (auto intro!: untouched.keeps_rules keeps_intros split: sum.split option.split)

lemma signal_daemon_sent: "signal_daemon env w = (Inr pid, w') \<Longrightarrow> p_term env pid = None"
  by (auto simp: signal_daemon_def attempt_def throw_def ret_def
      elim!: andThen_InrE split: prod.splits sum.splits option.splits)

lemma stopCmd_gone:
  assumes "\<And>t. 0 \<le> p_cost env t \<and> p_cost env t \<le> c" and "fst (signal_daemon env w) = Inr pid"
    and "\<And>t. T \<le> t \<Longrightarrow> \<not> p_alive env pid t" and "now \<le> T" and "T + c + 500 * millisecond \<le> now + 65 * second"
  shows "\<exists>w'. stopCmd env now w = Some (Inr (), w')"
proof -
  obtain w1 where sig: "signal_daemon env w = (Inr pid, w1)" using assms(2) by (metis prod.collapse)
  have ms: "0 < 500 * millisecond" by (simp add: millisecond_def)
  have n: "now < T + c + 500 * millisecond" using assms(4) assms(1) [of 0] ms by linarith
  have check: "fst (\<not> p_alive env pid t, s)" if "T \<le> t" for t and s :: unit using assms(3) [OF that] by simp
  from pollUntil_sees [where cost = "p_cost env" and check = "\<lambda>t s. (\<not> p_alive env pid t, s)" and s = "()",
      OF ms assms(1) check assms(5) n]
  show ?thesis by (auto simp: stopCmd_def sig stop_timeout_def)
qed

lemma stopCmd_alive:
  assumes "\<And>t. 0 \<le> p_cost env t \<and> p_cost env t \<le> c" and "fst (signal_daemon env w) = Inr pid"
    and "\<And>t. t < now + 65 * second \<Longrightarrow> p_alive env pid t"
  shows "\<exists>w'. stopCmd env now w =
    Some (Inl (ErrorString (''VM (pid '' @ itoa pid @ '') did not stop within 65s of receiving the stop signal'')), w')"
proof -
  obtain w1 where sig: "signal_daemon env w = (Inr pid, w1)" using assms(2) by (metis prod.collapse)
  have ms: "0 < 500 * millisecond" by (simp add: millisecond_def)
  from pollUntil_result [where cost = "p_cost env" and check = "\<lambda>t s. (\<not> p_alive env pid t, s)" and now = now and
      deadline = "now + 65 * second" and s = "()", OF ms assms(1)] assms(3)
  obtain t where "pollUntil (\<lambda>t s. (\<not> p_alive env pid t, s)) (p_cost env) (now + 65 * second) (500 * millisecond) now ()
      = Some (False, (), t)" by (auto split: if_splits)
  then show ?thesis by (simp add: stopCmd_def sig stop_timeout_def)
qed


definition obedient :: process_env where
  "obedient = \<lparr>p_find = (\<lambda>_. None), p_term = (\<lambda>_. None), p_alive = (\<lambda>pid t. t < 3 * second), p_cost = (\<lambda>_. 1000)\<rparr>"

definition running_vm :: world where
  "running_vm = (disk_world 0)\<lparr>faults := (\<lambda>_. None), files := [''vm.pid'' \<mapsto> File ''4711'' 4 420]\<rparr>"


end
