(* ===== verification/Log_Tail.thy ===== *)
theory Log_Tail
  imports Start_Stop "HOL-Library.Sublist"
begin

text \<open>
  The goroutine of \<open>startCmd\<close> (\<open>launcher/mac/main.go\<close>) that copies \<open>vm.log\<close> to standard error while the
  launcher waits. At each tick it compares the size of the file with the size it has dealt with; what
  the calls give at a tick is the argument. The daemon only appends to the file.
\<close>

section \<open>The goroutine\<close>

text \<open>At one tick: the size \<open>os.Stat\<close> reports, the content behind the opened file, and the most bytes
  \<open>file.Read\<close> gives.\<close>

record log_view =
  lv_stat :: "int result"
  lv_open :: "string result"
  lv_read :: nat

record tail =
  tail_lastSize :: int
  tail_shown :: string

definition tail_tick :: "log_view \<Rightarrow> tail \<Rightarrow> tail" where
  "tail_tick v s = (case lv_stat v of
     Inl err \<Rightarrow> s
   | Inr sz \<Rightarrow>
       if sz > tail_lastSize s
       then (case lv_open v of
           Inl err \<Rightarrow> s
         | Inr content \<Rightarrow>
             let buf = nat (sz - tail_lastSize s);
                 bytes = take (min buf (lv_read v)) (drop (nat (tail_lastSize s)) content) in
             \<lparr>tail_lastSize = sz, tail_shown = tail_shown s @ bytes\<rparr>)
       else s)"

datatype tail_event = Ticked log_view | Stop_tail

fun tail_loop :: "tail \<Rightarrow> tail_event list \<Rightarrow> tail" where
  "tail_loop s [] = s"
| "tail_loop s (Stop_tail # evs) = s"
| "tail_loop s (Ticked v # evs) = tail_loop (tail_tick v s) evs"

definition tail_vm_log :: "tail_event list \<Rightarrow> string" where
  "tail_vm_log evs = tail_shown (tail_loop \<lparr>tail_lastSize = 0, tail_shown = []\<rparr> evs)"

section \<open>On a log that only grows\<close>

text \<open>A look at a log that ends up as \<open>log\<close>: the size and the content are those of prefixes, the content read
  after the size, and the read gives all that is asked for.\<close>

definition looks_at :: "string \<Rightarrow> log_view \<Rightarrow> bool" where
  "looks_at log v \<longleftrightarrow> (case lv_stat v of
     Inl err \<Rightarrow> True
   | Inr sz \<Rightarrow> 0 \<le> sz \<and> sz \<le> int (lv_read v) \<and>
       (case lv_open v of Inl err \<Rightarrow> True | Inr content \<Rightarrow> prefix content log \<and> sz \<le> int (length content)))"

fun ticks :: "tail_event list \<Rightarrow> log_view list" where
  "ticks [] = []"
| "ticks (Stop_tail # evs) = []"
| "ticks (Ticked v # evs) = v # ticks evs"

definition tail_ok :: "string \<Rightarrow> tail \<Rightarrow> bool" where
  "tail_ok log s \<longleftrightarrow> 0 \<le> tail_lastSize s \<and> tail_lastSize s \<le> int (length log) \<and>
     tail_shown s = take (nat (tail_lastSize s)) log"

lemma take_drop_append: "n \<le> m \<Longrightarrow> take n xs @ take (m - n) (drop n xs) = take m xs"
  by (metis le_add_diff_inverse take_add)

lemma tail_tick_ok:
  assumes "tail_ok log s" and "looks_at log v"
  shows "tail_ok log (tail_tick v s)" and "tail_lastSize s \<le> tail_lastSize (tail_tick v s)"
    and "lv_stat v = Inr sz \<Longrightarrow> lv_open v = Inr content \<Longrightarrow> sz \<le> tail_lastSize (tail_tick v s)"
proof -
  show "tail_ok log (tail_tick v s)"
  proof (cases "lv_stat v")
    case (Inr sz)
    show ?thesis
    proof (cases "tail_lastSize s < sz")
      case True
      show ?thesis
      proof (cases "lv_open v")
        case content: (Inr content)
        let ?n = "nat (tail_lastSize s)" and ?m = "nat sz"
        obtain rest where log: "log = content @ rest" and m: "?n \<le> ?m" "?m \<le> length content" "?m - ?n \<le> lv_read v"
          using assms Inr content True by (auto simp: looks_at_def tail_ok_def prefix_def)
        have buf: "nat (sz - tail_lastSize s) = ?m - ?n" using assms(1) by (auto simp: tail_ok_def nat_diff_distrib)
        have "take (?m - ?n) (drop ?n content) = take (?m - ?n) (drop ?n log)"
          using m by (simp add: log)
        moreover have "tail_tick v s = \<lparr>tail_lastSize = sz, tail_shown = take ?n log @ take (?m - ?n) (drop ?n content)\<rparr>"
          using True content Inr buf m(3) assms(1) by (simp add: tail_tick_def tail_ok_def min_absorb1)
        moreover have "0 \<le> sz" "sz \<le> int (length log)" using True assms(1) m(2) log by (auto simp: tail_ok_def)
        ultimately show ?thesis using take_drop_append [OF m(1), of log] by (simp add: tail_ok_def)
      qed (use assms Inr True in \<open>simp add: tail_tick_def\<close>)
    qed (use assms Inr in \<open>simp add: tail_tick_def\<close>)
  qed (use assms in \<open>simp add: tail_tick_def\<close>)
  show "tail_lastSize s \<le> tail_lastSize (tail_tick v s)"
    by (simp add: tail_tick_def Let_def split: sum.split)
  show "sz \<le> tail_lastSize (tail_tick v s)" if "lv_stat v = Inr sz" "lv_open v = Inr content"
    using that by (simp add: tail_tick_def Let_def)
qed

lemma tail_loop_ok:
  assumes "tail_ok log s" and "\<forall>v \<in> set (ticks evs). looks_at log v"
  shows "tail_ok log (tail_loop s evs) \<and> tail_lastSize s \<le> tail_lastSize (tail_loop s evs) \<and>
    (\<forall>v sz content. v \<in> set (ticks evs) \<and> lv_stat v = Inr sz \<and> lv_open v = Inr content \<longrightarrow>
       sz \<le> tail_lastSize (tail_loop s evs))"
  using assms
proof (induction s evs rule: tail_loop.induct)
  case (3 s v evs)
  then have v: "looks_at log v" and rest: "\<forall>v \<in> set (ticks evs). looks_at log v" by simp_all
  note t = tail_tick_ok [OF 3(2) v]
  show ?case using 3(1) [OF t(1) rest] t(2,3) by fastforce
qed simp_all

section \<open>Claims\<close>



end
