(* ===== verification/Vm_Shutdown.thy ===== *)
theory Vm_Shutdown
  imports Polling
begin

text \<open>
  Stopping the virtual machine from the daemon (\<open>launcher/mac/main.go\<close>): \<open>shutdownVM\<close> after a failed
  start, and the goroutine of \<open>runVMDaemon\<close> that handles the stop signal. The machine is an argument:
  what its state and its stop requests answer, and how long they take.
\<close>

section \<open>The machine\<close>

text \<open>\<open>m_requestTime\<close> is how long the stop request takes, \<open>None\<close> when it never returns.\<close>

record machine =
  m_canRequestStop :: bool
  m_requestStop :: "go_error option"
  m_canStop :: bool
  m_requestTime :: "time option"
  m_stopped :: "time \<Rightarrow> bool"
  m_cost :: "time \<Rightarrow> time"

text \<open>What the daemon does to the outside, in order.\<close>

datatype stop_action =
  Close_forwarders | Stop_clock_sync | Run_ssh "string list" | Request_stop | Stop_machine

section \<open>\<open>shutdownVM\<close>\<close>

definition requestStopTimeout :: time where
  "requestStopTimeout = 5 * second"

definition shutdown_request :: "machine \<Rightarrow> stop_action list" where
  "shutdown_request m =
     (if m_canRequestStop m then [Request_stop] else if m_canStop m then [Stop_machine] else [])"

text \<open>The \<open>select\<close>: the request returned, or its time is over.\<close>

definition request_done :: "machine \<Rightarrow> time \<Rightarrow> time" where
  "request_done m now = (case m_requestTime m of
     None \<Rightarrow> now + requestStopTimeout
   | Some d \<Rightarrow> now + shorterDuration d requestStopTimeout)"

text \<open>The requests made, and the time it returns.\<close>

definition shutdownVM :: "machine \<Rightarrow> time \<Rightarrow> (stop_action list \<times> time) option" where
  "shutdownVM m now =
     (case pollUntil (\<lambda>t s. (m_stopped m t, s)) (m_cost m) (request_done m now + 30 * second)
         (200 * millisecond) (request_done m now) () of
        None \<Rightarrow> None | Some (stopped, _, t) \<Rightarrow> Some (shutdown_request m, t))"

section \<open>The stop signal\<close>

definition guestSSHPort :: int where
  "guestSSHPort = 22"

text \<open>What the daemon stores once the guest has reported its address.\<close>

definition ssh_target :: "string \<Rightarrow> string" where
  "ssh_target vmIP = vmIP @ '':'' @ itoa guestSSHPort"

definition target_host :: "string \<Rightarrow> string" where
  "target_host t = hd (split_at_first CHR '':'' t)"

definition target_port :: "string \<Rightarrow> string" where
  "target_port t = (case split_at_first CHR '':'' t of [_, port] \<Rightarrow> port | _ \<Rightarrow> ''22'')"

definition poweroff_args :: "path \<Rightarrow> string \<Rightarrow> string list" where
  "poweroff_args sshPrivateKeyPath t =
     [''ssh'', ''-i'', sshPrivateKeyPath,
      ''-p'', target_port t,
      ''-o'', ''StrictHostKeyChecking=no'',
      ''-o'', ''UserKnownHostsFile=/dev/null'',
      ''-o'', ''ConnectTimeout=5'',
      ''-o'', ''BatchMode=yes'',
      ''root@'' @ target_host t,
      ''poweroff'']"

definition fallback :: "machine \<Rightarrow> stop_action list" where
  "fallback m =
     (if m_canRequestStop m
      then Request_stop # (if m_requestStop m \<noteq> None \<and> m_canStop m then [Stop_machine] else [])
      else if m_canStop m then [Stop_machine] else [])"

text \<open>The SSH call, whether it succeeded, and the time afterwards.\<close>

definition poweroff ::
    "path \<Rightarrow> string option \<Rightarrow> (string list \<Rightarrow> go_error option \<times> time) \<Rightarrow> time \<Rightarrow> stop_action list \<times> bool \<times> time" where
  "poweroff sshPrivateKeyPath sshTarget ssh now = (case sshTarget of
     None \<Rightarrow> ([], False, now)
   | Some t \<Rightarrow> if t = [] then ([], False, now)
       else let args = poweroff_args sshPrivateKeyPath t in
         ([Run_ssh args], fst (ssh args) = None, now + snd (ssh args)))"

record handled =
  h_actions :: "stop_action list"
  h_clean :: bool
  h_exitCode :: int
  h_time :: time

definition handleStopSignal ::
    "machine \<Rightarrow> path \<Rightarrow> string option \<Rightarrow> (string list \<Rightarrow> go_error option \<times> time) \<Rightarrow> time \<Rightarrow> handled option" where
  "handleStopSignal m sshPrivateKeyPath sshTarget ssh now =
     (case poweroff sshPrivateKeyPath sshTarget ssh now of (called_ssh, sshOK, t1) \<Rightarrow>
       (case pollUntil (\<lambda>t s. (m_stopped m t, s)) (m_cost m) (t1 + 60 * second) (200 * millisecond) t1 () of
          None \<Rightarrow> None
        | Some (_, _, t) \<Rightarrow> Some \<lparr>
            h_actions = [Close_forwarders, Stop_clock_sync] @ called_ssh @ (if sshOK then [] else fallback m),
            h_clean = m_stopped m t, h_exitCode = 0, h_time = t\<rparr>))"

section \<open>Laws\<close>

lemma split_at_first_append: "c \<notin> set a \<Longrightarrow> split_at_first c (a @ c # b) = [a, b]"
  by (induction a) auto

lemma ssh_target_parts:
  "CHR '':'' \<notin> set ip \<Longrightarrow> target_host (ssh_target ip) = ip \<and> target_port (ssh_target ip) = ''22''"
  by (simp add: ssh_target_def target_host_def target_port_def split_at_first_append guestSSHPort_def text_simps)

text \<open>An address with colons is cut at its first one.\<close>

lemma ssh_target_host: "(target_host (ssh_target ip) = ip) = (CHR '':'' \<notin> set ip)"
proof
  assume host: "target_host (ssh_target ip) = ip"
  show "CHR '':'' \<notin> set ip"
  proof
    assume "CHR '':'' \<in> set ip"
    then obtain a b where ip: "ip = a @ CHR '':'' # b" "CHR '':'' \<notin> set a" by (metis split_list_first)
    have "target_host (ssh_target ip) = a"
      using split_at_first_append [OF ip(2), of "b @ '':'' @ itoa guestSSHPort"]
      by (simp add: ssh_target_def target_host_def ip(1))
    with host ip(1) show False by simp
  qed
qed (use ssh_target_parts in blast)

text \<open>The destination of the SSH call, the word before the command.\<close>

lemma poweroff_args_host:
  "(last (butlast (poweroff_args key (ssh_target ip))) = ''root@'' @ ip) = (CHR '':'' \<notin> set ip)"
  using ssh_target_host [of ip] by (simp add: poweroff_args_def)

lemma poll_stopped:
  assumes "\<And>t. 0 \<le> m_cost m t \<and> m_cost m t \<le> c"
  shows "\<exists>r t. pollUntil (\<lambda>t s. (m_stopped m t, s)) (m_cost m) (now + 60 * second) (200 * millisecond) now () =
      Some (r, (), t) \<and> now \<le> t \<and> t \<le> now + 60 * second + c + 200 * millisecond"
proof -
  have ms: "0 < 200 * millisecond" "0 \<le> second" by (simp_all add: millisecond_def second_def)
  have c: "0 \<le> c" using assms [of 0] by simp
  from pollUntil_result [where cost = "m_cost m" and check = "\<lambda>t s. (m_stopped m t, s)" and now = now and
      deadline = "now + 60 * second" and s = "()", OF ms(1) assms]
  obtain r s' t where "pollUntil (\<lambda>t s. (m_stopped m t, s)) (m_cost m) (now + 60 * second) (200 * millisecond) now () =
      Some (r, s', t)" "now \<le> t" "t \<le> max now (now + 60 * second + c + 200 * millisecond)" by blast
  then show ?thesis using ms c by (simp add: max_def split: if_splits)
qed

lemma poll_notices:
  assumes "\<And>t. 0 \<le> m_cost m t \<and> m_cost m t \<le> c" and "\<And>t. T \<le> t \<Longrightarrow> m_stopped m t"
    and "now \<le> T" and "T + c + 200 * millisecond \<le> now + 60 * second"
  shows "\<exists>t. pollUntil (\<lambda>t s. (m_stopped m t, s)) (m_cost m) (now + 60 * second) (200 * millisecond) now () =
      Some (True, (), t)"
proof -
  have ms: "0 < 200 * millisecond" by (simp add: millisecond_def)
  have n: "now < T + c + 200 * millisecond" using assms(3) assms(1) [of 0] ms by linarith
  have seen: "fst (m_stopped m t, s)" if "T \<le> t" for t and s :: unit using assms(2) [OF that] by simp
  from pollUntil_sees [where cost = "m_cost m" and check = "\<lambda>t s. (m_stopped m t, s)" and s = "()",
      OF ms assms(1) seen assms(4) n]
  show ?thesis by auto
qed

section \<open>Claims\<close>


definition healthy_vm :: machine where
  "healthy_vm = \<lparr>m_canRequestStop = True, m_requestStop = None, m_canStop = True, m_requestTime = Some 0,
     m_stopped = (\<lambda>t. 8 * second \<le> t), m_cost = (\<lambda>_. 1000)\<rparr>"


text \<open>\<open>shutdownVM\<close> always returns, within 35 seconds and one look, even when the stop request never does; it
  issues at most one request.\<close>

theorem shutdown_never_hangs:
  assumes "\<And>t. 0 \<le> m_cost m t \<and> m_cost m t \<le> c" and "\<And>d. m_requestTime m = Some d \<Longrightarrow> 0 \<le> d"
  shows "\<exists>acts t. shutdownVM m now = Some (acts, t) \<and> length acts \<le> 1 \<and> now \<le> t \<and>
    t \<le> now + 35 * second + c + 200 * millisecond"
proof -
  have ms: "0 < 200 * millisecond" and s: "0 \<le> second" and c: "0 \<le> c"
    using assms(1) [of 0] by (simp_all add: millisecond_def second_def)
  have r: "now \<le> request_done m now" "request_done m now \<le> now + 5 * second"
    using assms(2) s by (auto simp: request_done_def shorterDuration_def requestStopTimeout_def split: option.split)
  from pollUntil_result [where cost = "m_cost m" and check = "\<lambda>t s. (m_stopped m t, s)" and
      now = "request_done m now" and deadline = "request_done m now + 30 * second" and s = "()", OF ms assms(1)]
  obtain b s' t where "pollUntil (\<lambda>t s. (m_stopped m t, s)) (m_cost m) (request_done m now + 30 * second)
      (200 * millisecond) (request_done m now) () = Some (b, s', t)" "request_done m now \<le> t"
    "t \<le> max (request_done m now) (request_done m now + 30 * second + c + 200 * millisecond)" by blast
  moreover have "length (shutdown_request m) \<le> 1" by (simp add: shutdown_request_def)
  ultimately show ?thesis using r ms c s by (simp add: shutdownVM_def max_def split: if_splits)
qed

lemma shutdown_never_hangs_witness:
  "\<exists>acts t. shutdownVM (healthy_vm\<lparr>m_requestTime := None, m_stopped := (\<lambda>_. False)\<rparr>) 0 = Some (acts, t) \<and> t \<le> 36 * second"
proof -
  let ?m = "healthy_vm\<lparr>m_requestTime := None, m_stopped := (\<lambda>_. False)\<rparr>"
  have "0 \<le> m_cost ?m t \<and> m_cost ?m t \<le> 1000" for t by (simp add: healthy_vm_def)
  from shutdown_never_hangs [where m = ?m and now = 0, OF this] show ?thesis
    by (auto simp: second_def millisecond_def)
qed

end
