(* ===== verification/Daemon_Session.thy ===== *)
theory Daemon_Session
  imports Samples Start_Stop Vm_Shutdown
begin

text \<open>
  The second half of \<open>runVMDaemon\<close> (\<open>launcher/mac/main.go\<close>) as one run through time: starting the
  machine, waiting for the guest's address, opening the configured forwards, waiting for SSH, publishing,
  and serving until the machine stops. It puts \<open>Polling\<close>, \<open>Daemon_Run\<close>, \<open>Runtime_Files\<close> and \<open>Vm_Shutdown\<close>
  together. The lemmas show that such a run is one of the interleavings of \<open>Daemon_Run\<close>. Only the waits
  take time.
\<close>

section \<open>From the start of the machine to its end\<close>

record guest =
  g_start :: "go_error option"
  g_console :: "time \<Rightarrow> string result"
  g_readCost :: "time \<Rightarrow> time"
  g_net :: ssh_net
  g_machine :: machine

definition awaitAddress :: "guest \<Rightarrow> time \<Rightarrow> InitOutput outcome option" where
  "awaitAddress g now = (case g_start g of
     Some err \<Rightarrow> Some (Gave (Inl (Wrapped ''failed to start VM: '' err)) now)
   | None \<Rightarrow> (case waitForInitOutput (g_console g) (g_readCost g) (5 * 60 * second) now of
       Some (Gave (Inl err) t) \<Rightarrow> Some (Gave (Inl (Wrapped ''VM initialization failed: '' err)) t)
     | r \<Rightarrow> r))"

text \<open>How a run goes on: it crashed, it returned at a time, or it serves from a time on.\<close>

datatype 'w session = Crashed | Ended "unit result" time 'w | Up time 'w

text \<open>The result of the SSH wait is published: the degraded marker, or the files of a healthy start. Every
  return runs the deferred \<open>closeForwarders\<close>.\<close>

definition reportStart ::
    "int \<Rightarrow> string \<Rightarrow> string \<Rightarrow> string \<Rightarrow> (string \<times> ForwardState) list \<Rightarrow> unit result \<Rightarrow> time \<Rightarrow>
     'z daemon_scheme \<Rightarrow> 'z daemon_scheme session" where
  "reportStart pid vmIP cpuCountStr ramSizeStr forwardStates sshErr t d = (case sshErr of
     Inl err \<Rightarrow> Up t (snd (writeDaemonDegradedMarker err d))
   | Inr _ \<Rightarrow> (case publishReady pid vmIP cpuCountStr ramSizeStr forwardStates d of
       (Inl err, d') \<Rightarrow> Ended (Inl err) t (snd (closeForwarders d'))
     | (Inr _, d') \<Rightarrow> Up t d'))"

definition serveForwards ::
    "guest \<Rightarrow> int \<Rightarrow> string \<Rightarrow> string \<Rightarrow> string \<Rightarrow> ForwardSpec list \<Rightarrow> time \<Rightarrow>
     'z daemon_scheme \<Rightarrow> 'z daemon_scheme session option" where
  "serveForwards g pid vmIP cpuCountStr ramSizeStr forwardSpecs t d =
     (case bindForwards vmIP forwardSpecs [] d of
        (Inl err, d1) \<Rightarrow> (case shutdownVM (g_machine g) t of
            None \<Rightarrow> None
          | Some (_, t1) \<Rightarrow> Some (Ended (Inl err) t1 (snd (closeForwarders d1))))
      | (Inr forwardStates, d1) \<Rightarrow>
          (case waitForSSHService (g_net g) (ssh_target vmIP) (2 * 60 * second) t of
             None \<Rightarrow> None
           | Some (sshErr, t1) \<Rightarrow>
               Some (reportStart pid vmIP cpuCountStr ramSizeStr forwardStates sshErr t1 d1)))"

definition startup ::
    "guest \<Rightarrow> int \<Rightarrow> string \<Rightarrow> string \<Rightarrow> ForwardSpec list \<Rightarrow> time \<Rightarrow>
     'z daemon_scheme \<Rightarrow> 'z daemon_scheme session option" where
  "startup g pid cpuCountStr ramSizeStr forwardSpecs now d = (case awaitAddress g now of
     None \<Rightarrow> None
   | Some Panicked \<Rightarrow> Some Crashed
   | Some (Gave (Inl err) t) \<Rightarrow> Some (Ended (Inl err) t d)
   | Some (Gave (Inr out) t) \<Rightarrow> serveForwards g pid (init_IP out) cpuCountStr ramSizeStr forwardSpecs t d)"

text \<open>The final loop: it ends when the machine has stopped.\<close>

partial_function (option) awaitStopped :: "machine \<Rightarrow> time \<Rightarrow> time option" where
  "awaitStopped vm now =
     (if m_stopped vm now then Some now else awaitStopped vm (now + m_cost vm now + second))"

definition session ::
    "guest \<Rightarrow> int \<Rightarrow> string \<Rightarrow> string \<Rightarrow> ForwardSpec list \<Rightarrow> time \<Rightarrow>
     'z daemon_scheme \<Rightarrow> 'z daemon_scheme session option" where
  "session g pid cpuCountStr ramSizeStr forwardSpecs now d =
     (case startup g pid cpuCountStr ramSizeStr forwardSpecs now d of
        Some (Up t d1) \<Rightarrow> (case awaitStopped (g_machine g) t of
            None \<Rightarrow> None | Some t1 \<Rightarrow> Some (Ended (Inr ()) t1 (snd (closeForwarders d1))))
      | s \<Rightarrow> s)"

section \<open>The operations do not depend on the bookkeeping of the machine\<close>

definition mark :: "phase \<Rightarrow> ForwardSpec list \<Rightarrow> (ForwardSpec \<times> forwarder) option \<Rightarrow>
    (string \<times> ForwardState) list \<Rightarrow> run \<Rightarrow> run" where
  "mark ph specs bound states r =
     r\<lparr>run_phase := ph, run_specs := specs, run_bound := bound, run_states := states\<rparr>"

lemma mark_simps [simp]:
  "files (mark ph specs b st r) = files r" "faults (mark ph specs b st r) = faults r"
  "rands (mark ph specs b st r) = rands r" "ephemeral (mark ph specs b st r) = ephemeral r"
  "busy (mark ph specs b st r) = busy r" "listeners (mark ph specs b st r) = listeners r"
  "tick (mark ph specs b st r) = tick r" "history (mark ph specs b st r) = history r"
  "forwarderRegistry (mark ph specs b st r) = forwarderRegistry r"
  "forwardGuestHost (mark ph specs b st r) = forwardGuestHost r"
  "forwardsReady (mark ph specs b st r) = forwardsReady r"
  "forwardsStopping (mark ph specs b st r) = forwardsStopping r"
  "run_phase (mark ph specs b st r) = ph" "run_specs (mark ph specs b st r) = specs"
  "run_bound (mark ph specs b st r) = b" "run_states (mark ph specs b st r) = st"
  "mark ph specs b st (mark ph' specs' b' st' r) = mark ph specs b st r"
  by (simp_all add: mark_def)

lemma mark_updates [simp]:
  "(mark ph specs b st r)\<lparr>files := fs\<rparr> = mark ph specs b st (r\<lparr>files := fs\<rparr>)"
  "(mark ph specs b st r)\<lparr>listeners := ls\<rparr> = mark ph specs b st (r\<lparr>listeners := ls\<rparr>)"
  "(mark ph specs b st r)\<lparr>forwarderRegistry := reg\<rparr> = mark ph specs b st (r\<lparr>forwarderRegistry := reg\<rparr>)"
  "(mark ph specs b st r)\<lparr>forwardGuestHost := h\<rparr> = mark ph specs b st (r\<lparr>forwardGuestHost := h\<rparr>)"
  "(mark ph specs b st r)\<lparr>forwardsReady := y\<rparr> = mark ph specs b st (r\<lparr>forwardsReady := y\<rparr>)"
  "(mark ph specs b st r)\<lparr>forwardsStopping := y\<rparr> = mark ph specs b st (r\<lparr>forwardsStopping := y\<rparr>)"
  "called (mark ph specs b st r) = mark ph specs b st (called r)"
  "put p n (mark ph specs b st r) = mark ph specs b st (put p n r)"
  by (simp_all add: mark_def called_def put_def)

text \<open>\<open>natural u p\<close>: the program commutes with the change \<open>u\<close> of the state.\<close>

definition natural :: "('w \<Rightarrow> 'w) \<Rightarrow> ('w, 'e, 'a) prog \<Rightarrow> bool" where
  "natural u p \<longleftrightarrow> (\<forall>w. p (u w) = (fst (p w), u (snd (p w))))"

lemma natural_rules:
  "natural u (ret a)" "natural u (throw e)" "natural u (lift r)"
  "natural u p \<Longrightarrow> (\<And>a. natural u (q a)) \<Longrightarrow> natural u (andThen p q)"
  "natural u p \<Longrightarrow> natural u (onErr f p)"
  "natural u p \<Longrightarrow> (\<And>a. natural u (q' a)) \<Longrightarrow> natural u (attempt p q')"
  "natural u p \<Longrightarrow> natural u c \<Longrightarrow> natural u (deferring p c)"
  by (auto simp: natural_def ret_def throw_def lift_def andThen_def onErr_def attempt_def deferring_def
      split: sum.splits prod.splits)

lemma naturalD: "natural u p \<Longrightarrow> p w = (r, w') \<Longrightarrow> p (u w) = (r, u w')"
  by (simp add: natural_def)

lemma temp_name_mark: "temp_name (mark ph specs b st r) prefix k n = temp_name r prefix k n"
  by (induction n arbitrary: k) (subst (1 2) temp_name.simps, simp add: Let_def)+

lemma natural_calls:
  "natural (mark ph specs b st) (os_Remove p)" "natural (mark ph specs b st) (os_Rename p p')"
  "natural (mark ph specs b st) (os_open_trunc p mode)" "natural (mark ph specs b st) (file_Write p data)"
  "natural (mark ph specs b st) (file_Chmod p mode)" "natural (mark ph specs b st) (file_Close p)"
  "natural (mark ph specs b st) (os_CreateTemp prefix)" "natural (mark ph specs b st) (net_Listen addr ip port)"
  "natural (mark ph specs b st) (net_CloseListener ip port)"
  by (auto simp: natural_def os_defs dir_exists_def port_free_def Let_def temp_name_mark
      split: option.splits node.splits)

lemma natural_state:
  "(\<And>w. f (u w) = f w) \<Longrightarrow> natural u (gets f)" "(\<And>w. h (u w) = u (h w)) \<Longrightarrow> natural u (modify h)"
  by (simp_all add: natural_def gets_def modify_def)

lemma natural_files:
  "natural (mark ph specs b st) (os_WriteFile p data mode)" "natural (mark ph specs b st) (writeVMState data)"
  unfolding os_WriteFile_def writeVMState_def by (intro natural_rules natural_calls)+

lemma natural_close: "natural (mark ph specs b st) (forwarder_Close f)"
  unfolding forwarder_Close_def
  by (intro natural_rules natural_calls) (auto intro: natural_rules split: sum.split)

lemma natural_close_all: "natural (mark ph specs b st) (close_all reg)"
  by (induction reg rule: close_all.induct)
     (auto intro!: natural_rules natural_close natural_state simp: unregister_def)

lemma natural_forwards:
  "natural (mark ph specs b st) closeForwarders" "natural (mark ph specs b st) (registerForwarder name f)"
  "natural (mark ph specs b st) (bindForward vmIP spec)"
  unfolding closeForwarders_def registerForwarder_def bindForward_def StartLoopbackForwarder_def startForwarder_def
  by (auto intro!: natural_rules natural_calls natural_state natural_close_all split: sum.split)

lemma natural_reports:
  "natural (mark ph specs b st) (writeDaemonDegradedMarker e)"
  "natural (mark ph specs b st) (publishReady pid vmIP cpu ram states)"
  unfolding writeDaemonDegradedMarker_def publishReady_def writeHealthyStartArtifacts_def
  by (intro natural_rules natural_files natural_state; simp)+

section \<open>A run is one of the interleavings\<close>

lemma bindForwards_Cons:
  "bindForwards vmIP (spec # specs) states r = (case bindForward vmIP spec r of
     (Inl e, r') \<Rightarrow> (Inl e, r')
   | (Inr f, r') \<Rightarrow> bindForwards vmIP specs (AList.update (spec_Name spec) (bound_state spec f) states)
       (snd (registerForwarder (spec_Name spec) f r')))"
  by (simp add: andThen_def registerForwarder_eq split: prod.split sum.split)

lemma bindForwards_reaches:
  assumes "reachable vmIP all (mark Binding specs None states r)" and "bindForwards vmIP specs states r = (res, r')"
  shows "case res of
      Inl e \<Rightarrow> \<exists>sp st. reachable vmIP all (mark Returned sp None st (snd (closeForwarders r')))
    | Inr states' \<Rightarrow> reachable vmIP all (mark Binding [] None states' r')"
  using assms
proof (induction specs arbitrary: states r)
  case (Cons spec specs)
  let ?r = "mark Binding (spec # specs) None states r"
  obtain b r1 where b: "bindForward vmIP spec r = (b, r1)" by (cases "bindForward vmIP spec r")
  note b' = naturalD [OF natural_forwards(3) b]
  show ?case
  proof (cases b)
    case (Inl e)
    obtain cres r2 where cl: "closeForwarders r1 = (cres, r2)" by (cases "closeForwarders r1")
    have "daemon_step vmIP ?r (snd (closeForwarders (mark Binding (spec # specs) None states r1))\<lparr>run_phase := Returned\<rparr>)"
      by (rule daemon_step.bind_failed) (use b' Inl in simp_all)
    moreover have "(mark Binding (spec # specs) None states r2)\<lparr>run_phase := Returned\<rparr> = mark Returned (spec # specs) None states r2"
      by (simp add: mark_def)
    ultimately have "reachable vmIP all (mark Returned (spec # specs) None states r2)"
      using reachable.step [OF Cons.prems(1)] naturalD [OF natural_forwards(1) cl] by simp
    moreover have "res = Inl e \<and> r' = r1" using Cons.prems(2) b Inl by (simp add: bindForwards_Cons del: bindForwards.simps)
    ultimately show ?thesis using cl by auto
  next
    case (Inr f)
    define r2 where "r2 = snd (registerForwarder (spec_Name spec) f r1)"
    let ?st = "AList.update (spec_Name spec) (bound_state spec f) states"
    let ?r1 = "mark Binding specs (Some (spec, f)) states r1"
    have "daemon_step vmIP ?r ((mark Binding (spec # specs) None states r1)\<lparr>run_bound := Some (spec, f), run_specs := specs\<rparr>)"
      by (rule daemon_step.bind) (use b' Inr in simp_all)
    also have "(mark Binding (spec # specs) None states r1)\<lparr>run_bound := Some (spec, f), run_specs := specs\<rparr> = ?r1"
      by (simp add: mark_def)
    finally have 1: "reachable vmIP all ?r1" using reachable.step [OF Cons.prems(1)] by simp
    have reg: "registerForwarder (spec_Name spec) f ?r1 = (Inr (), mark Binding specs (Some (spec, f)) states r2)"
      by (simp add: registerForwarder_eq r2_def)
    have "daemon_step vmIP ?r1 ((mark Binding specs (Some (spec, f)) states r2)\<lparr>run_bound := None,
        run_states := AList.update (spec_Name spec) (bound_state spec f) (run_states (mark Binding specs (Some (spec, f)) states r2))\<rparr>)"
      by (rule daemon_step.register [OF _ _ reg]) simp_all
    also have "(mark Binding specs (Some (spec, f)) states r2)\<lparr>run_bound := None,
        run_states := AList.update (spec_Name spec) (bound_state spec f) (run_states (mark Binding specs (Some (spec, f)) states r2))\<rparr> =
        mark Binding specs None ?st r2"
      by (simp add: mark_def)
    finally have 2: "reachable vmIP all (mark Binding specs None ?st r2)" using reachable.step [OF 1] by simp
    have "bindForwards vmIP specs ?st r2 = (res, r')" using Cons.prems(2) b Inr by (simp add: bindForwards_Cons r2_def del: bindForwards.simps)
    from Cons.IH [OF 2 this] show ?thesis .
  qed
qed (auto simp: ret_def)

lemma reportStart_reaches:
  assumes "reachable vmIP all (mark Binding [] None states r)"
  shows "case reportStart pid vmIP cpu ram states sshErr t r of
      Crashed \<Rightarrow> True
    | Ended res t r' \<Rightarrow> res \<noteq> Inr () \<and> reachable vmIP all (mark Returned [] None states r')
    | Up t r' \<Rightarrow> reachable vmIP all (mark Serving [] None states r')"
proof (cases sshErr)
  case (Inl e)
  obtain res r1 where w: "writeDaemonDegradedMarker e r = (res, r1)" by (cases "writeDaemonDegradedMarker e r")
  have "daemon_step vmIP (mark Binding [] None states r) ((mark Binding [] None states r1)\<lparr>run_phase := Serving\<rparr>)"
    by (rule daemon_step.degraded [OF _ _ _ naturalD [OF natural_reports(1) w]]) simp_all
  moreover have "(mark Binding [] None states r1)\<lparr>run_phase := Serving\<rparr> = mark Serving [] None states r1"
    by (simp add: mark_def)
  ultimately show ?thesis using reachable.step [OF assms] w Inl by (simp add: reportStart_def)
next
  case (Inr u)
  obtain res r1 where p: "publishReady pid vmIP cpu ram states r = (res, r1)"
    by (cases "publishReady pid vmIP cpu ram states r")
  note p' = naturalD [OF natural_reports(2) p, of Binding "[]" None states]
  show ?thesis
  proof (cases res)
    case (Inl e)
    obtain cres r2 where cl: "closeForwarders r1 = (cres, r2)" by (cases "closeForwarders r1")
    have "daemon_step vmIP (mark Binding [] None states r)
        (snd (closeForwarders (mark Binding [] None states r1))\<lparr>run_phase := Returned\<rparr>)"
      by (rule daemon_step.ready_failed) (use p' Inl in \<open>simp_all\<close>)
    moreover have "(mark Binding [] None states r2)\<lparr>run_phase := Returned\<rparr> = mark Returned [] None states r2"
      by (simp add: mark_def)
    ultimately show ?thesis
      using reachable.step [OF assms] p Inl \<open>sshErr = Inr u\<close> cl naturalD [OF natural_forwards(1) cl]
      by (simp add: reportStart_def)
  next
    case (Inr v)
    have "daemon_step vmIP (mark Binding [] None states r) ((mark Binding [] None states r1)\<lparr>run_phase := Serving\<rparr>)"
      by (rule daemon_step.ready) (use p' Inr in \<open>simp_all\<close>)
    moreover have "(mark Binding [] None states r1)\<lparr>run_phase := Serving\<rparr> = mark Serving [] None states r1"
      by (simp add: mark_def)
    ultimately show ?thesis using reachable.step [OF assms] p Inr \<open>sshErr = Inr u\<close> by (simp add: reportStart_def)
  qed
qed

lemma initial_mark: "initial_run specs r \<Longrightarrow> mark Binding specs None [] r = r"
  by (simp add: initial_run_def mark_def)

lemma startup_reaches:
  assumes "startup g pid cpu ram specs now r = Some s" and "initial_run specs r"
  shows "case s of
      Crashed \<Rightarrow> True
    | Ended res t r' \<Rightarrow> res \<noteq> Inr () \<and> (r' = r \<or> (\<exists>vmIP sp st. reachable vmIP specs (mark Returned sp None st r')))
    | Up t r' \<Rightarrow> \<exists>vmIP st. reachable vmIP specs (mark Serving [] None st r')"
proof -
  obtain oc where oc: "awaitAddress g now = Some oc"
    using assms(1) by (auto simp: startup_def split: option.splits)
  show ?thesis
  proof (cases oc)
    case Panicked
    then show ?thesis using assms(1) oc by (auto simp: startup_def)
  next
    case (Gave a t)
    show ?thesis
    proof (cases a)
      case (Inl e)
      then show ?thesis using assms(1) oc Gave by (auto simp: startup_def)
    next
      case (Inr out)
      let ?ip = "init_IP out"
      have init: "reachable ?ip specs (mark Binding specs None [] r)"
        using assms(2) by (simp add: initial_mark reachable.init)
      have s: "serveForwards g pid ?ip cpu ram specs t r = Some s"
        using assms(1) oc Gave Inr by (simp add: startup_def)
      obtain b r1 where b: "bindForwards ?ip specs [] r = (b, r1)" by (cases "bindForwards ?ip specs [] r")
      note reach = bindForwards_reaches [OF init b]
      show ?thesis
      proof (cases b)
        case (Inl e)
        then show ?thesis using s b reach by (auto simp: serveForwards_def split: option.splits)
      next
        case (Inr states)
        obtain sshErr t1 where s': "s = reportStart pid ?ip cpu ram states sshErr t1 r1"
          using s b Inr by (auto simp: serveForwards_def split: option.splits)
        have "reachable ?ip specs (mark Binding [] None states r1)" using reach Inr by simp
        from reportStart_reaches [OF this, of pid cpu ram sshErr t1] show ?thesis
          unfolding s' by (auto split: session.splits)
      qed
    qed
  qed
qed

lemma session_reaches:
  assumes "session g pid cpu ram specs now r = Some (Ended res t r')" and "initial_run specs r"
  shows "r' = r \<and> res \<noteq> Inr () \<or> (\<exists>vmIP sp st. reachable vmIP specs (mark Returned sp None st r'))"
proof -
  obtain s where s: "startup g pid cpu ram specs now r = Some s"
    using assms(1) by (auto simp: session_def split: option.splits)
  note reach = startup_reaches [OF s assms(2)]
  show ?thesis
  proof (cases s)
    case (Up t1 r1)
    then have r': "r' = snd (closeForwarders r1)"
      using assms(1) s by (auto simp: session_def split: option.splits)
    obtain cres r2 where cl: "closeForwarders r1 = (cres, r2)" by (cases "closeForwarders r1")
    obtain vmIP st where st: "reachable vmIP specs (mark Serving [] None st r1)" using reach Up by auto
    have "daemon_step vmIP (mark Serving [] None st r1) ((mark Serving [] None st r2)\<lparr>run_phase := Returned\<rparr>)"
      by (rule daemon_step.vm_stopped [OF _ naturalD [OF natural_forwards(1) cl]]) simp
    moreover have "(mark Serving [] None st r2)\<lparr>run_phase := Returned\<rparr> = mark Returned [] None st r2"
      by (simp add: mark_def)
    ultimately show ?thesis using reachable.step [OF st] r' cl by auto
  qed (use assms(1) s reach in \<open>auto simp: session_def\<close>)
qed

end
