(* ===== verification/Session_Result.thy ===== *)
theory Session_Result
  imports Daemon_Session
begin

text \<open>
  What a run of the daemon leaves in the files, what the launcher that waits in \<open>Start_Stop\<close> sees of it,
  and the properties of the two together (\<open>startCmd\<close> and \<open>runVMDaemon\<close> of \<open>launcher/mac/main.go\<close>).
\<close>

section \<open>What a run leaves in the files\<close>

lemma bindForward_frame:
  assumes "bindForward vmIP spec d = (Inr f, d')"
  shows "files d' = files d \<and> faults d' = faults d \<and> busy d' = busy d \<and> forwardsReady d' = forwardsReady d \<and>
    forwardsStopping d' = forwardsStopping d \<and> listeners d' = (''127.0.0.1'', fw_Port f) # listeners d \<and>
    (spec_HostPort spec \<noteq> 0 \<longrightarrow> fw_Port f = spec_HostPort spec)"
proof -
  have "startForwarder (spec_Name spec) ''127.0.0.1'' (spec_HostPort spec) vmIP (spec_GuestPort spec) d = (Inr f, d')"
    using assms by (auto simp: bindForward_def StartLoopbackForwarder_def attempt_def ret_def
        andThen_def throw_def split: prod.splits sum.splits)
  from startForwarder_ok [OF this] show ?thesis by (auto simp: called_def)
qed

lemma bindForwards_frame:
  assumes "bindForwards vmIP specs states d = (Inr states', d')"
  shows "files d' = files d \<and> faults d' = faults d \<and> forwardsReady d' = forwardsReady d \<and>
    forwardsStopping d' = forwardsStopping d"
  using assms
proof (induction specs arbitrary: states d)
  case (Cons spec specs)
  from Cons.prems obtain f d1 where b: "bindForward vmIP spec d = (Inr f, d1)"
    and rest: "bindForwards vmIP specs (AList.update (spec_Name spec) (bound_state spec f) states)
      (snd (registerForwarder (spec_Name spec) f d1)) = (Inr states', d')"
    by (auto simp: bindForwards_Cons simp del: bindForwards.simps split: prod.splits sum.splits)
  from Cons.IH [OF rest] bindForward_frame [OF b] show ?case by (simp add: registerForwarder_eq)
qed (simp add: ret_def)

lemma untouched_artifacts:
  "keeps (untouched (insert vm_state start_files)) (writeHealthyStartArtifacts pid ip cpu ram dir fw)"
proof -
  have "keeps (untouched (insert vm_state start_files)) (writeVMState data)" for data
    unfolding keeps_def
  proof
    fix w :: "'z world_scheme"
    obtain r w' where run: "writeVMState data w = (r, w')" by (cases "writeVMState data w")
    have "untouched (insert vm_state temps) w w'"
    proof (cases r)
      case (Inl e)
      show ?thesis by (rule untouched_mono [OF writeVMState_error]) (use run Inl in auto)
    next
      case (Inr u)
      then show ?thesis using writeVMState_ok [of data w u w'] run by (auto simp: replaced_def untouched_def)
    qed
    then have "untouched (insert vm_state start_files) w w'"
      by (rule untouched_mono) (auto simp: start_files_def)
    then show "untouched (insert vm_state start_files) w (snd (writeVMState data w))" by (simp add: run)
  qed
  moreover have "vmRuntimeStatePath \<in> insert vm_state start_files" by (simp add: start_files_def)
  ultimately show ?thesis
    unfolding writeHealthyStartArtifacts_def by (intro untouched.keeps_rules keeps_intros)
qed

lemma marker_not_start_file: "daemonDegradedMarkerFile \<notin> insert vm_state start_files" "vm_state \<noteq> daemonDegradedMarkerFile"
  by (simp_all add: start_files_def daemonDegradedMarkerFile_def vm_state_def vmRuntimeStatePath_def temps_def
      temp_prefix_def has_prefix_def)

text \<open>The files of a healthy start at the address \<open>ip\<close>.\<close>

definition healthy_files :: "string \<Rightarrow> 'z daemon_scheme \<Rightarrow> bool" where
  "healthy_files ip d \<longleftrightarrow> forwardsReady d \<and> forwardGuestHost d = ip \<and> files d vm_state \<noteq> None \<and>
     files d daemonDegradedMarkerFile = None \<and>
     (\<exists>m. files d vmRuntimeStatePath = Some (text_file (json_indent (encode_VMRuntimeState \<lparr>runtime_IP = ip\<rparr>)) m))"

lemma publishReady_files:
  assumes "publishReady pid ip cpu ram st d = (Inr u, d')" and "\<not> forwardsStopping d"
    and "files d daemonDegradedMarkerFile = None"
  shows "healthy_files ip d'"
proof -
  obtain r1 where w: "writeHealthyStartArtifacts pid ip cpu ram sharedDirName st d = (Inr (), r1)"
    and d': "d' = r1\<lparr>forwardGuestHost := ip, forwardsReady := \<not> forwardsStopping r1\<rparr>"
    by (rule publishReady_ok [OF assms(1)])
  note a = writeHealthyStartArtifacts_ok [OF w]
  have "files r1 daemonDegradedMarkerFile = None"
    using keepsD_eq [OF untouched_artifacts w] marker_not_start_file(1) assms(3) by (auto simp: untouched_def)
  moreover have "files r1 vm_state \<noteq> None" using a(1) by (auto simp: raw_field_def split: option.splits)
  ultimately show ?thesis
    using a(2) daemon_of_more [OF a(4)] assms(2) by (simp add: d' healthy_files_def)
qed

lemma close_all_files: "files (snd (close_all reg d)) = files d"
proof (induction reg arbitrary: d)
  case (Cons e reg)
  obtain name f where e: "e = (name, f)" by (cases e)
  show ?case
    using Cons.IH by (simp add: e attempt_def andThen_def unregister_def modify_def prod.case_eq_if forwarder_Close_snd)
qed (simp add: ret_def)

lemma closeForwarders_files: "files (snd (closeForwarders d)) = files d"
  by (simp add: closeForwarders_eq close_all_files)

lemma publishReady_failed:
  assumes "publishReady pid ip cpu ram st d = (Inl e, d')"
  shows "files d' vm_state = files d vm_state"
proof -
  have "writeHealthyStartArtifacts pid ip cpu ram sharedDirName st d = (Inl e, d')"
    using assms by (auto simp: publishReady_def modify_def elim: andThen_InlE)
  note err = this
  let ?m = "os_WriteFile vmRuntimeStatePath (json_indent (encode_VMRuntimeState \<lparr>runtime_IP = ip\<rparr>)) 384"
  obtain wr d1 where w: "?m d = (wr, d1)" by (cases "?m d")
  have k: "keeps (untouched {vmRuntimeStatePath}) ?m" by (rule keeps_intros) simp
  have d1: "files d1 vm_state = files d vm_state"
    using keepsD_eq [OF k w] by (simp add: untouched_def vm_state_def vmRuntimeStatePath_def)
  show ?thesis
  proof (cases wr)
    case (Inl e')
    then show ?thesis using err w d1 unfolding writeHealthyStartArtifacts_def by (simp add: andThen_def onErr_def)
  next
    case (Inr u)
    obtain sr d2 where sv: "writeVMState (json_indent (vm_state_object pid cpu ram sharedDirName st)) d1 = (sr, d2)"
      by (cases "writeVMState (json_indent (vm_state_object pid cpu ram sharedDirName st)) d1")
    with err w Inr have "\<exists>e'. sr = Inl e'" "d2 = d'" unfolding writeHealthyStartArtifacts_def
      by (cases sr; simp add: andThen_def onErr_def)+
    with writeVMState_error sv d1 vm_state_not_temp show ?thesis by (metis untouched_def)
  qed
qed

lemma degraded_files:
  assumes "writeDaemonDegradedMarker e d = (r, d')"
  shows "files d' vm_state = files d vm_state \<and> forwardsReady d' = forwardsReady d"
proof -
  have "keeps (untouched {daemonDegradedMarkerFile}) (writeDaemonDegradedMarker e)"
    unfolding writeDaemonDegradedMarker_def by (intro untouched.keeps_rules keeps_intros) simp
  from keepsD_eq [OF this assms] have "untouched {daemonDegradedMarkerFile} d d'" .
  then show ?thesis
    using marker_not_start_file(2) daemon_of_more [of d' d] by (auto simp: untouched_def)
qed

lemma reportStart_Up:
  assumes "reportStart pid ip cpu ram st sshErr t d = Up u d'" and "\<not> forwardsStopping d" and "\<not> forwardsReady d"
    and "files d vm_state = None" and "files d daemonDegradedMarkerFile = None"
  shows "u = t \<and> (if sshErr = Inr () then healthy_files ip d' else \<not> forwardsReady d' \<and> files d' vm_state = None)"
proof (cases sshErr)
  case (Inl e)
  obtain r d1 where w: "writeDaemonDegradedMarker e d = (r, d1)" by (cases "writeDaemonDegradedMarker e d")
  then show ?thesis using degraded_files [OF w] assms Inl by (simp add: reportStart_def)
next
  case (Inr v)
  then obtain v' where "publishReady pid ip cpu ram st d = (Inr v', d')" and "u = t"
    using assms(1) by (auto simp: reportStart_def split: prod.splits sum.splits)
  then show ?thesis using publishReady_files assms(2,5) Inr by auto
qed

lemma waited_address:
  assumes "awaitAddress g now = Some (Gave (Inr out) t)" and "\<And>t. 0 \<le> g_readCost g t \<and> g_readCost g t \<le> c"
  shows "ParseIP (init_IP out) \<noteq> None"
proof -
  have "init_loop (g_console g) (g_readCost g) (5 * 60 * second) (now + 5 * 60 * second) now = Some (Gave (Inr out) t)"
    using assms(1) by (auto simp: awaitAddress_def waitForInitOutput_def
        split: option.splits outcome.splits sum.splits)
  with init_loop_result [where cost = "g_readCost g" and c = c and console = "g_console g" and
      timeout = "5 * 60 * second" and deadline = "now + 5 * 60 * second" and now = now, OF assms(2)]
  show ?thesis by auto
qed

lemma startup_Up:
  assumes "startup g pid cpu ram specs now d = Some (Up t d')" and "\<not> forwardsStopping d" and "\<not> forwardsReady d"
    and "files d vm_state = None" and "files d daemonDegradedMarkerFile = None"
    and "\<And>t. 0 \<le> g_readCost g t \<and> g_readCost g t \<le> c"
  shows "(\<exists>ip. ParseIP ip \<noteq> None \<and> healthy_files ip d') \<or> (\<not> forwardsReady d' \<and> files d' vm_state = None)"
proof -
  obtain out t0 where a: "awaitAddress g now = Some (Gave (Inr out) t0)"
    and s: "serveForwards g pid (init_IP out) cpu ram specs t0 d = Some (Up t d')"
    using assms(1) by (auto simp: startup_def split: option.splits outcome.splits sum.splits)
  then obtain st d1 sshErr t1 where b: "bindForwards (init_IP out) specs [] d = (Inr st, d1)"
    and r: "reportStart pid (init_IP out) cpu ram st sshErr t1 d1 = Up t d'"
    by (auto simp: serveForwards_def split: prod.splits sum.splits option.splits)
  note f = bindForwards_frame [OF b]
  have "u = t1 \<and> (if sshErr = Inr () then healthy_files (init_IP out) d' else \<not> forwardsReady d' \<and> files d' vm_state = None)"
    if "u = t" for u
    using reportStart_Up [OF r] f assms(2-5) that by simp
  then show ?thesis using waited_address [OF a assms(6)] by (auto split: if_splits)
qed

lemma bindForwards_files: "files (snd (bindForwards vmIP specs states d)) = files d"
proof (induction specs arbitrary: states d)
  case (Cons spec specs)
  obtain b d1 where b: "bindForward vmIP spec d = (b, d1)" by (cases "bindForward vmIP spec d")
  show ?case
  proof (cases b)
    case (Inl e)
    then have "files d1 = files d"
      using bindForward_error [OF b [unfolded Inl]] closeForwarders_files [of "called d"] by auto
    then show ?thesis using b Inl by (simp add: bindForwards_Cons del: bindForwards.simps)
  next
    case (Inr f)
    then show ?thesis using b Cons.IH bindForward_frame [OF b [unfolded Inr]]
      by (simp add: bindForwards_Cons registerForwarder_eq del: bindForwards.simps)
  qed
qed (simp add: ret_def)

lemma reportStart_Ended:
  "reportStart pid ip cpu ram st sshErr t d = Ended res u d' \<Longrightarrow> files d' vm_state = files d vm_state"
  by (auto simp: reportStart_def closeForwarders_files dest: publishReady_failed
      split: sum.splits prod.splits session.splits)

lemma startup_Ended:
  assumes "startup g pid cpu ram specs now d = Some (Ended res t d')"
  shows "files d' vm_state = files d vm_state"
proof -
  from assms consider (early) "d' = d"
    | (late) out :: InitOutput and t0 where "serveForwards g pid (init_IP out) cpu ram specs t0 d = Some (Ended res t d')"
    by (auto simp: startup_def split: option.splits outcome.splits sum.splits)
  then show ?thesis
  proof cases
    case late
    obtain b d1 where b: "bindForwards (init_IP out) specs [] d = (b, d1)"
      by (cases "bindForwards (init_IP out) specs [] d")
    then have d1: "files d1 = files d" using bindForwards_files [of "init_IP out" specs "[]" d] by simp
    show ?thesis
      using late b d1
      by (auto simp: serveForwards_def closeForwarders_files dest!: reportStart_Ended split: sum.splits option.splits)
  qed simp
qed

section \<open>What the launcher that waits sees\<close>

definition sees :: "watch \<Rightarrow> 'z daemon_scheme session \<Rightarrow> bool" where
  "sees w s \<longleftrightarrow> (case s of
     Crashed \<Rightarrow> (\<forall>u. \<not> w_state w u)
   | Ended res t d \<Rightarrow> (\<forall>u. w_state w u = (t \<le> u \<and> files d vm_state \<noteq> None)) \<and> w_exit w = Some (Exit_code (main_exit (err_of res)), t)
   | Up t d \<Rightarrow> (\<forall>u. w_state w u = (t \<le> u \<and> files d vm_state \<noteq> None)) \<and> w_exit w = None \<and>
       (\<forall>u. w_marker w u = (if t \<le> u \<and> files d daemonDegradedMarkerFile \<noteq> None
          then fst (os_ReadFile daemonDegradedMarkerFile d)
          else Inl (PathError ''open'' daemonDegradedMarkerFile ENOENT))))"

lemma state_seen:
  assumes "\<And>t. 0 \<le> w_cost w t \<and> w_cost w t \<le> c" and "\<And>u. w_state w u = (t \<le> u)" and "\<And>u. marker_error (w_marker w u) = None"
    and "w_exit w = None" and "t + c + 200 * millisecond \<le> now + 240 * second" and "0 \<le> c"
  shows "set (start_results w now) = {Inr ()}"
proof -
  have four: "start_timeout = 240 * second" by (simp add: start_timeout_def)
  have pos: "0 < checkInterval" "0 < second" by (simp_all add: checkInterval_def millisecond_def second_def)
  have "\<exists>s' u. pollUntil (\<lambda>t s. (w_state w t, s)) (w_cost w) (now + start_timeout) checkInterval now () = Some (True, s', u) \<and>
      u < max t now + 2 * c + checkInterval"
  proof (cases "t < now")
    case True
    then have "pollUntil (\<lambda>t s. (w_state w t, s)) (w_cost w) (now + start_timeout) checkInterval now () = Some (True, (), now + w_cost w now)"
      using assms(2) four pos by (subst pollUntil.simps) simp
    then show ?thesis using True assms(1) [of now] assms(6) pos by (intro exI conjI) (assumption, linarith)
  next
    case False
    then have "max t now = t" by simp
    with False show ?thesis
      using pollUntil_sees [where cost = "w_cost w" and check = "\<lambda>t s. (w_state w t, s)" and T = t and c = c and
          interval = checkInterval and deadline = "now + start_timeout" and now = now and s = "()", OF pos(1) assms(1)]
        assms(2,5,6) pos four by (simp add: checkInterval_def)
  qed
  then obtain u where st: "state_event w now = [(State_file True, u)]" by (auto simp: state_event_def)
  have "degraded_event w now = []" by (rule degraded_event_none [OF assms(1,3)])
  then show ?thesis
    by (simp add: start_results_def start_events_def st exit_event_def assms(4) earliest_def finish_start_def)
qed

lemma state_not_seen:
  assumes "\<And>t. 0 \<le> w_cost w t \<and> w_cost w t \<le> c" and "\<And>u. \<not> w_state w u"
  shows "Inr () \<notin> set (start_results w now)"
proof
  assume "Inr () \<in> set (start_results w now)"
  with start_results_cases obtain ev t where ev: "(ev, t) \<in> set (start_events w now)" "Inr () = finish_start w (ev, t)"
    by metis
  have "ev = State_file True" by (rule finish_start_Inr [OF ev(2) [symmetric]])
  then have "(State_file True, t) \<in> set (state_event w now)"
    using ev(1) degraded_not_state by (auto simp: start_events_def)
  with state_event_result [where w = w and c = c and now = now, OF assms(1)] assms(2) show False by auto
qed

section \<open>A healthy guest\<close>

lemma bindForwards_succeeds:
  assumes "no_faults d" and "\<forall>s \<in> set specs. spec_HostPort s \<noteq> 0 \<and> port_free d ''127.0.0.1'' (spec_HostPort s)"
    and "distinct (map spec_HostPort specs)"
  shows "\<exists>states' d'. bindForwards vmIP specs states d = (Inr states', d')"
  using assms
proof (induction specs arbitrary: states d)
  case (Cons spec specs)
  have "\<exists>f d1. bindForward vmIP spec d = (Inr f, d1)"
    using Cons.prems by (simp add: bindForward_def StartLoopbackForwarder_def startForwarder_def attempt_def
        andThen_def onErr_def net_Listen_def Let_def ret_def)
  then obtain f d1 where b: "bindForward vmIP spec d = (Inr f, d1)" by blast
  let ?d = "snd (registerForwarder (spec_Name spec) f d1)"
  have other: "\<forall>s \<in> set specs. spec_HostPort s \<noteq> spec_HostPort spec" using Cons.prems(3) by (metis distinct.simps(2) image_eqI list.map(2) list.set_map)
  have "no_faults ?d \<and> (\<forall>s \<in> set specs. spec_HostPort s \<noteq> 0 \<and> port_free ?d ''127.0.0.1'' (spec_HostPort s))"
    using bindForward_frame [OF b] Cons.prems other by (simp add: registerForwarder_eq no_faults_def port_free_def)
  with Cons.IH [of ?d] Cons.prems(3) b show ?case
    by (simp add: bindForwards_Cons del: bindForwards.simps)
qed (simp add: ret_def)

text \<open>A system without failures, with the files \<open>startCmd\<close> leaves and the requested ports free.\<close>

definition prepared_system :: "ForwardSpec list \<Rightarrow> 'z world_scheme \<Rightarrow> bool" where
  "prepared_system specs w \<longleftrightarrow> healthy w \<and> files w vm_state = None \<and> files w daemonDegradedMarkerFile = None \<and>
     files w vmRuntimeStatePath \<noteq> Some Dir \<and> distinct (map spec_HostPort specs) \<and>
     (\<forall>s \<in> set specs. spec_HostPort s \<noteq> 0 \<and> port_free w ''127.0.0.1'' (spec_HostPort s))"

lemma serveForwards_succeeds:
  assumes p: "prepared_system specs d" and stop: "\<not> forwardsStopping d" "\<not> forwardsReady d"
    and ssh: "waitForSSHService (g_net g) (ssh_target ip) (2 * 60 * second) t = Some (Inr (), t1)"
  shows "\<exists>d'. serveForwards g pid ip cpu ram specs t d = Some (Up t1 d') \<and> healthy_files ip d'"
proof -
  obtain states d1 where b: "bindForwards ip specs [] d = (Inr states, d1)"
    using bindForwards_succeeds [of d specs ip "[]"] p by (auto simp: prepared_system_def healthy_def)
  note f = bindForwards_frame [OF b]
  have "fst (writeHealthyStartArtifacts pid ip cpu ram sharedDirName states d1) = Inr ()"
    by (rule writeHealthyStartArtifacts_succeeds)
       (use p f in \<open>simp_all add: prepared_system_def healthy_def no_faults_def temps_free_def\<close>)
  then obtain d' where pub: "publishReady pid ip cpu ram states d1 = (Inr (), d')"
    by (simp add: publishReady_def andThen_def modify_def prod.case_eq_if)
  have "healthy_files ip d'"
    by (rule publishReady_files [OF pub]) (use p f stop in \<open>simp_all add: prepared_system_def\<close>)
  then show ?thesis unfolding serveForwards_def b ssh reportStart_def prod.case sum.case option.case pub by blast
qed

lemma awaitAddress_finds:
  assumes "g_start g = None" and "\<And>t. 0 \<le> g_readCost g t \<and> g_readCost g t \<le> c" and "c \<le> second"
    and "\<And>t. t < T \<Longrightarrow> look (g_console g t) = Not_yet"
    and "\<And>t. T \<le> t \<Longrightarrow> \<exists>content. g_console g t = Inr content \<and> prints body content"
    and "parse_init_output (trim_space body) = Inr out" and "now \<le> T" and "T \<le> now + 200 * second"
  shows "\<exists>t. awaitAddress g now = Some (Gave (Inr out) t) \<and> now \<le> t \<and> t \<le> T + 3 * second"
proof -
  have shown: "look (g_console g t) = Payload (trim_space body)" if "T \<le> t" for t
    using assms(5) [OF that] by (auto simp: look_def scan_console_prints)
  have c: "0 \<le> c" using assms(2) [of 0] by simp
  have "\<exists>t. init_loop (g_console g) (g_readCost g) (5 * 60 * second) (now + 5 * 60 * second) now =
      Some (Gave (parse_init_output (trim_space body)) t) \<and> now \<le> t \<and> t < T + 2 * c + 500 * millisecond"
    by (rule init_loop_finds_soon)
       (use assms(2-4,7,8) shown c in \<open>simp_all add: second_def millisecond_def\<close>)
  then show ?thesis using assms(1,3,6)
    by (auto simp: awaitAddress_def waitForInitOutput_def second_def millisecond_def)
qed

lemma ssh_ready_later: "ssh_ready net T c \<Longrightarrow> T \<le> T' \<Longrightarrow> ssh_ready net T' c"
  by (simp add: ssh_ready_def)

lemma waitForSSHService_soon:
  assumes "timely net" and "ssh_ready net T c" and "\<And>t. net_setDeadline net t = None" and "0 \<le> c" and "c \<le> second"
    and "T \<le> now + 100 * second"
  shows "\<exists>t. waitForSSHService net addr (2 * 60 * second) now = Some (Inr (), t) \<and> now \<le> t \<and> t \<le> max T now + 13 * second"
proof -
  have "\<exists>t. ssh_loop net addr (2 * 60 * second) (now + 2 * 60 * second) now None = Some (Inr (), t) \<and> now \<le> t \<and>
      t < max T now + 13 * second"
    by (rule ssh_loop_ready_soon [OF assms(1) ssh_ready_later [OF assms(2)] assms(3,4)])
       (use assms(4-6) in \<open>auto simp: second_def\<close>)
  then show ?thesis by (auto simp: waitForSSHService_def)
qed

lemma healthy_guest_up:
  assumes "initial_run specs d" and "prepared_system specs d" and "g_start g = None"
    and "\<And>t. 0 \<le> g_readCost g t \<and> g_readCost g t \<le> c" and "c \<le> second"
    and "\<And>t. t < T \<Longrightarrow> look (g_console g t) = Not_yet"
    and "\<And>t. T \<le> t \<Longrightarrow> \<exists>content. g_console g t = Inr content \<and> prints body content"
    and "parse_init_output (trim_space body) = Inr out" and "now \<le> T" and "T \<le> now + 200 * second"
    and "timely (g_net g)" and "ssh_ready (g_net g) S c" and "\<And>t. net_setDeadline (g_net g) t = None"
    and "S \<le> now + 100 * second"
  shows "\<exists>t d'. startup g pid cpu ram specs now d = Some (Up t d') \<and> healthy_files (init_IP out) d' \<and>
    t \<le> now + 230 * second"
proof -
  obtain t0 where a: "awaitAddress g now = Some (Gave (Inr out) t0)" and t0: "now \<le> t0" "t0 \<le> T + 3 * second"
    using awaitAddress_finds [where g = g and c = c and T = T and body = body and now = now, OF assms(3-10)] by blast
  have c: "0 \<le> c" using assms(4) [of 0] by simp
  have "S \<le> t0 + 100 * second" using assms(14) t0 by simp
  from waitForSSHService_soon [OF assms(11,12,13) c assms(5) this]
  obtain t where ssh: "waitForSSHService (g_net g) (ssh_target (init_IP out)) (2 * 60 * second) t0 = Some (Inr (), t)"
    and t: "t \<le> max S t0 + 13 * second" by blast
  have stop: "\<not> forwardsStopping d" "\<not> forwardsReady d" using assms(1) by (simp_all add: initial_run_def)
  from serveForwards_succeeds [OF assms(2) stop ssh, of pid cpu ram] obtain d' where
    up: "startup g pid cpu ram specs now d = Some (Up t d')" "healthy_files (init_IP out) d'"
    using a by (auto simp: startup_def)
  moreover have "t \<le> now + 230 * second"
    using t t0(2) assms(10,14) by (auto simp: second_def max_def split: if_splits)
  ultimately show ?thesis using up by blast
qed

text \<open>A guest that prints its address after three seconds and serves SSH after twenty.\<close>

definition ready_guest :: guest where
  "ready_guest = \<lparr>g_start = None, g_console = (\<lambda>t. if t < 3 * second then Inr ''boot'' else Inr sample_console),
     g_readCost = (\<lambda>_. 0), g_net = booting, g_machine = healthy_vm\<rparr>"

definition session_run :: run where
  "session_run = sample_run\<lparr>run_specs := [\<lparr>spec_Name = ''db'', spec_GuestPort = 8563, spec_HostPort = 8563\<rparr>]\<rparr>"

lemma session_run_initial: "initial_run (run_specs session_run) session_run"
proof -
  have "valid_specs (run_specs session_run)" by code_simp
  then show ?thesis by (simp add: initial_run_def session_run_def sample_run_def)
qed

lemma session_run_prepared: "prepared_system (run_specs session_run) session_run"
  by (simp add: prepared_system_def healthy_def no_faults_def temps_free_def port_free_def session_run_def sample_run_def)

lemma sample_parsed: "parse_init_output (trim_space sample_body) = Inr \<lparr>init_IP = ''192.168.64.2''\<rparr>"
  by code_simp

lemma boot_scan: "scan_console ''boot'' = Not_yet"
  by code_simp

lemma ready_guest_shows:
  "g_start ready_guest = None" "0 \<le> g_readCost ready_guest t \<and> g_readCost ready_guest t \<le> 0"
  "t < 3 * second \<Longrightarrow> look (g_console ready_guest t) = Not_yet"
  "3 * second \<le> t \<Longrightarrow> \<exists>content. g_console ready_guest t = Inr content \<and> prints sample_body content"
  "timely (g_net ready_guest)" "ssh_ready (g_net ready_guest) (20 * second) 0"
  "net_setDeadline (g_net ready_guest) t = None"
  using booting_timely booting_ready sample_console_prints
  by (simp_all add: ready_guest_def look_def boot_scan booting_def)

lemma ready_guest_times:
  "(0::time) \<le> second" "(0::time) \<le> 3 * second" "3 * second \<le> 0 + 200 * second" "20 * second \<le> 0 + 100 * second"
  by (simp_all add: second_def)

lemmas ready_guest_comes_up = session_run_initial session_run_prepared ready_guest_shows(1,2) ready_guest_times(1)
  ready_guest_shows(3,4) sample_parsed ready_guest_times(2,3) ready_guest_shows(5-7) ready_guest_times(4)

lemma sample_up:
  "\<exists>t d'. startup ready_guest 4711 ''2'' ''4096'' (run_specs session_run) 0 session_run = Some (Up t d') \<and>
     healthy_files ''192.168.64.2'' d' \<and> t \<le> 230 * second"
  using healthy_guest_up [where pid = 4711 and cpu = "''2''" and ram = "''4096''", OF ready_guest_comes_up] by simp

section \<open>Claims\<close>

text \<open>C12: The run of the daemon through time, composed of its waits and its operations, is one of the
  interleavings of the forward machine: while it serves, and when it has returned, its state is one the
  machine reaches, so every property of live forwards holds of it, and when it has returned no forward
  and no socket is left.\<close>

theorem session_is_a_run:
  assumes "initial_run specs r"
  shows "(\<forall>t r'. startup g pid cpu ram specs now r = Some (Up t r') \<longrightarrow>
       (\<exists>vmIP st. reachable vmIP specs (mark Serving [] None st r'))) \<and>
    (\<forall>res t r'. session g pid cpu ram specs now r = Some (Ended res t r') \<longrightarrow>
       (r' = r \<and> res \<noteq> Inr () \<or> (\<exists>vmIP sp st. reachable vmIP specs (mark Returned sp None st r'))) \<and>
       forwarderRegistry r' = [] \<and> listeners r' = [])"
proof (intro conjI allI impI)
  show "\<exists>vmIP st. reachable vmIP specs (mark Serving [] None st r')"
    if "startup g pid cpu ram specs now r = Some (Up t r')" for t r'
    using startup_reaches [OF that assms] by simp
next
  fix res t r' assume s: "session g pid cpu ram specs now r = Some (Ended res t r')"
  from session_reaches [OF s assms]
  show reach: "r' = r \<and> res \<noteq> Inr () \<or> (\<exists>vmIP sp st. reachable vmIP specs (mark Returned sp None st r'))" .
  have "forwarderRegistry r' = [] \<and> listeners r' = []"
    if "reachable vmIP specs (mark Returned sp None st r')" for vmIP sp st
    using reachable_ok [OF that] by (auto simp: run_ok_def in_flight_def registry_ok_def)
  with reach assms show "forwarderRegistry r' = []" "listeners r' = []" by (auto simp: initial_run_def)
qed

lemma session_is_a_run_witness:
  "\<exists>t r' vmIP st. startup ready_guest 4711 ''2'' ''4096'' (run_specs session_run) 0 session_run = Some (Up t r') \<and>
     reachable vmIP (run_specs session_run) (mark Serving [] None st r')"
  using session_is_a_run [OF session_run_initial] sample_up by blast




end
