(* ===== verification/Stop_Session.thy ===== *)
theory Stop_Session
  imports Start_Stop Vm_Shutdown
begin

text \<open>
  Both ends of a stop (\<open>launcher/mac/main.go\<close>): \<open>stopCmd\<close> of the launcher sends SIGTERM and watches the
  process, and the goroutine of the daemon that handles the signal ends that process when it is done.
\<close>

section \<open>How long the handler takes\<close>

definition ssh_time :: "path \<Rightarrow> string option \<Rightarrow> (string list \<Rightarrow> go_error option \<times> time) \<Rightarrow> time" where
  "ssh_time key sshTarget ssh = (case sshTarget of
     None \<Rightarrow> 0 | Some t \<Rightarrow> if t = [] then 0 else snd (ssh (poweroff_args key t)))"

lemma poweroff_time: "snd (snd (poweroff key sshTarget ssh now)) = now + ssh_time key sshTarget ssh"
  by (simp add: poweroff_def ssh_time_def Let_def split: option.split)

lemma handler_time:
  assumes "\<And>t. 0 \<le> m_cost m t \<and> m_cost m t \<le> c"
  shows "\<exists>h. handleStopSignal m key sshTarget ssh now = Some h \<and> h_exitCode h = 0 \<and>
    h_time h \<le> now + ssh_time key sshTarget ssh + 60 * second + c + 200 * millisecond \<and>
    now + ssh_time key sshTarget ssh \<le> h_time h \<and>
    ((\<forall>t. \<not> m_stopped m t) \<longrightarrow> now + ssh_time key sshTarget ssh + 60 * second \<le> h_time h)"
proof -
  obtain acts ok t1 where p: "poweroff key sshTarget ssh now = (acts, ok, t1)" by (cases "poweroff key sshTarget ssh now")
  have t1: "t1 = now + ssh_time key sshTarget ssh" using poweroff_time [of key sshTarget ssh now] p by simp
  let ?check = "\<lambda>t s. (m_stopped m t, s)"
  have ms: "0 < 200 * millisecond" "0 < second" by (simp_all add: millisecond_def second_def)
  have c: "0 \<le> c" using assms [of 0] by simp
  from pollUntil_result [where cost = "m_cost m" and check = ?check and now = t1 and deadline = "t1 + 60 * second" and
      s = "()", OF ms(1) assms]
  obtain r s' t where poll: "pollUntil ?check (m_cost m) (t1 + 60 * second) (200 * millisecond) t1 () = Some (r, s', t)"
    "t1 \<le> t" "t \<le> max t1 (t1 + 60 * second + c + 200 * millisecond)"
    and seen: "if r then \<exists>u su. t1 \<le> u \<and> u < t1 + 60 * second \<and> u \<le> t \<and> ?check u su = (True, s')
      else t1 + 60 * second \<le> t" by blast
  have "handleStopSignal m key sshTarget ssh now = Some \<lparr>
      h_actions = [Close_forwarders, Stop_clock_sync] @ acts @ (if ok then [] else fallback m),
      h_clean = m_stopped m t, h_exitCode = 0, h_time = t\<rparr>"
    by (simp add: handleStopSignal_def p poll)
  moreover have "t \<le> t1 + 60 * second + c + 200 * millisecond" using poll(3) ms c by (simp add: max_def split: if_splits)
  moreover have "t1 + 60 * second \<le> t" if "\<forall>t. \<not> m_stopped m t" using seen that by (simp split: if_splits)
  ultimately show ?thesis using t1 poll(2) by simp
qed

section \<open>Claims\<close>


definition hung_vm :: machine where
  "hung_vm = healthy_vm\<lparr>m_stopped := (\<lambda>t. False)\<rparr>"

definition handled_until :: "time \<Rightarrow> process_env" where
  "handled_until t = obedient\<lparr>p_alive := (\<lambda>pid u. u < t)\<rparr>"


end
