(* ===== verification/Spec2Isabelle.thy ===== *)
theory Spec2Isabelle
  imports Forward_Claims Launcher_Main Vm_Config Proxy_Data Log_Tail Session_Result Stop_Session
begin

text \<open>
  A verification development of the macOS launcher of Exasol Local VM (\<open>src/launcher/mac\<close>: \<open>main.go\<close>,
  \<open>forwarding.go\<close>, \<open>forward_commands.go\<close>).

  \<^bold>\<open>The program.\<close> One executable has two roles. The commands a user runs (\<open>init\<close>, \<open>start\<close>, \<open>stop\<close>,
  \<open>status\<close>, \<open>health-check\<close>, \<open>run\<close>, \<open>forward\<close>, \<open>resize-data\<close>, \<open>version\<close>) are short-lived. \<open>start\<close> launches
  the second role, the daemon (\<open>runVMDaemon\<close>), which configures and owns the virtual machine, forwards
  loopback ports to the guest and serves the socket \<open>vm.sock\<close>. The two communicate through that
  socket, through the arguments of the daemon, through files of the working directory (\<open>vm-config.json\<close>,
  \<open>vm-runtime.json\<close>, \<open>vm-state.json\<close>, \<open>vm-state-degraded.json\<close>, \<open>vm.pid\<close>) and through signals.

  \<^bold>\<open>How Go is modelled.\<close> A Go function that touches the outside world is a function from the world to
  a result (\<open>Inl\<close> the error, \<open>Inr\<close> the value) and the world it leaves; an early return keeps the effects
  made before it, and \<open>deferring\<close> is \<open>defer\<close> (\<open>Prelude\<close>). Errors are Go's wrapping chains (\<open>Go_Error\<close>).
  The world (\<open>Os\<close>) has the files, the TCP listeners, and a fault for every numbered system call, so a
  theorem over all worlds is one over all patterns of failures; a short write leaves a prefix behind.
  \<open>Go_Text\<close>, \<open>Go_Path\<close>, \<open>Go_Flag\<close>, \<open>Json\<close> and \<open>Net_Addr\<close> model what the launcher uses of \<open>strings\<close>, \<open>strconv\<close>,
  \<open>filepath\<close>, \<open>flag\<close>, \<open>encoding/json\<close>, \<open>net\<close> and \<open>netip\<close>. Strings are byte strings; \<open>int\<close> is an
  unbounded integer together with range conditions where a value is read (\<open>Atoi\<close> refuses what does not
  fit 64 bits), and wrap-around is written out where the program can overflow (\<open>gb_bytes\<close>, \<open>memory_word\<close>).

  \<^bold>\<open>The components.\<close>
  \<^item> \<open>Forward_Spec\<close>: \<open>parseForwardSpec\<close>, \<open>encodeForwardSpec\<close>, the \<open>--forward\<close> flag.
  \<^item> \<open>Forward_Wire\<close>, \<open>Vm_State\<close>: the messages of the socket; the atomic replacement of \<open>vm-state.json\<close>.
  \<^item> \<open>Forward_Registry\<close>, \<open>Registry_Laws\<close>, \<open>Request_Laws\<close>: the state behind \<open>forwarderRegistryMu\<close>, and
    \<open>handleForwardRequest\<close>, \<open>updateForward\<close>, \<open>saveForwardState\<close>, \<open>closeForwarders\<close> on it, with the outcomes
    of each. \<open>Forward_Contract\<close> states what the requests promise a client, without sockets, files or
    failures, and proves that the operations refine it.
  \<^item> \<open>Daemon_Run\<close>: the startup of the forwards in \<open>runVMDaemon\<close>, interleaved with requests and with the stop
    signal, as a step relation with its invariant. \<open>Forward_Claims\<close> holds the properties.
  \<^item> \<open>Forwarder_Machine\<close>: the goroutines of one forward (\<open>acceptLoop\<close>, \<open>proxyConnection\<close>, \<open>Close\<close>) as a step
    relation. \<open>Forward_Registry\<close> uses of it that a closed forward has no socket left. \<open>Proxy_Data\<close> adds the
    bytes the two \<open>io.Copy\<close> loops of a connection move, and proves that this refines the machine.
  \<^item> \<open>Health\<close>, \<open>Control_Socket\<close>, \<open>Forward_Command\<close>: \<open>probeForwarders\<close>; the daemon's handler of a connection
    and its clients; \<open>launcher forward\<close>, composed with the daemon's end.
  \<^item> \<open>Runtime_Files\<close>, \<open>Data_Disk\<close>, \<open>Archive\<close>, \<open>Init\<close>: the launcher's files, the disk image, unpacking the
    embedded archives, \<open>initCmd\<close> and its keys.
  \<^item> \<open>Ssh_Command\<close>: quoting for the guest's shell, the arguments of \<open>ssh\<close>, the clock synchronisation.
  \<^item> \<open>Polling\<close>: \<open>pollUntil\<close>, \<open>waitForInitOutput\<close>, \<open>waitForSSHService\<close>.
  \<^item> \<open>Vm_Config\<close>, \<open>Vm_Shutdown\<close>: the daemon up to the configured machine; \<open>shutdownVM\<close> and the handler of
    the stop signal.
  \<^item> \<open>Start_Stop\<close>, \<open>Log_Tail\<close>, \<open>Launcher_Main\<close>: \<open>startCmd\<close> and \<open>stopCmd\<close> seen from the launcher; the goroutine
    that shows \<open>vm.log\<close>; \<open>main\<close>.

  \<^bold>\<open>Components together.\<close> \<open>Daemon_Session\<close> composes the waits, the opening of the forwards and the
  publication into the run of \<open>runVMDaemon\<close> through time and proves it one of the interleavings of
  \<open>Daemon_Run\<close>, so that the invariants proved there hold of it; \<open>Session_Result\<close> sets the waiting \<open>startCmd\<close>
  beside it: which results of \<open>start\<close> go with which end of the daemon's startup. \<open>Stop_Session\<close> sets
  \<open>stopCmd\<close> beside the handler of the stop signal.

  \<^bold>\<open>Interfaces.\<close> \<open>world_relation\<close> (\<open>Prelude\<close>) is the contract of a reflexive and transitive relation that
  every step of a program keeps; its interpretations \<open>untouched\<close>, \<open>same_process\<close>, \<open>same_rest\<close>,
  \<open>console_kept\<close> are the frame conditions of the components. \<open>codec\<close> is the contract of a printer and a
  parser, interpreted for specifications, their lists and the messages of the socket. \<open>invariant\<close> is a
  step relation that keeps a property, \<open>progress\<close> adds work that every step lowers and a step while the goal
  is not reached, and concludes that the goal is reached within that many steps; \<open>simulation\<close> carries runs from
  one relation to another. They are interpreted as \<open>machine\<close> (a forwarder's goroutines), \<open>closing\<close> (its
  \<open>close\<close>), \<open>link\<close>, \<open>bytes\<close> and \<open>delivery\<close> (a proxied connection) and \<open>run\<close> (the daemon's life).

  \<^bold>\<open>Time and loops.\<close> Time is an integer number of nanoseconds. A call takes a duration that is an
  argument; sleeping moves the clock. The polling loops are \<open>partial_function\<close>s whose value \<open>None\<close> would
  mean that they never return; the properties prove that they do, by the deadline, and that they notice
  what they wait for. The bounds are the program's: 4 minutes for \<open>start\<close>, 5 minutes for the guest's
  output, 2 minutes for SSH, 65 seconds for \<open>stop\<close>, 60 seconds in the stop handler, 5 and 30 seconds in
  \<open>shutdownVM\<close>. No definition needs fuel: the JSON parser runs by recursion on its text.

  \<^bold>\<open>Arguments of the model.\<close> The virtualisation framework (\<open>vz_lib\<close>, \<open>machine\<close>), the key formats (\<open>crypto\<close>),
  the xz and tar readers (\<open>archive\<close>), running \<open>ssh\<close> (\<open>exec\<close>), dialling and reading connections (\<open>dial\<close>,
  \<open>ssh_net\<close>), other processes (\<open>start_env\<close>, \<open>watch\<close>, \<open>process_env\<close>), and whether standard input is a
  terminal (\<open>tty\<close>).

  \<^bold>\<open>Not modelled.\<close> Messages on standard output and standard error, the \<open>ioctl\<close> of \<open>isTerminal\<close>, symbolic links,
  and the parts of the repository that are not Go: the guest image, packaging and workflows. In the runs
  through time only waiting and the calls that look at the outside take time.
\<close>

end
